(* ===== verification/Simulation.thy ===== *)
theory Simulation
  imports Main
begin

text \<open>
  Forward simulation: what it takes for a detailed transition system to implement an abstract
  one. The locale \<open>simulation\<close> is interpreted for the registry, in Dfinder_Spec.
\<close>

locale simulation =
  fixes inv :: "'c \<Rightarrow> bool"
    and step :: "'c \<Rightarrow> 'c \<Rightarrow> bool"
    and abs :: "'c \<Rightarrow> 'a"
    and spec :: "'a \<Rightarrow> 'a \<Rightarrow> bool"
  assumes inv_step: "inv s \<Longrightarrow> step s s' \<Longrightarrow> inv s'"
    and sim_step: "inv s \<Longrightarrow> step s s' \<Longrightarrow> spec\<^sup>=\<^sup>= (abs s) (abs s')"
begin

text \<open>A run of the detailed system is a run of the abstract one.\<close>

lemma sim_run:
  assumes "step\<^sup>*\<^sup>* s s'" "inv s"
  shows "inv s' \<and> spec\<^sup>*\<^sup>* (abs s) (abs s')"
  using assms(1)
proof (induction rule: rtranclp_induct)
  case base
  then show ?case using assms(2) by simp
next
  case (step t u)
  then have "inv t" "spec\<^sup>*\<^sup>* (abs s) (abs t)" by simp_all
  with inv_step [OF this(1) step(2)] sim_step [OF this(1) step(2)] show ?case
    by (auto intro: rtranclp.rtrancl_into_rtrancl)
qed

text \<open>An invariant shown of the abstract system holds of the detailed one.\<close>

lemma transfer_invariant:
  assumes "\<And>a b. spec a b \<Longrightarrow> P a \<Longrightarrow> P b" "step\<^sup>*\<^sup>* s s'" "inv s" "P (abs s)"
  shows "P (abs s')"
proof -
  have "P b" if "spec\<^sup>*\<^sup>* a b" "P a" for a b
    using that by (induction rule: rtranclp_induct) (auto intro: assms(1))
  with sim_run [OF assms(2,3)] assms(4) show ?thesis by blast
qed

end

end
