(* ===== verification/Prelude.thy ===== *)
theory Prelude
  imports Main "HOL-Library.Word"
begin

text \<open>
  Shared ground of the development: the machine integers of the Rust sources, the
  result type that carries errors and panics, big-endian integers
  (\<open>to_be_bytes\<close>, \<open>from_be_bytes\<close>), integer formatting (\<open>format!\<close>) and the
  list lemmas several components share. The lemmas on results are declared \<open>[simp]\<close> or
  collected in \<open>res_elims\<close>, those on byte encodings in \<open>byte_simps\<close>.
\<close>

unbundle bit_operations_syntax

named_theorems res_elims \<open>inversion of results that are Ok, Err or Panic\<close>
named_theorems byte_simps \<open>lengths and inverses of the byte encodings\<close>

section \<open>Machine integers and strings\<close>

type_synonym u8 = "8 word"
type_synonym u16 = "16 word"
type_synonym u64 = "64 word"
type_synonym i64 = "64 word" \<comment> \<open>read with \<open>sint\<close>\<close>
type_synonym bytes = "u8 list"

text \<open>
  A Rust \<open>String\<close> is its UTF-8 bytes: HOL characters are bytes, so a \<open>string\<close> is exactly
  that byte sequence and \<open>length\<close> is Rust's \<open>len()\<close>.
\<close>

definition u16_MAX :: nat where
  "u16_MAX = 65535"

section \<open>Results\<close>

text \<open>
  \<open>Ok\<close> and \<open>Err\<close> are Rust's \<open>Result\<close>; \<open>Panic\<close> is a panic with its message, which no
  caller of the modelled code catches.
\<close>

datatype ('e, 'a) res = Ok 'a | Err 'e | Panic string

fun rbind :: "('e, 'a) res \<Rightarrow> ('a \<Rightarrow> ('e, 'b) res) \<Rightarrow> ('e, 'b) res" where
  "rbind (Ok x) f = f x"
| "rbind (Err e) f = Err e"
| "rbind (Panic m) f = Panic m"

fun map_err :: "('e \<Rightarrow> 'f) \<Rightarrow> ('e, 'a) res \<Rightarrow> ('f, 'a) res" where
  "map_err g (Ok x) = Ok x"
| "map_err g (Err e) = Err (g e)"
| "map_err g (Panic m) = Panic m"

text \<open>The result of a call into external code, which returns or fails but does not panic.\<close>

fun of_sum :: "'e + 'a \<Rightarrow> ('e, 'a) res" where
  "of_sum (Inl e) = Err e"
| "of_sum (Inr x) = Ok x"

fun is_ok :: "('e, 'a) res \<Rightarrow> bool" where
  "is_ok (Ok x) = True"
| "is_ok _ = False"

lemma rbind_eq_Ok [simp]: "rbind m f = Ok y \<longleftrightarrow> (\<exists>x. m = Ok x \<and> f x = Ok y)"
  by (cases m) auto

lemma rbind_eq_Err [res_elims]:
  "rbind m f = Err e \<longleftrightarrow> m = Err e \<or> (\<exists>x. m = Ok x \<and> f x = Err e)"
  by (cases m) auto

lemma rbind_eq_Panic [res_elims]:
  "rbind m f = Panic p \<longleftrightarrow> m = Panic p \<or> (\<exists>x. m = Ok x \<and> f x = Panic p)"
  by (cases m) auto

lemma map_err_eq_Ok [simp]: "map_err g m = Ok x \<longleftrightarrow> m = Ok x"
  by (cases m) auto

lemma map_err_eq_Err [res_elims]: "map_err g m = Err e \<longleftrightarrow> (\<exists>e'. m = Err e' \<and> e = g e')"
  by (cases m) auto

lemma map_err_eq_Panic [simp]: "map_err g m = Panic p \<longleftrightarrow> m = Panic p"
  by (cases m) auto

lemma of_sum_eq_Ok [simp]: "of_sum s = Ok x \<longleftrightarrow> s = Inr x"
  by (cases s) auto

lemma of_sum_eq_Err [simp]: "of_sum s = Err e \<longleftrightarrow> s = Inl e"
  by (cases s) auto

lemma of_sum_not_Panic [simp]: "of_sum s \<noteq> Panic p"
  by (cases s) auto

lemma is_ok_iff: "is_ok r \<longleftrightarrow> (\<exists>x. r = Ok x)"
  by (cases r) auto

lemma rbind_cong [fundef_cong]:
  "m = m' \<Longrightarrow> (\<And>x. m' = Ok x \<Longrightarrow> f x = g x) \<Longrightarrow> rbind m f = rbind m' g"
  by (cases m') auto

text \<open>
  Operations on a state that survives a failure: the result beside the state reached.
  \<open>sbind\<close> is sequencing with \<open>?\<close>, \<open>smap_err\<close> the conversion of the error by \<open>From\<close>.
\<close>

fun sbind :: "('e, 'a) res \<times> 's \<Rightarrow> ('a \<Rightarrow> 's \<Rightarrow> ('e, 'b) res \<times> 's) \<Rightarrow> ('e, 'b) res \<times> 's" where
  "sbind (Ok x, s) f = f x s"
| "sbind (Err e, s) f = (Err e, s)"
| "sbind (Panic m, s) f = (Panic m, s)"

definition smap_err :: "('e \<Rightarrow> 'f) \<Rightarrow> ('e, 'a) res \<times> 's \<Rightarrow> ('f, 'a) res \<times> 's" where
  "smap_err g p = (map_err g (fst p), snd p)"

lemma smap_err_pair [simp]: "smap_err g (r, s) = (map_err g r, s)"
  by (simp add: smap_err_def)

lemma sbind_eq_Ok [simp]:
  "sbind p f = (Ok y, s'') \<longleftrightarrow> (\<exists>x s'. p = (Ok x, s') \<and> f x s' = (Ok y, s''))"
  by (cases "(p, f)" rule: sbind.cases) auto

lemma sbind_unit [simp]: "sbind p (\<lambda>_. Pair (Ok ())) = (p :: ('e, unit) res \<times> 's)"
proof (cases p)
  case (Pair r s)
  then show ?thesis by (cases r) simp_all
qed

lemma sbind_cong [fundef_cong]:
  "p = p' \<Longrightarrow> (\<And>x s. p' = (Ok x, s) \<Longrightarrow> f x s = g x s) \<Longrightarrow> sbind p f = sbind p' g"
  by (cases "(p', g)" rule: sbind.cases) auto

section \<open>I/O errors\<close>

datatype io_kind = InvalidInput | InvalidData | UnexpectedEof | OtherKind | OsKind nat

datatype io_error = Io_Error (io_kind: io_kind) (io_msg: string)

section \<open>Formatting of integers\<close>

text \<open>\<open>Display\<close> of an unsigned integer: decimal digits, most significant first.\<close>

definition digit_char :: "nat \<Rightarrow> char" where
  "digit_char d = (if d < 10 then char_of (48 + d) else char_of (87 + d))"

fun digits_base :: "nat \<Rightarrow> nat \<Rightarrow> string" where
  "digits_base b n =
     (if b < 2 then [] else if n < b then [digit_char n]
      else digits_base b (n div b) @ [digit_char (n mod b)])"

declare digits_base.simps [simp del]

definition show_dec :: "nat \<Rightarrow> string" where
  "show_dec n = digits_base 10 n"

text \<open>\<open>{:#x}\<close>: a \<open>0x\<close> prefix and lower-case hexadecimal digits.\<close>

definition show_hex_alt :: "nat \<Rightarrow> string" where
  "show_hex_alt n = ''0x'' @ digits_base 16 n"


lemma digits_base_nonempty: "2 \<le> b \<Longrightarrow> digits_base b n \<noteq> []"
  by (subst digits_base.simps) simp

lemma digit_char_inj: "d < 16 \<Longrightarrow> d' < 16 \<Longrightarrow> digit_char d = digit_char d' \<Longrightarrow> d = d'"
proof -
  have code: "of_char (digit_char k) = (if k < 10 then 48 + k else 87 + k)" if "k < 16" for k :: nat
  proof -
    have "(48 + k) mod 256 = 48 + k" "(87 + k) mod 256 = 87 + k" using that by simp_all
    then show ?thesis by (simp only: digit_char_def of_char_of if_distrib [of of_char])
  qed
  assume a: "d < 16" "d' < 16" "digit_char d = digit_char d'"
  have "(if d < 10 then 48 + d else 87 + d) = of_char (digit_char d)"
    by (rule code [OF a(1), symmetric])
  also have "\<dots> = (if d' < 10 then 48 + d' else 87 + d')"
    unfolding a(3) by (rule code [OF a(2)])
  finally show "d = d'" using a(1,2) by (simp split: if_splits)
qed

lemma digits_base_inj:
  assumes "2 \<le> b" "b \<le> 16"
  shows "digits_base b m = digits_base b n \<Longrightarrow> m = n"
proof (induction m arbitrary: n rule: less_induct)
  case (less m)
  have small: "digits_base b k = [digit_char k]" if "k < b" for k
    using that assms by (subst digits_base.simps) simp
  have big: "digits_base b k = digits_base b (k div b) @ [digit_char (k mod b)]" if "\<not> k < b" for k
    using that assms by (subst digits_base.simps) simp
  have ne: "digits_base b k \<noteq> []" for k
    using assms by (intro digits_base_nonempty) simp
  have lt: "k mod b < 16" for k
  proof -
    have "k mod b < b" using assms by simp
    then show ?thesis using assms(2) by (rule less_le_trans)
  qed
  show ?case
  proof (cases "m < b")
    case True
    with less.prems have "n < b"
      using small [of m] big [of n] ne [of "n div b"] by (cases "n < b") auto
    with True less.prems assms show ?thesis
      by (auto simp: small intro!: digit_char_inj)
  next
    case False
    with less.prems have nb: "\<not> n < b"
      using small [of n] big [of m] ne [of "m div b"] by (cases "n < b") auto
    with False less.prems have "digits_base b (m div b) = digits_base b (n div b)"
      and "digit_char (m mod b) = digit_char (n mod b)"
      by (auto simp: big)
    moreover from False assms have "m div b < m"
      by (intro div_less_dividend) auto
    ultimately have "m div b = n div b" and "m mod b = n mod b"
      using less.IH by (auto intro: digit_char_inj [OF lt lt])
    then show ?thesis by (metis div_mult_mod_eq)
  qed
qed

lemma show_dec_inj: "show_dec m = show_dec n \<longleftrightarrow> m = n"
  using digits_base_inj [of 10 m n] by (auto simp: show_dec_def)

section \<open>Big-endian integers\<close>

text \<open>
  \<open>to_be n w\<close> is the \<open>n\<close> low-order bytes of \<open>w\<close>, most significant first: with the width of
  \<open>w\<close> it is Rust's \<open>to_be_bytes\<close>. \<open>from_be\<close> is \<open>from_be_bytes\<close>.
\<close>

definition to_be :: "nat \<Rightarrow> 'a::len word \<Rightarrow> bytes" where
  "to_be n w = map (\<lambda>i. ucast (drop_bit (8 * i) w)) (rev [0..<n])"

definition from_be :: "bytes \<Rightarrow> 'a::len word" where
  "from_be bs = foldl (\<lambda>acc b. push_bit 8 acc OR ucast b) 0 bs"

lemma length_to_be [byte_simps, simp]: "length (to_be n w) = n"
  by (simp add: to_be_def)

lemma from_be_snoc: "from_be (bs @ [b]) = push_bit 8 (from_be bs) OR ucast b"
  by (simp add: from_be_def)

lemma bit_from_be_snoc:
  "bit (from_be (bs @ [b]) :: 'a::len word) k \<longleftrightarrow>
     k < LENGTH('a) \<and> (if k < 8 then bit b k else bit (from_be bs :: 'a word) (k - 8))"
  by (auto simp: from_be_snoc bit_simps dest: bit_imp_le_length)

lemma to_be_Suc: "to_be (Suc n) w = ucast (drop_bit (8 * n) w) # to_be n w"
  by (simp add: to_be_def)

lemma to_be_snoc: "to_be (Suc n) w = to_be n (drop_bit 8 w) @ [ucast w]"
proof (induction n)
  case 0
  show ?case by (simp add: to_be_def)
next
  case (Suc n)
  have "to_be (Suc (Suc n)) w = ucast (drop_bit (8 * Suc n) w) # to_be n (drop_bit 8 w) @ [ucast w]"
    using Suc by (simp add: to_be_Suc [of "Suc n"])
  then show ?case by (simp add: to_be_Suc add.commute)
qed

lemma bit_from_be_to_be:
  "bit (from_be (to_be n w) :: 'a::len word) k \<longleftrightarrow> k < 8 * n \<and> bit (w :: 'a word) k"
proof (induction n arbitrary: w k)
  case 0
  show ?case by (simp add: to_be_def from_be_def)
next
  case (Suc n)
  show ?case
    by (auto simp: to_be_snoc bit_from_be_snoc Suc bit_simps dest: bit_imp_le_length)
qed

lemma from_be_to_be:
  assumes "LENGTH('a) \<le> 8 * n"
  shows "from_be (to_be n w) = (w :: 'a::len word)"
  using assms by (auto intro!: bit_word_eqI simp: bit_from_be_to_be)

lemma from_be_to_be_u64 [byte_simps, simp]: "from_be (to_be 8 w) = (w :: u64)"
  by (rule from_be_to_be) simp

lemma from_be_to_be_u16 [byte_simps, simp]: "from_be (to_be 2 w) = (w :: u16)"
  by (rule from_be_to_be) simp

text \<open>
  Conversely, \<open>from_be\<close> loses nothing when the bytes fill the word exactly.
\<close>

lemma bit_from_be:
  "bit (from_be bs :: 'a::len word) k \<longleftrightarrow>
     k < LENGTH('a) \<and> k < 8 * length bs \<and> bit (rev bs ! (k div 8)) (k mod 8)"
proof (induction bs arbitrary: k rule: rev_induct)
  case Nil
  show ?case by (simp add: from_be_def)
next
  case (snoc b bs)
  show ?case
    by (auto simp: bit_from_be_snoc snoc.IH not_less le_div_geq le_mod_geq)
qed

lemma to_be_from_be:
  assumes "8 * length bs = LENGTH('a)" "n = length bs"
  shows "to_be n (from_be bs :: 'a::len word) = bs"
proof (rule nth_equalityI)
  show "length (to_be n (from_be bs :: 'a word)) = length bs" using assms by simp
  fix i assume "i < length (to_be n (from_be bs :: 'a word))"
  then have i: "i < n" by simp
  let ?j = "n - Suc i"
  have nth: "to_be n (from_be bs :: 'a word) ! i = ucast (drop_bit (8 * ?j) (from_be bs :: 'a word))"
    using i by (simp add: to_be_def rev_nth)
  have rb: "rev bs ! ?j = bs ! i"
    using i assms by (simp add: rev_nth Suc_diff_Suc)
  show "to_be n (from_be bs :: 'a word) ! i = bs ! i"
  proof (rule bit_word_eqI)
    fix k assume "k < LENGTH(8)"
    then have k: "k < 8" by simp
    have "8 * ?j + k < 8 * n" using k i by linarith
    moreover have "(8 * ?j + k) div 8 = ?j" and "(8 * ?j + k) mod 8 = k" using k by simp_all
    ultimately show "bit (to_be n (from_be bs :: 'a word) ! i) k = bit (bs ! i) k"
      unfolding nth using k assms(1) rb by (simp add: assms(2) bit_simps bit_from_be)
  qed
qed

section \<open>Bit fields of a byte\<close>

text \<open>
  A byte split in a 5-bit and a 3-bit field, and the masks \<open>0x03\<close>, \<open>0x04\<close>, \<open>0x07\<close>: what
  the frame header needs.
\<close>

lemma bit_below:
  assumes "unat (w :: 'a::len word) < 2 ^ n" "bit w k"
  shows "k < n"
proof (rule ccontr)
  assume "\<not> k < n"
  then have "(2::nat) ^ n \<le> 2 ^ k" by simp
  with assms(1) have "unat w div 2 ^ k = 0" by (simp add: less_le_trans)
  moreover from assms(2) have "bit (unat w) k" by (simp add: bit_unsigned_iff)
  ultimately show False by (simp add: bit_iff_odd)
qed

lemma unat_below:
  assumes "\<And>k. bit (w :: 'a::len word) k \<Longrightarrow> k < n"
  shows "unat w < 2 ^ n"
proof -
  have "take_bit n w = w"
    using assms by (auto intro!: bit_word_eqI simp: bit_simps)
  then have "take_bit n (unat w) = unat w"
    by (metis unsigned_take_bit_eq)
  then show ?thesis by (metis take_bit_nat_less_exp)
qed

lemma bit_mask_u8:
  "bit (7::u8) k \<longleftrightarrow> k < 3" "bit (3::u8) k \<longleftrightarrow> k < 2" "bit (31::u8) k \<longleftrightarrow> k < 5"
  "bit (4::u8) k \<longleftrightarrow> k = 2"
proof -
  have m: "(7::u8) = mask 3" "(3::u8) = mask 2" "(31::u8) = mask 5"
    by (simp_all add: mask_eq_exp_minus_1)
  show "bit (7::u8) k \<longleftrightarrow> k < 3" "bit (3::u8) k \<longleftrightarrow> k < 2" "bit (31::u8) k \<longleftrightarrow> k < 5"
    unfolding m by (auto simp: bit_simps)
  have "(4::u8) = push_bit 2 1" by simp
  then show "bit (4::u8) k \<longleftrightarrow> k = 2"
    by (simp only: bit_push_bit_iff) (auto simp: bit_simps)
qed

lemma bit_and_mask_u8:
  "bit (w AND (7::u8)) k \<longleftrightarrow> bit w k \<and> k < 3"
  "bit (w AND (3::u8)) k \<longleftrightarrow> bit w k \<and> k < 2"
  "bit (w AND (4::u8)) k \<longleftrightarrow> bit w k \<and> k = 2"
  "bit (w AND NOT (7::u8)) k \<longleftrightarrow> bit w k \<and> \<not> k < 3"
  unfolding bit_and_iff bit_not_iff_eq bit_mask_u8
  by (auto dest: bit_imp_le_length)

lemma and_not_7_iff: "fl AND NOT 7 = 0 \<longleftrightarrow> unat (fl::u8) < 2 ^ 3"
proof
  assume "fl AND NOT 7 = 0"
  then have "\<not> (bit fl k \<and> \<not> k < 3)" for k
    by (metis bit_and_mask_u8(4) bit_0_eq bot_apply bot_bool_def)
  then show "unat fl < 2 ^ 3"
    by (intro unat_below) blast
next
  assume "unat fl < 2 ^ 3"
  from bit_below [OF this] show "fl AND NOT 7 = 0"
    by (intro bit_word_eqI) (metis bit_and_mask_u8(4) bit_0_eq bot_apply bot_bool_def)
qed

lemma header_shift:
  assumes "unat (mt::u8) < 2 ^ 5" "unat (fl::u8) < 2 ^ 3"
  shows "drop_bit 3 (push_bit 3 mt OR fl) = mt"
    and "(push_bit 3 mt OR fl) AND 7 = fl"
proof -
  show "drop_bit 3 (push_bit 3 mt OR fl) = mt"
    using bit_below [OF assms(1)] bit_below [OF assms(2)]
    by (intro bit_word_eqI) (force simp: bit_simps)
  show "(push_bit 3 mt OR fl) AND 7 = fl"
    using bit_below [OF assms(2)]
    by (intro bit_word_eqI) (auto simp: bit_and_mask_u8 bit_or_iff bit_push_bit_iff)
qed

lemma header_join: "push_bit 3 (drop_bit 3 h) OR (h AND 7) = (h::u8)"
  by (intro bit_word_eqI)
     (auto simp: bit_and_mask_u8 bit_or_iff bit_push_bit_iff bit_drop_bit_eq)

lemma header_parts_bound: 
  "unat (drop_bit 3 (h::u8)) < 2 ^ 5" "unat (h AND 7) < 2 ^ 3" "unat (h AND 3) < 2 ^ 2"
proof -
  show "unat (drop_bit 3 h) < 2 ^ 5"
    by (rule unat_below) (auto simp: bit_drop_bit_eq dest: bit_imp_le_length)
  show "unat (h AND 7) < 2 ^ 3" "unat (h AND 3) < 2 ^ 2"
    by (rule unat_below, simp add: bit_and_mask_u8)+
qed

lemma and_7_and_3: "(h AND 7) AND 3 = h AND (3::u8)" "(h AND 7) AND 4 = h AND (4::u8)"
  by (rule bit_word_eqI, auto simp: bit_and_mask_u8)+

lemma flag_bits: "unat (fl::u8) < 2 ^ 3 \<Longrightarrow> fl = (fl AND 3) OR (fl AND 4)"
  using bit_below [of fl 3] by (intro bit_word_eqI) (force simp: bit_and_mask_u8 bit_or_iff)

end
