(* ===== verification/Streams.thy ===== *)
theory Streams
  imports Prelude
begin

text \<open>
  The byte streams the wire code reads and writes: \<open>std::io::Read\<close> and \<open>Write\<close> and their
  tokio counterparts, as far as \<open>read_exact\<close>, \<open>write_all\<close> and \<open>flush\<close> are concerned.
  A reader is the bytes that will still arrive and the error the next read reports once
  they are used up (end of file, or a transport error). A writer records the bytes it
  took, how many more it will take before it breaks, and the errors it reports then.
\<close>

section \<open>Readers\<close>

record reader =
  rd_inp :: bytes
  rd_end :: io_error

text \<open>
  \<open>read_exact\<close> with a buffer of \<open>n\<close> bytes: the next \<open>n\<close> bytes, or the error at the end of
  the input. After an error the contents of the buffer and the position are unspecified;
  the callers return at once, so no state is returned then.
\<close>

definition read_exact :: "nat \<Rightarrow> reader \<Rightarrow> (io_error, bytes \<times> reader) res" where
  "read_exact n r =
     (if n \<le> length (rd_inp r)
      then Ok (take n (rd_inp r), r\<lparr>rd_inp := drop n (rd_inp r)\<rparr>)
      else Err (rd_end r))"

lemma read_exact_append [simp]:
  "length xs = n \<Longrightarrow> rd_inp r = xs @ ys \<Longrightarrow> read_exact n r = Ok (xs, r\<lparr>rd_inp := ys\<rparr>)"
  by (simp add: read_exact_def)

lemma read_exact_Ok_iff:
  "read_exact n r = Ok (xs, r') \<longleftrightarrow>
     length xs = n \<and> rd_inp r = xs @ rd_inp r' \<and> rd_end r' = rd_end r \<and> reader.more r' = reader.more r"
  by (auto simp: read_exact_def intro!: reader.equality)

lemma read_exact_Err_iff:
  "read_exact n r = Err e \<longleftrightarrow> length (rd_inp r) < n \<and> e = rd_end r"
  by (auto simp: read_exact_def)

lemma read_exact_not_Panic [simp]: "read_exact n r \<noteq> Panic p"
  by (simp add: read_exact_def)

section \<open>Writers\<close>

record sink =
  sk_out :: bytes
  sk_room :: "nat option"
  sk_err :: io_error
  sk_flush :: "io_error option"

text \<open>
  \<open>write_all\<close>: every byte, or the bytes up to the point where the writer breaks and its
  error. \<open>sk_room = None\<close> is a writer that never breaks.
\<close>

definition write_all :: "bytes \<Rightarrow> sink \<Rightarrow> (io_error, unit) res \<times> sink" where
  "write_all b s =
     (case sk_room s of
        None \<Rightarrow> (Ok (), s\<lparr>sk_out := sk_out s @ b\<rparr>)
      | Some n \<Rightarrow>
          if length b \<le> n
          then (Ok (), s\<lparr>sk_out := sk_out s @ b, sk_room := Some (n - length b)\<rparr>)
          else (Err (sk_err s), s\<lparr>sk_out := sk_out s @ take n b, sk_room := Some 0\<rparr>))"

definition flush :: "sink \<Rightarrow> (io_error, unit) res \<times> sink" where
  "flush s = (case sk_flush s of None \<Rightarrow> (Ok (), s) | Some e \<Rightarrow> (Err e, s))"

text \<open>A sink that takes everything; the bytes it holds are what the peer will read.\<close>

definition open_sink :: "io_error \<Rightarrow> sink" where
  "open_sink e = \<lparr>sk_out = [], sk_room = None, sk_err = e, sk_flush = None\<rparr>"

definition sink_good :: "sink \<Rightarrow> bool" where
  "sink_good s \<longleftrightarrow> sk_room s = None \<and> sk_flush s = None"

lemma write_all_good [simp]:
  "sink_good s \<Longrightarrow> write_all b s = (Ok (), s\<lparr>sk_out := sk_out s @ b\<rparr>)"
  by (simp add: write_all_def sink_good_def)

lemma flush_good [simp]: "sink_good s \<Longrightarrow> flush s = (Ok (), s)"
  by (simp add: flush_def sink_good_def)

lemma sink_good_out [simp]: "sink_good (s\<lparr>sk_out := b\<rparr>) = sink_good s"
  by (simp add: sink_good_def)

lemma open_sink_good [simp]: "sink_good (open_sink e)"
  by (simp add: sink_good_def open_sink_def)

lemma open_sink_out [simp]: "sk_out (open_sink e) = []"
  by (simp add: open_sink_def)

lemma write_all_Ok_iff:
  "fst (write_all b s) = Ok () \<longleftrightarrow> (case sk_room s of None \<Rightarrow> True | Some n \<Rightarrow> length b \<le> n)"
  by (simp add: write_all_def split: option.splits)

lemma write_all_out:
  "\<exists>k. sk_out (snd (write_all b s)) = sk_out s @ take k b \<and>
       (fst (write_all b s) = Ok () \<longrightarrow> k = length b)"
  by (auto simp: write_all_def split: option.splits)

lemma write_all_not_Panic [simp]: "fst (write_all b s) \<noteq> Panic p"
  by (simp add: write_all_def split: option.splits)

lemma flush_not_Panic [simp]: "fst (flush s) \<noteq> Panic p"
  by (simp add: flush_def split: option.splits)

lemma flush_out [simp]: "sk_out (snd (flush s)) = sk_out s"
  by (simp add: flush_def split: option.splits)

section \<open>Connections\<close>

text \<open>A \<open>TcpStream\<close>: a reader and a writer that do not share state.\<close>

record stream =
  st_rd :: reader
  st_wr :: sink

end
