(* ===== verification/Tiny_Frame.thy ===== *)
theory Tiny_Frame
  imports Streams
begin

text \<open>
  The frame codec \<open>src/tiny_frame.rs\<close>: header byte, compression, AEAD encryption, the wire
  layout, and the async and blocking readers and writers.

  The crates \<open>flate2\<close> and \<open>chacha20poly1305\<close> are the record \<open>codec\<close>, an argument of every
  definition that calls them; what is relied on is \<open>codec_ok\<close> (decompression inverts
  compression, the tag has 16 bytes, decryption inverts encryption and accepts nothing
  else). \<open>OsRng\<close> is a stream of random bytes. The global \<open>OnceCell\<close> of the key is the
  state \<open>key_cell\<close>.
\<close>

section \<open>Constants\<close>

definition KEY_LEN :: nat where "KEY_LEN = 32"
definition NONCE_LEN :: nat where "NONCE_LEN = 12"
definition TAG_LEN :: nat where "TAG_LEN = 16"

definition COMPRESS_NONE :: u8 where "COMPRESS_NONE = 0"
definition COMPRESS_GZIP :: u8 where "COMPRESS_GZIP = 1"
definition COMPRESS_DEFLATE :: u8 where "COMPRESS_DEFLATE = 2"
definition CHACHA20POLY1305 :: u8 where "CHACHA20POLY1305 = 4"

definition MESSAGE_TYPE_BITS :: nat where "MESSAGE_TYPE_BITS = 5"
definition MESSAGE_TYPE_MASK :: u8 where "MESSAGE_TYPE_MASK = push_bit MESSAGE_TYPE_BITS 1 - 1"
definition FLAGS_MASK :: u8 where "FLAGS_MASK = 7"
definition COMPRESS_MASK :: u8 where "COMPRESS_MASK = 3"

lemmas frame_consts =
  COMPRESS_NONE_def COMPRESS_GZIP_def COMPRESS_DEFLATE_def CHACHA20POLY1305_def
  FLAGS_MASK_def COMPRESS_MASK_def

lemma MESSAGE_TYPE_MASK_eq [simp]: "MESSAGE_TYPE_MASK = 31"
  by (simp add: MESSAGE_TYPE_MASK_def MESSAGE_TYPE_BITS_def)

section \<open>External code\<close>

type_synonym key = bytes

record codec =
  gz_encode :: "bytes \<Rightarrow> io_error + bytes"
  gz_decode :: "bytes \<Rightarrow> io_error + bytes"
  df_encode :: "bytes \<Rightarrow> io_error + bytes"
  df_decode :: "bytes \<Rightarrow> io_error + bytes"
  aead_encrypt :: "key \<Rightarrow> bytes \<Rightarrow> bytes \<Rightarrow> bytes \<Rightarrow> bytes option"
  aead_decrypt :: "key \<Rightarrow> bytes \<Rightarrow> bytes \<Rightarrow> bytes \<Rightarrow> bytes option"

text \<open>
  The arguments of the AEAD functions are key, nonce, message (or ciphertext) and
  associated data. The laws are the documented behaviour of the two crates.
\<close>

definition codec_ok :: "codec \<Rightarrow> bool" where
  "codec_ok C \<longleftrightarrow>
     (\<forall>d z. gz_encode C d = Inr z \<longrightarrow> gz_decode C z = Inr d) \<and>
     (\<forall>d z. df_encode C d = Inr z \<longrightarrow> df_decode C z = Inr d) \<and>
     (\<forall>k n m a c. aead_encrypt C k n m a = Some c \<longrightarrow>
        length c = length m + TAG_LEN \<and> aead_decrypt C k n c a = Some m) \<and>
     (\<forall>k n m a c. aead_decrypt C k n c a = Some m \<longrightarrow> aead_encrypt C k n m a = Some c)"

lemma codec_okD:
  assumes "codec_ok C"
  shows "gz_encode C d = Inr z \<Longrightarrow> gz_decode C z = Inr d"
    and "df_encode C d = Inr z \<Longrightarrow> df_decode C z = Inr d"
    and "aead_encrypt C k n m a = Some c \<Longrightarrow> length c = length m + TAG_LEN"
    and "aead_encrypt C k n m a = Some c \<Longrightarrow> aead_decrypt C k n c a = Some m"
    and "aead_decrypt C k n c a = Some m \<Longrightarrow> aead_encrypt C k n m a = Some c"
  using assms unfolding codec_ok_def by blast+

type_synonym rng = "nat \<Rightarrow> u8"

definition fill_bytes :: "rng \<Rightarrow> nat \<Rightarrow> bytes" where
  "fill_bytes rng n = map rng [0..<n]"

lemma length_fill_bytes [simp]: "length (fill_bytes rng n) = n"
  by (simp add: fill_bytes_def)

section \<open>The global key\<close>

type_synonym key_cell = "key option option"

text \<open>
  The cell is set once. \<open>expect\<close> prints the error value behind its message, and the error of
  \<open>OnceLock::set\<close> is the value that was refused: the \<open>Debug\<close> form of the second key.
\<close>

fun comma_separated :: "string list \<Rightarrow> string" where
  "comma_separated [] = []"
| "comma_separated [x] = x"
| "comma_separated (x # xs) = x @ '', '' @ comma_separated xs"

definition key_debug :: "key option \<Rightarrow> string" where
  "key_debug key =
     (case key of
        None \<Rightarrow> ''None''
      | Some k \<Rightarrow> ''Some(['' @ comma_separated (map (\<lambda>b. show_dec (unat b)) k) @ ''])'')"

definition set_encrypt_key :: "key option \<Rightarrow> key_cell \<Rightarrow> (io_error, unit) res \<times> key_cell" where
  "set_encrypt_key key cell =
     (case cell of
        None \<Rightarrow> (Ok (), Some key)
      | Some _ \<Rightarrow> (Panic (''ENCRYPT_KEY_CHACHA20POLY1305 already configured: '' @ key_debug key), cell))"

definition require_encrypt_key :: "key_cell \<Rightarrow> (io_error, key) res" where
  "require_encrypt_key cell =
     (case cell of
        None \<Rightarrow> Panic ''ENCRYPT_KEY_CHACHA20POLY1305 not configured; call set_encrypt_key first''
      | Some None \<Rightarrow>
          Panic ''ENCRYPT_KEY_CHACHA20POLY1305 is None; cannot use CHACHA20POLY1305 encryption''
      | Some (Some key) \<Rightarrow> Ok key)"

section \<open>Header byte\<close>

record frame =
  f_message_type :: u8
  f_compress_id :: u8
  f_encrypted :: bool
  f_tx_id :: u64
  f_data :: bytes

definition pack_header_byte :: "u8 \<Rightarrow> u8 \<Rightarrow> (io_error, u8) res" where
  "pack_header_byte message_type flags =
     (if message_type > MESSAGE_TYPE_MASK
      then Err (Io_Error InvalidInput
             (''message_type must fit in '' @ show_dec MESSAGE_TYPE_BITS @ '' bits, got '' @
              show_dec (unat message_type)))
      else if flags AND NOT FLAGS_MASK \<noteq> 0
      then Err (Io_Error InvalidInput
             (''flags must fit in 3 bits, got '' @ show_hex_alt (unat flags)))
      else let compress_id = flags AND COMPRESS_MASK in
        if \<not> (compress_id = COMPRESS_NONE \<or> compress_id = COMPRESS_GZIP \<or>
               compress_id = COMPRESS_DEFLATE)
        then Err (Io_Error InvalidInput
               (''unsupported compress_id: '' @ show_dec (unat compress_id)))
        else Ok (push_bit 3 message_type OR flags))"

section \<open>Payload transformations\<close>

definition compress_payload :: "codec \<Rightarrow> u8 \<Rightarrow> bytes \<Rightarrow> (io_error, bytes) res" where
  "compress_payload C compress_id d =
     (if compress_id = COMPRESS_NONE then Ok d
      else if compress_id = COMPRESS_GZIP then of_sum (gz_encode C d)
      else if compress_id = COMPRESS_DEFLATE then of_sum (df_encode C d)
      else Err (Io_Error InvalidInput
             (''unsupported compress_id: '' @ show_dec (unat compress_id))))"

definition decompress_payload :: "codec \<Rightarrow> u8 \<Rightarrow> bytes \<Rightarrow> (io_error, bytes) res" where
  "decompress_payload C compress_id d =
     (if compress_id = COMPRESS_NONE then Ok d
      else if compress_id = COMPRESS_GZIP then of_sum (gz_decode C d)
      else if compress_id = COMPRESS_DEFLATE then of_sum (df_decode C d)
      else Err (Io_Error InvalidData
             (''unsupported compress_id: '' @ show_dec (unat compress_id))))"

definition aead_aad :: "u8 \<Rightarrow> u64 \<Rightarrow> bytes" where
  "aead_aad header tx_id = [header] @ to_be 8 tx_id"

definition encrypt_payload ::
  "codec \<Rightarrow> rng \<Rightarrow> key \<Rightarrow> bytes \<Rightarrow> bytes \<Rightarrow> (io_error, bytes) res" where
  "encrypt_payload C rng key aad plaintext =
     (let nonce_bytes = fill_bytes rng NONCE_LEN in
      case aead_encrypt C key nonce_bytes plaintext aad of
        None \<Rightarrow> Err (Io_Error OtherKind ''chacha20poly1305 encrypt failed'')
      | Some ciphertext \<Rightarrow> Ok (nonce_bytes @ ciphertext))"

definition decrypt_payload :: "codec \<Rightarrow> key \<Rightarrow> bytes \<Rightarrow> bytes \<Rightarrow> (io_error, bytes) res" where
  "decrypt_payload C key aad payload =
     (if length payload < NONCE_LEN + TAG_LEN
      then Err (Io_Error InvalidData ''encrypted payload too short'')
      else
        let nonce_bytes = take NONCE_LEN payload; ciphertext = drop NONCE_LEN payload in
        case aead_decrypt C key nonce_bytes ciphertext aad of
          None \<Rightarrow> Err (Io_Error InvalidData ''chacha20poly1305 decrypt failed'')
        | Some plaintext \<Rightarrow> Ok plaintext)"

section \<open>Building and parsing a frame\<close>

definition build_wire_frame ::
  "codec \<Rightarrow> key_cell \<Rightarrow> rng \<Rightarrow> u8 \<Rightarrow> u64 \<Rightarrow> bytes \<Rightarrow> u8 \<Rightarrow> (io_error, bytes) res" where
  "build_wire_frame C K rng message_type tx_id d flags =
     rbind (pack_header_byte message_type flags) (\<lambda>header.
     let compress_id = flags AND COMPRESS_MASK;
         encrypted = (flags AND CHACHA20POLY1305 \<noteq> 0) in
     rbind (compress_payload C compress_id d) (\<lambda>payload.
     rbind (if encrypted
            then rbind (require_encrypt_key K) (\<lambda>key.
                 let aad = aead_aad header tx_id in
                 encrypt_payload C rng key aad payload)
            else Ok payload) (\<lambda>payload.
     if length payload > u16_MAX
     then Err (Io_Error InvalidInput ''payload length exceeds u16::MAX'')
     else Ok ([header] @ to_be 8 tx_id @ to_be 2 (of_nat (length payload) :: u16) @ payload))))"

definition parse_wire_frame ::
  "codec \<Rightarrow> key_cell \<Rightarrow> u8 \<Rightarrow> u64 \<Rightarrow> bytes \<Rightarrow> (io_error, frame) res" where
  "parse_wire_frame C K header tx_id payload =
     (let message_type = drop_bit 3 header;
          flags = header AND FLAGS_MASK;
          compress_id = flags AND COMPRESS_MASK;
          encrypted = (flags AND CHACHA20POLY1305 \<noteq> 0) in
      rbind (if encrypted
             then rbind (require_encrypt_key K) (\<lambda>key.
                  let aad = aead_aad header tx_id in
                  decrypt_payload C key aad payload)
             else Ok payload) (\<lambda>payload.
      rbind (decompress_payload C compress_id payload) (\<lambda>d.
      Ok \<lparr>f_message_type = message_type, f_compress_id = compress_id,
          f_encrypted = encrypted, f_tx_id = tx_id, f_data = d\<rparr>)))"

section \<open>Writing and reading frames\<close>

definition write_frame ::
  "codec \<Rightarrow> key_cell \<Rightarrow> rng \<Rightarrow> sink \<Rightarrow> u8 \<Rightarrow> u64 \<Rightarrow> bytes \<Rightarrow> u8 \<Rightarrow> (io_error, unit) res \<times> sink" where
  "write_frame C K rng w message_type tx_id d flags =
     sbind (build_wire_frame C K rng message_type tx_id d flags, w) (\<lambda>buf w.
     sbind (write_all buf w) (\<lambda>_ w.
     sbind (flush w) (\<lambda>_ w.
     (Ok (), w))))"

definition write_frame_blocking ::
  "codec \<Rightarrow> key_cell \<Rightarrow> rng \<Rightarrow> sink \<Rightarrow> u8 \<Rightarrow> u64 \<Rightarrow> bytes \<Rightarrow> u8 \<Rightarrow> (io_error, unit) res \<times> sink" where
  "write_frame_blocking C K rng w message_type tx_id d flags =
     sbind (build_wire_frame C K rng message_type tx_id d flags, w) (\<lambda>buf w.
     sbind (write_all buf w) (\<lambda>_ w.
     sbind (flush w) (\<lambda>_ w.
     (Ok (), w))))"

definition write_frame_plain ::
  "codec \<Rightarrow> key_cell \<Rightarrow> rng \<Rightarrow> sink \<Rightarrow> u8 \<Rightarrow> u64 \<Rightarrow> bytes \<Rightarrow> (io_error, unit) res \<times> sink" where
  "write_frame_plain C K rng w message_type tx_id d =
     write_frame C K rng w message_type tx_id d COMPRESS_NONE"

definition read_frame_header :: "reader \<Rightarrow> (io_error, (u8 \<times> u64 \<times> bytes) \<times> reader) res" where
  "read_frame_header r =
     rbind (read_exact 1 r) (\<lambda>(header_buf, r).
     let header = header_buf ! 0 in
     rbind (read_exact 8 r) (\<lambda>(tx_bytes, r).
     let tx_id = (from_be tx_bytes :: u64) in
     rbind (read_exact 2 r) (\<lambda>(len_bytes, r).
     let len = unat (from_be len_bytes :: u16) in
     rbind (if len > 0 then read_exact len r else Ok (replicate len 0, r)) (\<lambda>(payload, r).
     Ok ((header, tx_id, payload), r)))))"

definition read_frame :: "codec \<Rightarrow> key_cell \<Rightarrow> reader \<Rightarrow> (io_error, frame \<times> reader) res" where
  "read_frame C K r =
     rbind (read_exact 1 r) (\<lambda>(header_buf, r).
     let header = header_buf ! 0 in
     rbind (read_exact 8 r) (\<lambda>(tx_bytes, r).
     let tx_id = (from_be tx_bytes :: u64) in
     rbind (read_exact 2 r) (\<lambda>(len_bytes, r).
     let len = unat (from_be len_bytes :: u16) in
     rbind (if len > 0 then read_exact len r else Ok (replicate len 0, r)) (\<lambda>(payload, r).
     rbind (parse_wire_frame C K header tx_id payload) (\<lambda>f. Ok (f, r))))))"

definition read_frame_blocking ::
  "codec \<Rightarrow> key_cell \<Rightarrow> reader \<Rightarrow> (io_error, frame \<times> reader) res" where
  "read_frame_blocking C K r =
     rbind (read_frame_header r) (\<lambda>((header, tx_id, payload), r).
     rbind (parse_wire_frame C K header tx_id payload) (\<lambda>f. Ok (f, r)))"

section \<open>The header\<close>

text \<open>The pairs of message type and flags that have a header byte.\<close>

definition header_ok :: "u8 \<Rightarrow> u8 \<Rightarrow> bool" where
  "header_ok message_type flags \<longleftrightarrow>
     unat message_type < 2 ^ 5 \<and> unat flags < 2 ^ 3 \<and> flags AND 3 \<noteq> 3"

lemma and_3_cases: "(w :: u8) AND 3 = 0 \<or> w AND 3 = 1 \<or> w AND 3 = 2 \<or> w AND 3 = 3"
proof -
  have "unat (w AND 3) < 4" using header_parts_bound(3) [of w] by simp
  then have "unat (w AND 3) \<in> {0, 1, 2, 3}" by auto
  then show ?thesis by (auto simp: word_unat_eq_iff)
qed

lemma pack_header_byte_cases:
  "pack_header_byte mt fl =
     (if \<not> unat mt < 2 ^ 5
      then Err (Io_Error InvalidInput
             (''message_type must fit in 5 bits, got '' @ show_dec (unat mt)))
      else if \<not> unat fl < 2 ^ 3
      then Err (Io_Error InvalidInput (''flags must fit in 3 bits, got '' @ show_hex_alt (unat fl)))
      else if fl AND 3 = 3
      then Err (Io_Error InvalidInput ''unsupported compress_id: 3'')
      else Ok (push_bit 3 mt OR fl))"
proof -
  have d: "show_dec 5 = ''5''" "show_dec 3 = ''3''" by code_simp+
  have m: "mt > 31 \<longleftrightarrow> \<not> unat mt < 2 ^ 5" by (simp add: word_less_nat_alt)  linarith
  show ?thesis
    unfolding pack_header_byte_def MESSAGE_TYPE_MASK_eq FLAGS_MASK_def and_not_7_iff m Let_def
    using and_3_cases [of fl]
    by (auto simp: frame_consts MESSAGE_TYPE_BITS_def d)
qed

lemma pack_header_byte_Ok_iff:
  "pack_header_byte mt fl = Ok h \<longleftrightarrow> header_ok mt fl \<and> h = push_bit 3 mt OR fl"
  by (auto simp: pack_header_byte_cases header_ok_def)

lemma pack_header_byte_Err:
  "pack_header_byte mt fl = Err e \<Longrightarrow> io_kind e = InvalidInput \<and> \<not> header_ok mt fl"
  by (auto simp: pack_header_byte_cases header_ok_def split: if_splits)

lemma pack_header_byte_not_Panic [simp]: "pack_header_byte mt fl \<noteq> Panic p"
  by (simp add: pack_header_byte_cases)

section \<open>The wire layout\<close>

definition wire :: "u8 \<Rightarrow> u64 \<Rightarrow> bytes \<Rightarrow> bytes" where
  "wire header tx_id payload =
     [header] @ to_be 8 tx_id @ to_be 2 (of_nat (length payload) :: u16) @ payload"

lemma length_wire [byte_simps]: "length (wire h tx p) = 11 + length p"
  by (simp add: wire_def)

lemma len_field: "length p \<le> u16_MAX \<Longrightarrow> unat (of_nat (length p) :: u16) = length p"
  by (simp add: u16_MAX_def unat_of_nat take_bit_nat_eq_self)

lemma read_frame_header_wire:
  assumes "length p \<le> u16_MAX" "rd_inp r = wire h tx p @ rest"
  shows "read_frame_header r = Ok ((h, tx, p), r\<lparr>rd_inp := rest\<rparr>)"
  using assms(2) len_field [OF assms(1)]
  by (cases p) (simp_all add: read_frame_header_def wire_def read_exact_def Let_def)

lemma read_frame_header_inv:
  assumes "read_frame_header r = Ok ((h, tx, p), r')"
  shows "length p \<le> u16_MAX \<and> rd_inp r = wire h tx p @ rd_inp r' \<and> r' = r\<lparr>rd_inp := rd_inp r'\<rparr>"
proof -
  from assms obtain hb tb lb r1 r2 r3 where
    1: "read_exact 1 r = Ok (hb, r1)" and 2: "read_exact 8 r1 = Ok (tb, r2)"
    and 3: "read_exact 2 r2 = Ok (lb, r3)"
    and 4: "(if unat (from_be lb :: u16) > 0 then read_exact (unat (from_be lb :: u16)) r3 
       else Ok ([], r3)) = Ok (p, r')"
    and h: "h = hb ! 0" and tx: "tx = from_be tb"
    by (auto simp: read_frame_header_def Let_def split: if_splits)
  from 1 h obtain rest where hb: "hb = [h]" by (cases hb) (auto simp: read_exact_Ok_iff)
  have p: "length p = unat (from_be lb :: u16)" "rd_inp r3 = p @ rd_inp r'" 
    "rd_end r' = rd_end r3"
    using 4 by (auto simp: read_exact_Ok_iff split: if_splits)
  have le: "length p \<le> u16_MAX"
  proof -
    have "unat (from_be lb :: u16) < 2 ^ LENGTH(16)" by (rule unsigned_less)
    then show ?thesis using p(1) by (simp add: u16_MAX_def)
  qed
  have lb: "to_be 2 (of_nat (length p) :: u16) = lb"
    using 3 p(1) by (simp add: read_exact_Ok_iff to_be_from_be)
  have tb: "to_be 8 tx = tb"
    using 2 tx by (simp add: read_exact_Ok_iff to_be_from_be)
  have "rd_inp r = wire h tx p @ rd_inp r'"
    using 1 2 3 p(2) by (simp add: wire_def lb tb hb read_exact_Ok_iff)
  moreover have "r' = r\<lparr>rd_inp := rd_inp r'\<rparr>"
    using 1 2 3 p(3) by (auto simp: read_exact_Ok_iff intro!: reader.equality) 
  ultimately show ?thesis using le by simp
qed

lemma read_frame_header_Ok_iff:
  "read_frame_header r = Ok ((h, tx, p), r') \<longleftrightarrow>
     length p \<le> u16_MAX \<and> rd_inp r = wire h tx p @ rd_inp r' \<and> r' = r\<lparr>rd_inp := rd_inp r'\<rparr>"
  by (metis read_frame_header_inv read_frame_header_wire)

lemma read_frame_header_not_Panic [simp]: "read_frame_header r \<noteq> Panic p"
  by (auto simp: read_frame_header_def res_elims Let_def split: if_splits prod.splits)

lemma read_frame_header_Err:
  "read_frame_header r = Err e \<Longrightarrow> e = rd_end r"
  by (auto simp: read_frame_header_def res_elims Let_def read_exact_Err_iff read_exact_Ok_iff split: if_splits prod.splits)

lemma read_frame_eq_blocking: "read_frame C K r = read_frame_blocking C K r"
proof -
  have assoc: "rbind (rbind m f) g = rbind m (\<lambda>x. rbind (f x) g)" for m :: "('a, 'b) res" and f :: "'b \<Rightarrow> ('a, 'c) res" and g :: "'c \<Rightarrow> ('a, 'd) res"
    by (cases m) auto
  show ?thesis
    by (simp add: read_frame_def read_frame_blocking_def read_frame_header_def assoc Let_def split_def)
qed

section \<open>Payloads\<close>

lemma compress_payload_Ok_iff:
  "compress_payload C i d = Ok z \<longleftrightarrow>
     i = 0 \<and> z = d \<or> i = 1 \<and> gz_encode C d = Inr z \<or> i = 2 \<and> df_encode C d = Inr z"
  by (auto simp: compress_payload_def frame_consts)

lemma compress_payload_not_Panic [simp]: "compress_payload C i d \<noteq> Panic p"
  by (simp add: compress_payload_def)

lemma decompress_payload_not_Panic [simp]: "decompress_payload C i d \<noteq> Panic p"
  by (simp add: decompress_payload_def)

lemma decompress_compress:
  "codec_ok C \<Longrightarrow> compress_payload C i d = Ok z \<Longrightarrow> decompress_payload C i z = Ok d"
  by (auto simp: compress_payload_Ok_iff decompress_payload_def frame_consts codec_okD)

lemma encrypt_payload_Ok_iff:
  "encrypt_payload C rng key aad z = Ok p \<longleftrightarrow>
     (\<exists>c. aead_encrypt C key (fill_bytes rng NONCE_LEN) z aad = Some c \<and>
          p = fill_bytes rng NONCE_LEN @ c)"
  by (auto simp: encrypt_payload_def Let_def split: option.splits)

lemma encrypt_payload_not_Panic [simp]: "encrypt_payload C rng key aad z \<noteq> Panic p"
  by (simp add: encrypt_payload_def Let_def split: option.splits)

lemma decrypt_payload_not_Panic [simp]: "decrypt_payload C key aad p \<noteq> Panic m"
  by (simp add: decrypt_payload_def Let_def split: option.splits)

lemma decrypt_encrypt:
  assumes "codec_ok C" "encrypt_payload C rng key aad z = Ok p"
  shows "decrypt_payload C key aad p = Ok z" "length p = NONCE_LEN + length z + TAG_LEN"
proof -
  obtain c where c: "aead_encrypt C key (fill_bytes rng NONCE_LEN) z aad = Some c"
    "p = fill_bytes rng NONCE_LEN @ c"
    using assms(2) by (auto simp: encrypt_payload_Ok_iff)
  note ok = codec_okD(3,4) [OF assms(1) c(1)]
  show "decrypt_payload C key aad p = Ok z" "length p = NONCE_LEN + length z + TAG_LEN"
    using ok c(2) by (simp_all add: decrypt_payload_def)
qed

text \<open>What decryption accepts is an encryption of what it returns, under the same key and data.\<close>

lemma decrypt_payload_authentic:
  assumes "codec_ok C" "decrypt_payload C key aad p = Ok z"
  shows "NONCE_LEN + TAG_LEN \<le> length p"
    and "aead_encrypt C key (take NONCE_LEN p) z aad = Some (drop NONCE_LEN p)"
  using assms(2) codec_okD(5) [OF assms(1)]
  by (auto simp: decrypt_payload_def Let_def split: if_splits option.splits)

lemma decrypt_payload_Err: "decrypt_payload C key aad p = Err e \<Longrightarrow> io_kind e = InvalidData"
  by (auto simp: decrypt_payload_def Let_def split: if_splits option.splits)

lemma require_encrypt_key_Ok_iff [simp]: "require_encrypt_key K = Ok k \<longleftrightarrow> K = Some (Some k)"
  by (auto simp: require_encrypt_key_def split: option.splits)

lemma require_encrypt_key_not_Err [simp]: "require_encrypt_key K \<noteq> Err e"
  by (auto simp: require_encrypt_key_def split: option.splits)

lemma require_encrypt_key_set [simp]: "require_encrypt_key (Some (Some k)) = Ok k"
  by simp

definition key_missing :: "key_cell \<Rightarrow> bool" where
  "key_missing K \<longleftrightarrow> K = None \<or> K = Some None"

lemma require_encrypt_key_Panic_iff: "(\<exists>p. require_encrypt_key K = Panic p) \<longleftrightarrow> key_missing K"
  by (auto simp: require_encrypt_key_def key_missing_def split: option.splits)

section \<open>Building\<close>

text \<open>The payload a frame carries: compressed, then encrypted when the flag asks for it.\<close>

definition frame_payload ::
  "codec \<Rightarrow> key_cell \<Rightarrow> rng \<Rightarrow> u8 \<Rightarrow> u8 \<Rightarrow> u64 \<Rightarrow> bytes \<Rightarrow> (io_error, bytes) res" where
  "frame_payload C K rng flags header tx_id d =
     rbind (compress_payload C (flags AND 3) d) (\<lambda>z.
     if flags AND 4 \<noteq> 0
     then rbind (require_encrypt_key K) (\<lambda>key. encrypt_payload C rng key (aead_aad header tx_id) z)
     else Ok z)"

lemma build_wire_frame_eq:
  "build_wire_frame C K rng mt tx d fl =
     rbind (pack_header_byte mt fl) (\<lambda>h.
     rbind (frame_payload C K rng fl h tx d) (\<lambda>p.
     if length p > u16_MAX then Err (Io_Error InvalidInput ''payload length exceeds u16::MAX'')
     else Ok (wire h tx p)))"
  unfolding build_wire_frame_def frame_payload_def wire_def Let_def CHACHA20POLY1305_def
    COMPRESS_MASK_def
  by (cases "pack_header_byte mt fl"; cases "compress_payload C (fl AND 3) d") simp_all

lemma build_wire_frame_Ok_iff:
  "build_wire_frame C K rng mt tx d fl = Ok buf \<longleftrightarrow>
     header_ok mt fl \<and>
     (\<exists>p. frame_payload C K rng fl (push_bit 3 mt OR fl) tx d = Ok p \<and>
          length p \<le> u16_MAX \<and> buf = wire (push_bit 3 mt OR fl) tx p)"
  by (cases "frame_payload C K rng fl (push_bit 3 mt OR fl) tx d")
     (auto simp: build_wire_frame_eq pack_header_byte_Ok_iff)

lemma frame_payload_plain [simp]: "frame_payload C K rng 0 h tx d = Ok d"
  by (simp add: frame_payload_def compress_payload_Ok_iff)

lemma build_plain:
  assumes "unat mt < 2 ^ 5" "length d \<le> u16_MAX"
  shows "build_wire_frame C K rng mt tx d COMPRESS_NONE = Ok (wire (push_bit 3 mt) tx d)"
  using assms by (simp add: build_wire_frame_Ok_iff header_ok_def COMPRESS_NONE_def)

lemma frame_payload_Panic:
  "frame_payload C K rng fl h tx d = Panic m \<Longrightarrow> fl AND 4 \<noteq> 0 \<and> key_missing K"
  using require_encrypt_key_Panic_iff [of K]
  by (auto simp: frame_payload_def res_elims split: if_splits)

section \<open>Parsing\<close>

definition decoded :: "u8 \<Rightarrow> u8 \<Rightarrow> u64 \<Rightarrow> bytes \<Rightarrow> frame" where
  "decoded mt fl tx d =
     \<lparr>f_message_type = mt, f_compress_id = fl AND 3, f_encrypted = (fl AND 4 \<noteq> 0),
      f_tx_id = tx, f_data = d\<rparr>"

lemma parse_wire_frame_eq:
  "parse_wire_frame C K h tx p =
     rbind (if h AND 4 \<noteq> 0
            then rbind (require_encrypt_key K) (\<lambda>key. decrypt_payload C key (aead_aad h tx) p)
            else Ok p) (\<lambda>z.
     rbind (decompress_payload C (h AND 3) z) (\<lambda>d. Ok (decoded (drop_bit 3 h) (h AND 7) tx d)))"
  by (simp add: parse_wire_frame_def decoded_def Let_def FLAGS_MASK_def COMPRESS_MASK_def
      CHACHA20POLY1305_def and_7_and_3)

lemma parse_frame_payload:
  assumes "codec_ok C" "header_ok mt fl"
    and "frame_payload C K rng fl (push_bit 3 mt OR fl) tx d = Ok p"
  shows "parse_wire_frame C K (push_bit 3 mt OR fl) tx p = Ok (decoded mt fl tx d)"
proof -
  define h where "h = push_bit 3 mt OR fl"
  have h: "drop_bit 3 h = mt" "h AND 7 = fl"
    using assms(2) header_shift unfolding h_def header_ok_def by blast+
  then have m: "h AND 3 = fl AND 3" "h AND 4 = fl AND 4"
    by (metis and_7_and_3(1)) (metis h(2) and_7_and_3(2))
  show ?thesis
    using assms(1,3) unfolding h_def [symmetric]
    by (auto simp: parse_wire_frame_eq h m frame_payload_def decompress_compress decrypt_encrypt
        split: if_splits)
qed

lemma parse_wire_frame_Panic_iff:
  "(\<exists>m. parse_wire_frame C K h tx p = Panic m) \<longleftrightarrow> h AND 4 \<noteq> 0 \<and> key_missing K"
  using require_encrypt_key_Panic_iff [of K]
  by (auto simp: parse_wire_frame_eq res_elims)

lemma read_frame_Ok_iff:
  "read_frame C K r = Ok (f, r') \<longleftrightarrow>
     (\<exists>h tx p. length p \<le> u16_MAX \<and> rd_inp r = wire h tx p @ rd_inp r' \<and>
        r' = r\<lparr>rd_inp := rd_inp r'\<rparr> \<and> parse_wire_frame C K h tx p = Ok f)"
  by (auto simp: read_frame_eq_blocking read_frame_blocking_def read_frame_header_Ok_iff split: prod.splits)

lemma read_frame_wire:
  assumes "rd_inp r = wire h tx p @ rest" "length p \<le> u16_MAX"
  shows "read_frame C K r =
           rbind (parse_wire_frame C K h tx p) (\<lambda>f. Ok (f, r\<lparr>rd_inp := rest\<rparr>))"
  using read_frame_header_wire [OF assms(2,1)]
  by (simp add: read_frame_eq_blocking read_frame_blocking_def)

lemma read_frame_no_wire:
  assumes "\<And>h tx p rest. length p \<le> u16_MAX \<Longrightarrow> rd_inp r \<noteq> wire h tx p @ rest"
  shows "read_frame C K r = Err (rd_end r)"
proof (cases "read_frame_header r")
  case (Ok x)
  obtain h tx p r' where "x = ((h, tx, p), r')" by (metis prod.exhaust)
  with Ok have "length p \<le> u16_MAX" "rd_inp r = wire h tx p @ rd_inp r'"
    by (simp_all add: read_frame_header_Ok_iff)
  with assms show ?thesis by blast
next
  case (Err e)
  then show ?thesis
    using read_frame_header_Err by (simp add: read_frame_eq_blocking read_frame_blocking_def)
qed simp

lemma wire_append_inject:
  assumes "wire h tx p @ rest = wire h' tx' p' @ rest'" "length p \<le> u16_MAX" "length p' \<le> u16_MAX"
  shows "h = h' \<and> tx = tx' \<and> p = p' \<and> rest = rest'"
proof -
  let ?r = "\<lparr>rd_inp = wire h tx p @ rest, rd_end = Io_Error UnexpectedEof []\<rparr>"
  have "read_frame_header ?r = Ok ((h, tx, p), ?r\<lparr>rd_inp := rest\<rparr>)"
    by (rule read_frame_header_wire) (use assms in simp_all)
  moreover have "read_frame_header ?r = Ok ((h', tx', p'), ?r\<lparr>rd_inp := rest'\<rparr>)"
    by (rule read_frame_header_wire) (use assms in simp_all)
  ultimately show ?thesis by simp
qed

section \<open>A sample codec\<close>

text \<open>
  A concrete codec that satisfies the laws, for evaluating the model: compression marks
  and reverses, encryption appends a 16-byte tag that depends on every argument.
\<close>

definition sample_tag :: "key \<Rightarrow> bytes \<Rightarrow> bytes \<Rightarrow> bytes \<Rightarrow> bytes" where
  "sample_tag k n m a = replicate 15 0 @ [sum_list k + sum_list n + sum_list m + sum_list a]"

definition sample_codec :: codec where
  "sample_codec =
     \<lparr>gz_encode = (\<lambda>d. Inr (31 # rev d)),
      gz_decode = (\<lambda>z. case z of [] \<Rightarrow> Inl (Io_Error InvalidInput ''gzip'') | b # d \<Rightarrow>
                     if b = 31 then Inr (rev d) else Inl (Io_Error InvalidInput ''gzip'')),
      df_encode = (\<lambda>d. Inr (rev d)), df_decode = (\<lambda>z. Inr (rev z)),
      aead_encrypt = (\<lambda>k n m a. Some (m @ sample_tag k n m a)),
      aead_decrypt = (\<lambda>k n c a.
        let m = take (length c - 16) c in if c = m @ sample_tag k n m a then Some m else None)\<rparr>"

lemma sample_codec_ok: "codec_ok sample_codec"
  by (auto simp: codec_ok_def sample_codec_def sample_tag_def TAG_LEN_def Let_def split: if_splits)

definition eof :: io_error where
  "eof = Io_Error UnexpectedEof ''early eof''"

definition sample_key :: key_cell where
  "sample_key = Some (Some (replicate KEY_LEN 66))"

text \<open>The concrete input of the witnesses: a gzip-compressed and encrypted frame.\<close>

definition sample_reader :: "bytes \<Rightarrow> reader" where
  "sample_reader b = \<lparr>rd_inp = b, rd_end = eof\<rparr>"

lemma sample_reader_inp [simp]: "rd_inp (sample_reader b) = b" "rd_end (sample_reader b) = eof"
  by (simp_all add: sample_reader_def)

lemma sample_reader_upd [simp]: "(sample_reader b)\<lparr>rd_inp := c\<rparr> = sample_reader c"
  by (simp add: sample_reader_def)

lemma sample_build:
  "\<exists>buf. build_wire_frame sample_codec sample_key (\<lambda>_. 7) 21 258 [1, 2, 3] 5 = Ok buf"
  by (simp add: build_wire_frame_Ok_iff header_ok_def frame_payload_def compress_payload_Ok_iff
      encrypt_payload_Ok_iff sample_codec_def sample_key_def sample_tag_def NONCE_LEN_def u16_MAX_def)

section \<open>Incomplete input, panics, authenticity\<close>

lemma read_frame_prefix:
  assumes "length p \<le> u16_MAX" "n < length (wire h tx p)" "rd_inp r = take n (wire h tx p)"
  shows "read_frame C K r = Err (rd_end r)"
proof (rule read_frame_no_wire)
  fix h' tx' and p' rest' :: bytes assume p': "length p' \<le> u16_MAX"
  show "rd_inp r \<noteq> wire h' tx' p' @ rest'"
  proof
    assume "rd_inp r = wire h' tx' p' @ rest'"
    then have "wire h tx p @ [] = wire h' tx' p' @ (rest' @ drop n (wire h tx p))"
      using assms(3) by (metis append.assoc append_Nil2 append_take_drop_id)
    from wire_append_inject [OF this assms(1) p'] assms(2) show False by simp
  qed
qed

lemma read_frame_Panic_iff:
  "(\<exists>m. read_frame C K r = Panic m) \<longleftrightarrow>
     (\<exists>h tx p rest. length p \<le> u16_MAX \<and> rd_inp r = wire h tx p @ rest \<and> h AND 4 \<noteq> 0 \<and> key_missing K)"
  (is "?L \<longleftrightarrow> ?R")
proof
  assume ?L
  then obtain m where m: "read_frame C K r = Panic m" ..
  then obtain h tx p rest where w: "length p \<le> u16_MAX" "rd_inp r = wire h tx p @ rest"
    using read_frame_no_wire by (metis res.distinct(5))
  with m have "parse_wire_frame C K h tx p = Panic m"
    by (simp add: read_frame_wire res_elims)
  then have "h AND 4 \<noteq> 0 \<and> key_missing K" using parse_wire_frame_Panic_iff by blast
  with w show ?R by blast
next
  assume ?R
  then obtain h tx p rest where w: "length p \<le> u16_MAX" "rd_inp r = wire h tx p @ rest"
    "h AND 4 \<noteq> 0" "key_missing K" by blast
  then obtain m where "parse_wire_frame C K h tx p = Panic m"
    using parse_wire_frame_Panic_iff by blast
  then show ?L using w by (auto simp: read_frame_wire)
qed

lemma build_wire_frame_Panic_iff:
  "(\<exists>m. build_wire_frame C K rng mt tx d fl = Panic m) \<longleftrightarrow>
     header_ok mt fl \<and> is_ok (compress_payload C (fl AND 3) d) \<and> fl AND 4 \<noteq> 0 \<and> key_missing K"
  using require_encrypt_key_Panic_iff [of K]
  by (auto simp: build_wire_frame_eq frame_payload_def res_elims pack_header_byte_Ok_iff is_ok_iff
      split: if_splits)

lemma parse_wire_frame_decoded:
  "parse_wire_frame C K h tx p = Ok f \<Longrightarrow> \<exists>d. f = decoded (drop_bit 3 h) (h AND 7) tx d"
  unfolding parse_wire_frame_eq by (auto simp only: rbind_eq_Ok res.inject)

lemma parse_header:
  assumes "parse_wire_frame C K h tx p = Ok f"
  shows "h = push_bit 3 (f_message_type f) OR (h AND 7)" "f_compress_id f = h AND 3"
    "f_encrypted f = (h AND 4 \<noteq> 0)" "f_tx_id f = tx"
  using parse_wire_frame_decoded [OF assms] header_join [of h, symmetric]
  by (auto simp only: decoded_def and_7_and_3 frame.select_convs)

lemma parse_encrypted_authentic:
  assumes "codec_ok C" "parse_wire_frame C K h tx p = Ok f" "f_encrypted f"
  shows "\<exists>key z. K = Some (Some key) \<and> NONCE_LEN + TAG_LEN \<le> length p \<and>
     aead_encrypt C key (take NONCE_LEN p) z (aead_aad h tx) = Some (drop NONCE_LEN p) \<and>
     decompress_payload C (f_compress_id f) z = Ok (f_data f)"
proof -
  note hd = parse_header [OF assms(2)]
  with assms(3) have e: "h AND 4 \<noteq> 0" by simp
  obtain key z d where "K = Some (Some key)"
    "decrypt_payload C key (aead_aad h tx) p = Ok z"
    and d: "decompress_payload C (h AND 3) z = Ok d" "f = decoded (drop_bit 3 h) (h AND 7) tx d"
    using assms(2) unfolding parse_wire_frame_eq if_P [OF e] rbind_eq_Ok require_encrypt_key_Ok_iff
      res.inject by metis
  moreover have "f_data f = d" using d(2) by (simp only: decoded_def frame.select_convs)
  ultimately show ?thesis
    using decrypt_payload_authentic [OF assms(1)] hd(2) by metis
qed

lemma decompress_payload_Err:
  "decompress_payload C i z = Err e \<Longrightarrow>
     io_kind e = InvalidData \<or> gz_decode C z = Inl e \<or> df_decode C z = Inl e"
  by (auto simp: decompress_payload_def split: if_splits)

lemma build_prefix:
  assumes "build_wire_frame C K rng mt tx d fl = Ok buf" "n < length buf" "rd_inp r = take n buf"
  shows "read_frame C' K' r = Err (rd_end r)"
  using assms by (auto simp: build_wire_frame_Ok_iff intro: read_frame_prefix)

text \<open>A write that failed: nothing or a proper part of the frame went out, or the flush failed.\<close>

lemma write_frame_Err_cases:
  assumes "write_frame C K rng s mt tx d fl = (Err e, s')"
  obtains (build) "build_wire_frame C K rng mt tx d fl = Err e" "s' = s"
  | (broken) buf n where "build_wire_frame C K rng mt tx d fl = Ok buf" "n < length buf"
      "sk_out s' = sk_out s @ take n buf"
  | (flush) buf where "build_wire_frame C K rng mt tx d fl = Ok buf"
      "sk_out s' = sk_out s @ buf" "sk_flush s = Some e"
proof (cases "build_wire_frame C K rng mt tx d fl")
  case (Ok buf)
  show thesis
  proof (cases "sk_room s")
    case None
    with Ok assms flush show thesis
      by (auto simp: write_frame_def write_all_def flush_def split: option.splits)
  next
    case (Some n)
    with Ok assms flush broken [of buf n] show thesis
      by (auto simp: write_frame_def write_all_def flush_def split: option.splits if_splits)
  qed
next
  case (Err x)
  with assms build show thesis by (simp add: write_frame_def)
next
  case (Panic m)
  with assms show thesis by (simp add: write_frame_def)
qed

lemma encrypted_payload_length:
  assumes "codec_ok C" "frame_payload C K rng CHACHA20POLY1305 h tx d = Ok p"
  shows "length p = length d + 28"
  using assms by (auto simp: frame_payload_def CHACHA20POLY1305_def compress_payload_Ok_iff NONCE_LEN_def TAG_LEN_def dest: decrypt_encrypt(2))

end
