(* ===== verification/Frame_Channel.thy ===== *)
theory Frame_Channel
  imports Tiny_Frame
begin

text \<open>
  Frames on a stream. The locale \<open>frame_channel\<close> is what the clients and servers rely on
  when they exchange frames; the async and the blocking functions of \<open>src/tiny_frame.rs\<close>
  are its two interpretations. The theory ends with the properties of the frame layer.
\<close>

unbundle bit_operations_syntax

section \<open>Channels of frames\<close>

text \<open>
  What a user of the frame layer relies on: a message that was sent is the next thing the
  peer receives, exactly its bytes are consumed, and a message that cannot be encoded puts
  nothing on the wire. The async and the blocking functions both provide it.
\<close>

record frame_msg =
  m_rng :: rng
  m_type :: u8
  m_tx :: u64
  m_data :: bytes
  m_flags :: u8

type_synonym frame_env = "codec \<times> key_cell"

text \<open>Sending a batch, stopping at the first failure, and receiving a number of frames.\<close>

fun send_all :: "('msg \<Rightarrow> sink \<Rightarrow> (io_error, unit) res \<times> sink) \<Rightarrow> 'msg list \<Rightarrow> sink \<Rightarrow>
    (io_error, unit) res \<times> sink" where
  "send_all send [] s = (Ok (), s)"
| "send_all send (m # ms) s = sbind (send m s) (\<lambda>_. send_all send ms)"

fun recv_n :: "(reader \<Rightarrow> (io_error, 'frame \<times> reader) res) \<Rightarrow> nat \<Rightarrow> reader \<Rightarrow>
    (io_error, 'frame list \<times> reader) res" where
  "recv_n recv 0 r = Ok ([], r)"
| "recv_n recv (Suc n) r =
     rbind (recv r) (\<lambda>(f, r). rbind (recv_n recv n r) (\<lambda>(fs, r). Ok (f # fs, r)))"

locale frame_channel =
  fixes ok :: "'env \<Rightarrow> bool"
    and send :: "'env \<Rightarrow> 'msg \<Rightarrow> sink \<Rightarrow> (io_error, unit) res \<times> sink"
    and recv :: "'env \<Rightarrow> reader \<Rightarrow> (io_error, 'frame \<times> reader) res"
    and denotes :: "'msg \<Rightarrow> 'frame"
  assumes send_recv:
    "ok e \<Longrightarrow> sink_good s \<Longrightarrow> send e m s = (Ok (), s') \<Longrightarrow>
       \<exists>buf. s' = s\<lparr>sk_out := sk_out s @ buf\<rparr> \<and>
         (\<forall>r rest. rd_inp r = buf @ rest \<longrightarrow> recv e r = Ok (denotes m, r\<lparr>rd_inp := rest\<rparr>))"
    and send_fail: "sink_good s \<Longrightarrow> send e m s = (Err x, s') \<Longrightarrow> s' = s"
begin

lemma send_all_recv_n:
  assumes "ok e"
  shows "sink_good s \<Longrightarrow> send_all (send e) ms s = (Ok (), s') \<Longrightarrow>
     \<exists>buf. s' = s\<lparr>sk_out := sk_out s @ buf\<rparr> \<and>
       (\<forall>r rest. rd_inp r = buf @ rest \<longrightarrow>
          recv_n (recv e) (length ms) r = Ok (map denotes ms, r\<lparr>rd_inp := rest\<rparr>))"
proof (induction ms arbitrary: s)
  case Nil
  then show ?case by (intro exI [of _ "[]"]) auto
next
  case (Cons m ms)
  from Cons.prems obtain s1 where 1: "send e m s = (Ok (), s1)"
    and 2: "send_all (send e) ms s1 = (Ok (), s')" by auto
  from send_recv [OF assms Cons.prems(1) 1] obtain b1 where b1: "s1 = s\<lparr>sk_out := sk_out s @ b1\<rparr>"
    "\<And>r rest. rd_inp r = b1 @ rest \<Longrightarrow> recv e r = Ok (denotes m, r\<lparr>rd_inp := rest\<rparr>)" by blast
  with Cons.prems(1) have "sink_good s1" by simp
  from Cons.IH [OF this 2] obtain b2 where b2: "s' = s1\<lparr>sk_out := sk_out s1 @ b2\<rparr>"
    "\<And>r rest. rd_inp r = b2 @ rest \<Longrightarrow>
       recv_n (recv e) (length ms) r = Ok (map denotes ms, r\<lparr>rd_inp := rest\<rparr>)" by blast
  show ?case
    by (intro exI [of _ "b1 @ b2"]) (auto simp: b1 b2)
qed

text \<open>A batch that fails in the middle has sent exactly the frames before the failure.\<close>

lemma send_all_fail_prefix:
  assumes "ok e"
  shows "sink_good s \<Longrightarrow> send_all (send e) ms s = (Err x, s') \<Longrightarrow>
     \<exists>k < length ms. send_all (send e) (take k ms) s = (Ok (), s')"
proof (induction ms arbitrary: s)
  case Nil
  then show ?case by simp
next
  case (Cons m ms)
  show ?case
  proof (cases "send e m s")
    case (Pair r s1)
    show ?thesis
    proof (cases r)
      case (Ok u)
      with Pair have 1: "send e m s = (Ok (), s1)" by simp
      from send_recv [OF assms Cons.prems(1) 1] Cons.prems(1) have "sink_good s1" by auto
      with Cons.IH Cons.prems(2) 1
      obtain k where "k < length ms" "send_all (send e) (take k ms) s1 = (Ok (), s')" by auto
      with 1 show ?thesis by (intro exI [of _ "Suc k"]) simp
    next
      case (Err y)
      with Pair Cons.prems have "s' = s" by (auto dest: send_fail)
      then show ?thesis by (intro exI [of _ 0]) simp
    next
      case (Panic p)
      with Pair Cons.prems show ?thesis by simp
    qed
  qed
qed

end

definition send_async :: "frame_env \<Rightarrow> frame_msg \<Rightarrow> sink \<Rightarrow> (io_error, unit) res \<times> sink" where
  "send_async e m s =
     write_frame (fst e) (snd e) (m_rng m) s (m_type m) (m_tx m) (m_data m) (m_flags m)"

definition send_blocking :: "frame_env \<Rightarrow> frame_msg \<Rightarrow> sink \<Rightarrow> (io_error, unit) res \<times> sink" where
  "send_blocking e m s =
     write_frame_blocking (fst e) (snd e) (m_rng m) s (m_type m) (m_tx m) (m_data m) (m_flags m)"

definition msg_denotes :: "frame_msg \<Rightarrow> frame" where
  "msg_denotes m = decoded (m_type m) (m_flags m) (m_tx m) (m_data m)"

lemma write_frame_good:
  "sink_good s \<Longrightarrow> write_frame C K rng s mt tx d fl =
     (case build_wire_frame C K rng mt tx d fl of
        Ok buf \<Rightarrow> (Ok (), s\<lparr>sk_out := sk_out s @ buf\<rparr>)
      | Err e \<Rightarrow> (Err e, s) | Panic p \<Rightarrow> (Panic p, s))"
  by (cases "build_wire_frame C K rng mt tx d fl") (simp_all add: write_frame_def)

lemma write_frame_blocking_eq: "write_frame_blocking = write_frame"
  by (intro ext) (simp add: write_frame_blocking_def write_frame_def)

lemma build_read:
  assumes "codec_ok C" "build_wire_frame C K rng mt tx d fl = Ok buf" "rd_inp r = buf @ rest"
  shows "read_frame C K r = Ok (decoded mt fl tx d, r\<lparr>rd_inp := rest\<rparr>)"
proof -
  from assms(2) obtain p where p: "header_ok mt fl" "length p \<le> u16_MAX"
    "frame_payload C K rng fl (push_bit 3 mt OR fl) tx d = Ok p"
    "buf = wire (push_bit 3 mt OR fl) tx p"
    by (auto simp: build_wire_frame_Ok_iff)
  show ?thesis
    using read_frame_wire [OF assms(3) [unfolded p(4)] p(2)] parse_frame_payload [OF assms(1) p(1,3)]
    by simp
qed

lemma send_async_recv:
  assumes "codec_ok (fst e)" "sink_good s" "send_async e m s = (Ok (), s')"
  shows "\<exists>buf. s' = s\<lparr>sk_out := sk_out s @ buf\<rparr> \<and>
     (\<forall>r rest. rd_inp r = buf @ rest \<longrightarrow>
        read_frame (fst e) (snd e) r = Ok (msg_denotes m, r\<lparr>rd_inp := rest\<rparr>))"
  using assms build_read [OF assms(1)]
  by (auto simp: send_async_def write_frame_good msg_denotes_def split: res.splits)

lemma send_async_fail: "sink_good s \<Longrightarrow> send_async e m s = (Err x, s') \<Longrightarrow> s' = s"
  by (auto simp: send_async_def write_frame_good split: res.splits)

lemma send_blocking_eq: "send_blocking = send_async"
  by (intro ext) (simp add: send_blocking_def send_async_def write_frame_blocking_eq)

interpretation chan: frame_channel "\<lambda>e. codec_ok (fst e)" send_async
  "\<lambda>e. read_frame (fst e) (snd e)" msg_denotes
  by unfold_locales (blast intro: send_async_recv send_async_fail)+

interpretation chan_blocking: frame_channel "\<lambda>e. codec_ok (fst e)" send_blocking
  "\<lambda>e. read_frame_blocking (fst e) (snd e)" msg_denotes
  unfolding send_blocking_eq read_frame_eq_blocking [symmetric] by unfold_locales

text \<open>Two messages for the witnesses, the second deflated and encrypted.\<close>

definition sample_msgs :: "frame_msg list" where
  "sample_msgs =
     [\<lparr>m_rng = (\<lambda>_. 7), m_type = 1, m_tx = 1, m_data = [1, 2], m_flags = 0\<rparr>,
      \<lparr>m_rng = (\<lambda>_. 9), m_type = 31, m_tx = 2, m_data = [3], m_flags = 6\<rparr>]"

section \<open>Plain frames\<close>

text \<open>What the servers and clients use for their unencrypted messages.\<close>

text \<open>A writer after a plain frame was put on it, and what the peer then reads.\<close>

definition put_plain :: "u8 \<Rightarrow> u64 \<Rightarrow> bytes \<Rightarrow> sink \<Rightarrow> sink" where
  "put_plain mt tx d s = s\<lparr>sk_out := sk_out s @ wire (push_bit 3 mt) tx d\<rparr>"

lemma put_plain_simps [simp]:
  "sk_out (put_plain mt tx d s) = sk_out s @ wire (push_bit 3 mt) tx d"
  "sink_good (put_plain mt tx d s) = sink_good s"
  by (simp_all add: put_plain_def)

lemma write_frame_plain_good:
  assumes "sink_good s" "unat mt \<le> 31"
  shows "write_frame_plain C K rng s mt tx d =
     (if length d \<le> u16_MAX then (Ok (), put_plain mt tx d s)
      else (Err (Io_Error InvalidInput ''payload length exceeds u16::MAX''), s))"
proof -
  have "header_ok mt COMPRESS_NONE"
    using assms(2) by (simp add: header_ok_def COMPRESS_NONE_def)
  then have "pack_header_byte mt COMPRESS_NONE = Ok (push_bit 3 mt)"
    by (simp add: pack_header_byte_Ok_iff COMPRESS_NONE_def)
  then have "build_wire_frame C K rng mt tx d COMPRESS_NONE =
      (if length d > u16_MAX then Err (Io_Error InvalidInput ''payload length exceeds u16::MAX'')
       else Ok (wire (push_bit 3 mt) tx d))"
    by (simp add: build_wire_frame_eq COMPRESS_NONE_def)
  then show ?thesis
    by (simp add: write_frame_plain_def write_frame_good [OF assms(1)] put_plain_def)
qed

text \<open>The frame the peer reads.\<close>

definition plain_frame :: "u8 \<Rightarrow> u64 \<Rightarrow> bytes \<Rightarrow> frame" where
  "plain_frame mt tx d =
     \<lparr>f_message_type = mt, f_compress_id = 0, f_encrypted = False, f_tx_id = tx, f_data = d\<rparr>"

lemma plain_frame_sel [simp]:
  "f_message_type (plain_frame mt tx d) = mt" "f_tx_id (plain_frame mt tx d) = tx"
  "f_data (plain_frame mt tx d) = d" "f_encrypted (plain_frame mt tx d) = False"
  by (simp_all add: plain_frame_def)

lemma read_plain_frame:
  assumes "unat mt \<le> 31" "length d \<le> u16_MAX" "rd_inp r = wire (push_bit 3 mt) tx d @ rest"
  shows "read_frame C K r = Ok (plain_frame mt tx d, r\<lparr>rd_inp := rest\<rparr>)"
proof -
  have "header_ok mt 0" using assms(1) by (simp add: header_ok_def)
  then have h: "drop_bit 3 (push_bit 3 mt) = mt" "push_bit 3 mt AND 7 = 0"
    using header_shift [of mt 0] by (auto simp: header_ok_def)
  then have "push_bit 3 mt AND 3 = 0" "push_bit 3 mt AND 4 = 0"
    by (metis and_7_and_3(1) and_zero_eq zero_and_eq) (metis h(2) and_7_and_3(2) zero_and_eq)
  then show ?thesis
    using h by (simp add: read_frame_wire [OF assms(3,2)] parse_wire_frame_eq decoded_def
        decompress_payload_def COMPRESS_NONE_def plain_frame_def)
qed

text \<open>Writing a plain frame, on any sink: all of it went out, or the sink broke after a part.\<close>

lemma plain_write_outcome:
  assumes "write_frame_plain C K rng s mt tx d = (r, s')" "unat mt \<le> 31" "length d \<le> u16_MAX"
  defines "buf \<equiv> wire (push_bit 3 mt) tx d"
  shows "(r = Ok () \<and> sk_out s' = sk_out s @ buf) \<or>
    (\<exists>e n. r = Err e \<and> \<not> sink_good s \<and> sk_out s' = sk_out s @ take n buf)"
proof -
  have b: "build_wire_frame C K rng mt tx d COMPRESS_NONE = Ok buf"
    using build_plain [of mt d C K rng tx] assms(2,3) by (simp add: buf_def)
  obtain q s1 where w: "write_all buf s = (q, s1)" by (metis surj_pair)
  obtain k where k: "sk_out s1 = sk_out s @ take k buf" "q = Ok () \<longrightarrow> k = length buf"
    using write_all_out [of buf s] w by auto
  obtain q2 s2 where f: "flush s1 = (q2, s2)" by (metis surj_pair)
  have f2: "sk_out s2 = sk_out s1" using flush_out [of s1] f by simp
  have np: "q \<noteq> Panic p" "q2 \<noteq> Panic p" for p
    using write_all_not_Panic [of buf s] flush_not_Panic [of s1] w f by auto
  show ?thesis
  proof (cases "sink_good s")
    case True
    with assms(1) b show ?thesis by (auto simp: write_frame_plain_def write_frame_good)
  next
    case False
    have e: "write_frame_plain C K rng s mt tx d = (case q of Ok u \<Rightarrow> (case q2 of Ok u \<Rightarrow> (Ok (), s2)
        | Err e \<Rightarrow> (Err e, s2) | Panic p \<Rightarrow> (Panic p, s2)) | Err e \<Rightarrow> (Err e, s1) | Panic p \<Rightarrow> (Panic p, s1))"
      by (simp add: write_frame_plain_def write_frame_def b w f split: res.splits)
    show ?thesis
    proof (cases q)
      case q: (Ok u)
      show ?thesis
      proof (cases q2)
        case (Err x)
        from assms(1) e q Err have "r = Err x" "s' = s2" by simp_all
        with False f2 k q show ?thesis by (intro disjI2 exI [of _ x] exI [of _ "length buf"]) simp
      qed (use False assms(1) e q f2 k np in auto)
    qed (use False assms(1) e k np in auto)
  qed
qed

lemma write_frame_plain_not_Panic [simp]: "fst (write_frame_plain C K rng s mt tx d) \<noteq> Panic p"
proof -
  have "COMPRESS_NONE AND 4 = 0" by (simp add: COMPRESS_NONE_def)
  then have b: "build_wire_frame C K rng mt tx d COMPRESS_NONE \<noteq> Panic q" for q
    using build_wire_frame_Panic_iff [of C K rng mt tx d COMPRESS_NONE] by auto
  show ?thesis
  proof (cases "build_wire_frame C K rng mt tx d COMPRESS_NONE")
    case (Ok buf)
    then show ?thesis
      by (simp add: write_frame_plain_def write_frame_def write_all_def flush_def split: option.splits)
  qed (use b in \<open>auto simp: write_frame_plain_def write_frame_def\<close>)
qed

section \<open>Properties\<close>

text \<open>
  C10: A frame that was built is read back exactly: same message type, flags, transaction id
  and data, whatever compression and encryption it uses, and the bytes after it are left
  in the stream.
\<close>

theorem frame_roundtrip:
  assumes "codec_ok C" and "build_wire_frame C K rng mt tx d fl = Ok buf"
    and "rd_inp r = buf @ rest"
  shows "read_frame C K r =
    Ok (\<lparr>f_message_type = mt, f_compress_id = fl AND COMPRESS_MASK,
         f_encrypted = (fl AND CHACHA20POLY1305 \<noteq> 0), f_tx_id = tx, f_data = d\<rparr>,
        r\<lparr>rd_inp := rest\<rparr>)"
  using build_read [OF assms] by (simp add: decoded_def COMPRESS_MASK_def CHACHA20POLY1305_def)

theorem frame_roundtrip_witness:
  "\<exists>buf. build_wire_frame sample_codec sample_key (\<lambda>_. 7) 21 258 [1, 2, 3] 5 = Ok buf \<and>
     read_frame sample_codec sample_key (sample_reader (buf @ [9])) =
       Ok (\<lparr>f_message_type = 21, f_compress_id = 1, f_encrypted = True, f_tx_id = 258,
            f_data = [1, 2, 3]\<rparr>, sample_reader [9])"
proof -
  obtain buf where b: "build_wire_frame sample_codec sample_key (\<lambda>_. 7) 21 258 [1, 2, 3] 5 = Ok buf"
    using sample_build ..
  show ?thesis
    using b frame_roundtrip [OF sample_codec_ok b, of "sample_reader (buf @ [9])" "[9]"]
    by (simp add: COMPRESS_MASK_def CHACHA20POLY1305_def)
qed

text \<open>
  C24: Frames sent one after the other on one stream are received in order, each exactly
  once, and nothing after them is consumed: the framing never loses synchronisation.
\<close>

theorem frame_stream_roundtrip:
  assumes "codec_ok C" and "sink_good s" and "send_all (send_async (C, K)) ms s = (Ok (), s')"
    and "rd_inp r = drop (length (sk_out s)) (sk_out s') @ rest"
  shows "recv_n (read_frame C K) (length ms) r = Ok (map msg_denotes ms, r\<lparr>rd_inp := rest\<rparr>)"
  using chan.send_all_recv_n [of "(C, K)", OF _ assms(2,3)] assms(1,4) by auto

theorem frame_stream_roundtrip_witness:
  "\<exists>s'. send_all (send_async (sample_codec, sample_key)) sample_msgs (open_sink eof) = (Ok (), s') \<and>
     recv_n (read_frame sample_codec sample_key) 2 (sample_reader (sk_out s' @ [9])) =
       Ok (map msg_denotes sample_msgs, sample_reader [9])"
proof -
  have "\<exists>s'. send_all (send_async (sample_codec, sample_key)) sample_msgs (open_sink eof) = (Ok (), s')"
    by (simp add: sample_msgs_def send_async_def write_frame_good build_wire_frame_eq
        pack_header_byte_cases frame_payload_def compress_payload_def frame_consts
        sample_codec_def sample_key_def encrypt_payload_def sample_tag_def NONCE_LEN_def
        u16_MAX_def Let_def split: res.splits)
  then obtain s' where s': "send_all (send_async (sample_codec, sample_key)) sample_msgs
      (open_sink eof) = (Ok (), s')" ..
  have "length sample_msgs = 2" by (simp add: sample_msgs_def)
  with s' frame_stream_roundtrip [OF sample_codec_ok _ s', of "sample_reader (sk_out s' @ [9])" "[9]"]
  show ?thesis by simp
qed


text \<open>
  The blocking functions behave as the async ones: the same result, the same bytes
  written, the same frame read, the same errors and panics, for every input.
\<close>

theorem blocking_equals_async:
  "write_frame_blocking C K rng w mt tx d fl = write_frame C K rng w mt tx d fl \<and>
   read_frame_blocking C K r = read_frame C K r"
  by (simp add: write_frame_blocking_eq read_frame_eq_blocking)

text \<open>
  A header byte is accepted exactly for a 5-bit message type and 3-bit flags whose
  compression id is not 3, and it holds both: shifting and masking give them back, so no two
  accepted pairs share a header byte.
\<close>

theorem header_byte_fields:
  "pack_header_byte mt fl = Ok h \<longleftrightarrow>
     unat mt \<le> 31 \<and> unat fl \<le> 7 \<and> fl AND COMPRESS_MASK \<noteq> 3 \<and>
     drop_bit 3 h = mt \<and> h AND FLAGS_MASK = fl"
proof -
  have "unat mt < 2 ^ 5 \<longleftrightarrow> unat mt \<le> 31" "unat fl < 2 ^ 3 \<longleftrightarrow> unat fl \<le> 7" by auto
  moreover have "drop_bit 3 h = mt \<and> h AND 7 = fl \<Longrightarrow> h = push_bit 3 mt OR fl"
    using header_join [of h] by metis
  ultimately show ?thesis
    unfolding pack_header_byte_Ok_iff header_ok_def COMPRESS_MASK_def FLAGS_MASK_def
    using header_shift [of mt fl] by metis
qed

text \<open>
  A peer that closes the connection inside a frame never makes the reader deliver
  something else: every proper prefix of a built frame is the end-of-stream error.
\<close>

theorem truncated_frame_rejected:
  assumes "build_wire_frame C K rng mt tx d fl = Ok buf" and "n < length buf"
    and "rd_inp r = take n buf"
  shows "read_frame C' K' r = Err (rd_end r)"
  using build_prefix [OF assms] .

theorem truncated_frame_rejected_witness:
  "\<exists>buf. build_wire_frame sample_codec sample_key (\<lambda>_. 7) 21 258 [1, 2, 3] 5 = Ok buf \<and>
     read_frame sample_codec sample_key (sample_reader (take 11 buf)) = Err eof"
proof -
  obtain buf where b: "build_wire_frame sample_codec sample_key (\<lambda>_. 7) 21 258 [1, 2, 3] 5 = Ok buf"
    using sample_build ..
  have "11 < length buf"
    using b by (auto simp: build_wire_frame_Ok_iff length_wire frame_payload_def
        compress_payload_Ok_iff encrypt_payload_Ok_iff sample_codec_def)
  from truncated_frame_rejected [OF b this, of "sample_reader (take 11 buf)"] b
  show ?thesis by simp
qed

text \<open>
  C35: When a write fails, the peer does not get a frame: what reached the stream reads as
  the end-of-stream error, unless the whole frame went out and only the final flush failed.
\<close>

theorem failed_write_delivers_no_frame:
  assumes "write_frame C K rng s mt tx d fl = (Err e, s')" and "sk_out s = []"
    and "rd_inp r = sk_out s'"
  shows "read_frame C' K' r = Err (rd_end r) \<or>
    (sk_flush s = Some e \<and> build_wire_frame C K rng mt tx d fl = Ok (sk_out s'))"
  using assms(1)
proof (cases rule: write_frame_Err_cases)
  case build
  then show ?thesis
    using assms read_frame_prefix [where p = "[]" and n = 0 and r = r] by (simp add: wire_def)
next
  case (broken buf n)
  then show ?thesis using assms by (intro disjI1 build_prefix) auto
next
  case (flush buf)
  then show ?thesis using assms by simp
qed

theorem failed_write_delivers_no_frame_witness:
  "\<exists>s'. write_frame sample_codec None (\<lambda>_. 0) ((open_sink eof)\<lparr>sk_room := Some 3\<rparr>) 1 1 [5] 0 = (Err eof, s') \<and>
     read_frame sample_codec None (sample_reader (sk_out s')) = Err eof"
proof -
  let ?s = "(open_sink eof)\<lparr>sk_room := Some 3\<rparr>"
  obtain buf where "build_wire_frame sample_codec None (\<lambda>_. 0) 1 1 [5] 0 = Ok buf" "11 \<le> length buf"
    using build_plain [of 1 "[5]" sample_codec None "\<lambda>_. 0" 1] length_wire
    by (auto simp: COMPRESS_NONE_def u16_MAX_def)
  then have w: "write_frame sample_codec None (\<lambda>_. 0) ?s 1 1 [5] 0 =
      (Err eof, ?s\<lparr>sk_out := take 3 buf, sk_room := Some 0\<rparr>)"
    by (simp add: write_frame_def write_all_def open_sink_def)
  from failed_write_delivers_no_frame [OF w, of "sample_reader (take 3 buf)" sample_codec None] w
  show ?thesis by (auto simp: open_sink_def)
qed

text \<open>
  Reading panics for exactly one kind of input: a complete frame whose encryption bit is
  set, received by a process whose key cell is unset or holds None. Nothing else a peer can
  send panics the reader.
\<close>

theorem read_frame_panics_iff:
  "(\<exists>m. read_frame C K r = Panic m) \<longleftrightarrow>
     (\<exists>h (tx :: u64) p rest. length p \<le> 65535 \<and>
        rd_inp r = [h] @ to_be 8 tx @ to_be 2 (of_nat (length p) :: u16) @ p @ rest \<and>
        h AND CHACHA20POLY1305 \<noteq> 0 \<and> (K = None \<or> K = Some None))"
  unfolding read_frame_Panic_iff key_missing_def CHACHA20POLY1305_def wire_def u16_MAX_def
    append_assoc ..

text \<open>
  C15: An encrypted frame is accepted only with the configured key, and only when its payload
  is a nonce and the AEAD encryption, under that key and nonce and bound to this header byte
  and transaction id, of the compressed form of the data that is returned.
\<close>

theorem encrypted_frame_authentic:
  assumes "codec_ok C" and "read_frame C K r = Ok (f, r')" and "f_encrypted f"
  shows "\<exists>key h nonce c z. K = Some (Some key) \<and>
     rd_inp r = [h] @ to_be 8 (f_tx_id f) @
       to_be 2 (of_nat (NONCE_LEN + length c) :: u16) @ nonce @ c @ rd_inp r' \<and>
     length nonce = NONCE_LEN \<and> TAG_LEN \<le> length c \<and>
     drop_bit 3 h = f_message_type f \<and> h AND COMPRESS_MASK = f_compress_id f \<and>
     aead_encrypt C key nonce z (aead_aad h (f_tx_id f)) = Some c \<and>
     decompress_payload C (f_compress_id f) z = Ok (f_data f)"
proof -
  from assms(2) obtain h tx p where w: "rd_inp r = wire h tx p @ rd_inp r'"
    and pf: "parse_wire_frame C K h tx p = Ok f"
    by (auto simp: read_frame_Ok_iff)
  from parse_encrypted_authentic [OF assms(1) pf assms(3)] parse_header [OF pf]
  obtain key z where a: "K = Some (Some key)" "NONCE_LEN + TAG_LEN \<le> length p"
    "aead_encrypt C key (take NONCE_LEN p) z (aead_aad h (f_tx_id f)) = Some (drop NONCE_LEN p)"
    "decompress_payload C (f_compress_id f) z = Ok (f_data f)" by blast
  have "drop_bit 3 h = f_message_type f"
    using parse_wire_frame_decoded [OF pf] by (auto simp: decoded_def)
  then show ?thesis
    using a w parse_header(2,4) [OF pf]
    by (intro exI [of _ key] exI [of _ h] exI [of _ "take NONCE_LEN p"]
          exI [of _ "drop NONCE_LEN p"] exI [of _ z]) (auto simp: wire_def COMPRESS_MASK_def)
qed

theorem encrypted_frame_authentic_witness:
  "\<exists>buf f r'. read_frame sample_codec sample_key (sample_reader buf) = Ok (f, r') \<and> f_encrypted f \<and>
     (\<exists>key h nonce c z. sample_key = Some (Some key) \<and>
       buf = [h] @ to_be 8 (f_tx_id f) @
         to_be 2 (of_nat (NONCE_LEN + length c) :: u16) @ nonce @ c @ rd_inp r' \<and>
       aead_encrypt sample_codec key nonce z (aead_aad h (f_tx_id f)) = Some c)"
proof -
  obtain buf where b: "build_wire_frame sample_codec sample_key (\<lambda>_. 7) 21 258 [1, 2, 3] 5 = Ok buf"
    using sample_build ..
  let ?f = "decoded 21 5 258 [1, 2, 3]"
  have r: "read_frame sample_codec sample_key (sample_reader buf) = Ok (?f, sample_reader [])"
    using build_read [OF sample_codec_ok b, of "sample_reader buf" "[]"] by simp
  have e: "f_encrypted ?f" by (simp add: decoded_def)
  from encrypted_frame_authentic [OF sample_codec_ok r e] r e show ?thesis by fastforce
qed

text \<open>
  C33: the capacity of a frame: any data up to 65535 bytes fits in a plain frame, any data up
  to 65507 bytes in an encrypted one (nonce and tag take 28), and nothing longer is accepted; the cipher is assumed not to fail
  on data of that size.
\<close>

theorem frame_capacity:
  assumes "codec_ok C" and "\<forall>n m a. length m \<le> 65507 \<longrightarrow> aead_encrypt C key n m a \<noteq> None"
    and "unat mt \<le> 31"
  shows "(is_ok (build_wire_frame C K rng mt tx d COMPRESS_NONE) \<longleftrightarrow> length d \<le> 65535) \<and>
    (is_ok (build_wire_frame C (Some (Some key)) rng mt tx d CHACHA20POLY1305) \<longleftrightarrow>
       length d \<le> 65507)"
proof (rule conjI)
  show "is_ok (build_wire_frame C K rng mt tx d COMPRESS_NONE) \<longleftrightarrow> length d \<le> 65535"
    using assms(3) by (simp add: is_ok_iff build_wire_frame_Ok_iff u16_MAX_def COMPRESS_NONE_def
        header_ok_def)
next
  have h: "header_ok mt CHACHA20POLY1305"
    using assms(3) by (simp add: header_ok_def CHACHA20POLY1305_def)
  let ?p = "frame_payload C (Some (Some key)) rng CHACHA20POLY1305
     (push_bit 3 mt OR CHACHA20POLY1305) tx d"
  have p: "\<exists>p. ?p = Ok p" if "length d \<le> 65507"
    using assms(2) that by (force simp: frame_payload_def CHACHA20POLY1305_def compress_payload_def
        frame_consts encrypt_payload_def Let_def split: option.splits)
  show "is_ok (build_wire_frame C (Some (Some key)) rng mt tx d CHACHA20POLY1305) \<longleftrightarrow>
           length d \<le> 65507"
    using p h encrypted_payload_length [OF assms(1), of "Some (Some key)" rng _ tx d]
    by (fastforce simp: is_ok_iff build_wire_frame_Ok_iff u16_MAX_def)
qed

theorem frame_capacity_witness:
  "is_ok (build_wire_frame sample_codec None (\<lambda>_. 0) 10 1 (replicate 65535 0) COMPRESS_NONE) \<and>
   \<not> is_ok (build_wire_frame sample_codec (Some (Some [1])) (\<lambda>_. 0) 10 1 (replicate 65508 0) CHACHA20POLY1305)"
proof -
  have a: "\<forall>n m a. length m \<le> 65507 \<longrightarrow> aead_encrypt sample_codec [1] n m a \<noteq> None" "unat (10 :: u8) \<le> 31"
    by (simp_all add: sample_codec_def)
  show ?thesis
    by (simp add: frame_capacity [OF sample_codec_ok a])
qed

text \<open>
  The errors a reader can return: the error of the stream, an InvalidData error of the
  frame layer (short or unauthentic payload, compression id 3), or the decompressor's own.
\<close>

theorem read_frame_errors:
  assumes "read_frame C K r = Err e"
  shows "e = rd_end r \<or> io_kind e = InvalidData \<or>
    (\<exists>z. gz_decode C z = Inl e \<or> df_decode C z = Inl e)"
proof (cases "\<exists>h tx p rest. length p \<le> u16_MAX \<and> rd_inp r = wire h tx p @ rest")
  case True
  then obtain h tx p rest where "length p \<le> u16_MAX" "rd_inp r = wire h tx p @ rest" by blast
  with assms have "parse_wire_frame C K h tx p = Err e" by (simp add: read_frame_wire res_elims)
  then show ?thesis
    by (auto simp: parse_wire_frame_eq res_elims dest: decrypt_payload_Err decompress_payload_Err
        split: if_splits)
next
  case False
  then show ?thesis using read_frame_no_wire [of r C K] assms by auto
qed

theorem read_frame_errors_witness:
  "read_frame sample_codec None (sample_reader [1, 2]) = Err eof \<and>
   (eof = rd_end (sample_reader [1, 2]) \<or> io_kind eof = InvalidData \<or>
    (\<exists>z. gz_decode sample_codec z = Inl eof \<or> df_decode sample_codec z = Inl eof))"
proof -
  have r: "read_frame sample_codec None (sample_reader [1, 2]) = Err eof"
    by (simp add: read_frame_def read_exact_def sample_reader_def)
  from read_frame_errors [OF r] r show ?thesis by blast
qed

end
