(* ===== verification/Dfinder_Protocol.thy ===== *)
theory Dfinder_Protocol
  imports Prelude
begin

text \<open>
  The messages of the node-discovery protocol, \<open>src/dfinder/protocol.rs\<close>. A node carries a
  user-defined extension of type \<open>'e\<close> (the trait \<open>NodeExtra\<close>).

  The derived \<open>Serialize\<close> and \<open>Deserialize\<close> are code of serde and serde_json: the record
  \<open>json\<close> holds one function per use, and \<open>json_ok\<close> states what is relied on, that what was
  serialised deserialises to the same value.
\<close>

definition MSG_REGISTER :: u8 where "MSG_REGISTER = 1"
definition MSG_REGISTER_ACK :: u8 where "MSG_REGISTER_ACK = 2"
definition MSG_QUERY :: u8 where "MSG_QUERY = 3"
definition MSG_QUERY_RESULT :: u8 where "MSG_QUERY_RESULT = 4"
definition MSG_ERROR :: u8 where "MSG_ERROR = 5"

lemmas dfinder_msgs =
  MSG_REGISTER_def MSG_REGISTER_ACK_def MSG_QUERY_def MSG_QUERY_RESULT_def MSG_ERROR_def

record 'e node_info =
  ni_ip :: string
  ni_port :: u16
  ni_labels :: "string list"
  ni_extra :: 'e

record 'e register_request =
  rr_port :: u16
  rr_labels :: "string list"
  rr_extra :: 'e

record query_request =
  qr_labels :: "string list"

record 'e query_result =
  qres_nodes :: "'e node_info list"

record error_body =
  eb_message :: string

datatype json_error = Json_Error string

record 'e json =
  labels_to_string :: "string list \<Rightarrow> json_error + string"
  labels_from_str :: "string \<Rightarrow> json_error + string list"
  extra_to_string :: "'e \<Rightarrow> json_error + string"
  extra_from_str :: "string \<Rightarrow> json_error + 'e"
  register_to_vec :: "'e register_request \<Rightarrow> json_error + bytes"
  register_from_slice :: "bytes \<Rightarrow> json_error + 'e register_request"
  query_to_vec :: "query_request \<Rightarrow> json_error + bytes"
  query_from_slice :: "bytes \<Rightarrow> json_error + query_request"
  result_to_vec :: "'e query_result \<Rightarrow> json_error + bytes"
  result_from_slice :: "bytes \<Rightarrow> json_error + 'e query_result"
  error_to_vec :: "error_body \<Rightarrow> json_error + bytes"
  error_from_slice :: "bytes \<Rightarrow> json_error + error_body"

definition json_ok :: "'e json \<Rightarrow> bool" where
  "json_ok J \<longleftrightarrow>
     (\<forall>x s. labels_to_string J x = Inr s \<longrightarrow> labels_from_str J s = Inr x) \<and>
     (\<forall>x s. extra_to_string J x = Inr s \<longrightarrow> extra_from_str J s = Inr x) \<and>
     (\<forall>x s. register_to_vec J x = Inr s \<longrightarrow> register_from_slice J s = Inr x) \<and>
     (\<forall>x s. query_to_vec J x = Inr s \<longrightarrow> query_from_slice J s = Inr x) \<and>
     (\<forall>x s. result_to_vec J x = Inr s \<longrightarrow> result_from_slice J s = Inr x) \<and>
     (\<forall>x s. error_to_vec J x = Inr s \<longrightarrow> error_from_slice J s = Inr x)"

lemma json_okD:
  assumes "json_ok J"
  shows "labels_to_string J x1 = Inr s1 \<Longrightarrow> labels_from_str J s1 = Inr x1"
    and "extra_to_string J x2 = Inr s1 \<Longrightarrow> extra_from_str J s1 = Inr x2"
    and "register_to_vec J x3 = Inr s2 \<Longrightarrow> register_from_slice J s2 = Inr x3"
    and "query_to_vec J x4 = Inr s2 \<Longrightarrow> query_from_slice J s2 = Inr x4"
    and "result_to_vec J x5 = Inr s2 \<Longrightarrow> result_from_slice J s2 = Inr x5"
    and "error_to_vec J x6 = Inr s2 \<Longrightarrow> error_from_slice J s2 = Inr x6"
  using assms unfolding json_ok_def by blast+

end
