(* ===== verification/Sample_Parsers.thy ===== *)
theory Sample_Parsers
  imports Prelude
begin

text \<open>
  Printers and parsers for the concrete serialisations of the witnesses: lengths in unary,
  followed by the contents. The witnesses use them where serde_json and prost stand in the
  program, to show that the laws of those parameters can hold for every message.
\<close>

section \<open>Decoders that hand back what they did not read\<close>

definition put_nat :: "nat \<Rightarrow> string" where
  "put_nat n = replicate n CHR ''x'' @ ''!''"

definition get_nat :: "string \<Rightarrow> (nat \<times> string) option" where
  "get_nat s =
     (let n = length (takeWhile (\<lambda>c. c = CHR ''x'') s) in
      case drop n s of [] \<Rightarrow> None | c # rest \<Rightarrow> Some (n, rest))"

lemma get_put_nat [simp]: "get_nat (put_nat n @ rest) = Some (n, rest)"
proof -
  have "takeWhile (\<lambda>c. c = CHR ''x'') (replicate n CHR ''x'' @ CHR ''!'' # rest) =
      replicate n CHR ''x''"
    by (induction n) auto
  then show ?thesis by (simp add: get_nat_def put_nat_def)
qed

definition put_str :: "string \<Rightarrow> string" where
  "put_str s = put_nat (length s) @ s"

definition get_str :: "string \<Rightarrow> (string \<times> string) option" where
  "get_str s = (case get_nat s of None \<Rightarrow> None
     | Some (n, r) \<Rightarrow> if n \<le> length r then Some (take n r, drop n r) else None)"

lemma get_put_str [simp]: "get_str (put_str s @ rest) = Some (s, rest)"
  by (simp add: get_str_def put_str_def)

fun get_n :: "(string \<Rightarrow> ('a \<times> string) option) \<Rightarrow> nat \<Rightarrow> string \<Rightarrow> ('a list \<times> string) option" where
  "get_n g 0 s = Some ([], s)"
| "get_n g (Suc n) s =
     (case g s of None \<Rightarrow> None
      | Some (x, r) \<Rightarrow> (case get_n g n r of None \<Rightarrow> None | Some (xs, r') \<Rightarrow> Some (x # xs, r')))"

lemma get_n_concat:
  assumes "\<And>x rest. g (p x @ rest) = Some (x, rest)"
  shows "get_n g (length xs) (concat (map p xs) @ rest) = Some (xs, rest)"
  by (induction xs) (auto simp: assms)

definition put_list :: "('a \<Rightarrow> string) \<Rightarrow> 'a list \<Rightarrow> string" where
  "put_list p xs = put_nat (length xs) @ concat (map p xs)"

definition get_list :: "(string \<Rightarrow> ('a \<times> string) option) \<Rightarrow> string \<Rightarrow> ('a list \<times> string) option" where
  "get_list g s = (case get_nat s of None \<Rightarrow> None | Some (n, r) \<Rightarrow> get_n g n r)"

lemma get_put_list:
  assumes "\<And>x rest. g (p x @ rest) = Some (x, rest)"
  shows "get_list g (put_list p xs @ rest) = Some (xs, rest)"
  by (simp add: get_list_def put_list_def get_n_concat [OF assms])

lemmas get_put_strs [simp] = get_put_list [where g = get_str and p = put_str, OF get_put_str]

section \<open>Strings as bytes\<close>

definition to_vec :: "string \<Rightarrow> bytes" where
  "to_vec s = map (\<lambda>c. of_nat (of_char c)) s"

definition of_vec :: "bytes \<Rightarrow> string" where
  "of_vec b = map (\<lambda>w. char_of (unat w)) b"

lemma of_to_vec [simp]: "of_vec (to_vec s) = s"
proof -
  have "char_of (unat (of_nat (of_char c) :: u8)) = c" for c :: char
  proof -
    have "of_char c < (256 :: nat)" by (metis of_char_mod_256 mod_less_divisor zero_less_numeral)
    then have "unat (of_nat (of_char c) :: u8) = of_char c"
      by (simp add: unat_of_nat take_bit_nat_eq_self)
    then show ?thesis by simp
  qed
  then show ?thesis by (simp add: of_vec_def to_vec_def comp_def map_idI)
qed

text \<open>Decoding a whole string, with the error for anything else.\<close>

definition read_all :: "'e \<Rightarrow> (string \<Rightarrow> ('a \<times> string) option) \<Rightarrow> string \<Rightarrow> 'e + 'a" where
  "read_all e g s = (case g s of Some (x, []) \<Rightarrow> Inr x | _ \<Rightarrow> Inl e)"

lemma read_all_put:
  assumes "\<And>rest. g (s @ rest) = Some (x, rest)"
  shows "read_all e g s = Inr x"
  using assms [of "[]"] by (simp add: read_all_def)

end
