(* ===== verification/Sample_Json.thy ===== *)
theory Sample_Json
  imports Dfinder_Protocol Sample_Parsers
begin

text \<open>A concrete serialisation that satisfies \<open>json_ok\<close>, for the witnesses.\<close>

abbreviation read_json :: "(string \<Rightarrow> ('a \<times> string) option) \<Rightarrow> string \<Rightarrow> json_error + 'a" where
  "read_json \<equiv> read_all (Json_Error ''expected value'')"

definition put_node :: "nat node_info \<Rightarrow> string" where
  "put_node n = put_str (ni_ip n) @ put_nat (unat (ni_port n)) @ put_list put_str (ni_labels n) @
     put_nat (ni_extra n)"

definition get_node :: "string \<Rightarrow> (nat node_info \<times> string) option" where
  "get_node s =
     (case get_str s of None \<Rightarrow> None | Some (ip, s) \<Rightarrow>
     (case get_nat s of None \<Rightarrow> None | Some (p, s) \<Rightarrow>
     (case get_list get_str s of None \<Rightarrow> None | Some (ls, s) \<Rightarrow>
     (case get_nat s of None \<Rightarrow> None | Some (e, s) \<Rightarrow>
       Some (\<lparr>ni_ip = ip, ni_port = of_nat p, ni_labels = ls, ni_extra = e\<rparr>, s)))))"

lemma get_put_node [simp]: "get_node (put_node n @ rest) = Some (n, rest)"
  by (simp add: get_node_def put_node_def)

definition get_register :: "string \<Rightarrow> (nat register_request \<times> string) option" where
  "get_register s =
     (case get_nat s of None \<Rightarrow> None | Some (p, s) \<Rightarrow>
     (case get_list get_str s of None \<Rightarrow> None | Some (ls, s) \<Rightarrow>
     (case get_nat s of None \<Rightarrow> None | Some (e, s) \<Rightarrow>
       Some (\<lparr>rr_port = of_nat p, rr_labels = ls, rr_extra = e\<rparr>, s))))"

definition sample_json :: "nat json" where
  "sample_json =
     \<lparr>labels_to_string = (\<lambda>ls. Inr (put_list put_str ls)),
      labels_from_str = read_json (get_list get_str),
      extra_to_string = (\<lambda>n. Inr (put_nat n)),
      extra_from_str = read_json get_nat,
      register_to_vec = (\<lambda>q. Inr (to_vec (put_nat (unat (rr_port q)) @
         put_list put_str (rr_labels q) @ put_nat (rr_extra q)))),
      register_from_slice = (\<lambda>b. read_json get_register (of_vec b)),
      query_to_vec = (\<lambda>q. Inr (to_vec (put_list put_str (qr_labels q)))),
      query_from_slice = (\<lambda>b. case read_json (get_list get_str) (of_vec b) of
         Inl e \<Rightarrow> Inl e | Inr ls \<Rightarrow> Inr \<lparr>qr_labels = ls\<rparr>),
      result_to_vec = (\<lambda>q. Inr (to_vec (put_list put_node (qres_nodes q)))),
      result_from_slice = (\<lambda>b. case read_json (get_list get_node) (of_vec b) of
         Inl e \<Rightarrow> Inl e | Inr ns \<Rightarrow> Inr \<lparr>qres_nodes = ns\<rparr>),
      error_to_vec = (\<lambda>q. Inr (to_vec (eb_message q))),
      error_from_slice = (\<lambda>b. Inr \<lparr>eb_message = of_vec b\<rparr>)\<rparr>"

lemma sample_json_ok: "json_ok sample_json"
proof -
  have 1: "read_json (get_list get_str) (put_list put_str ls) = Inr ls" for ls
    by (rule read_all_put) (simp only: get_put_strs)
  have 2: "read_json get_nat (put_nat n) = Inr n" for n
    by (rule read_all_put) simp
  have 3: "read_json get_register (put_nat (unat (rr_port q)) @ put_list put_str (rr_labels q) @
      put_nat (rr_extra q)) = Inr q" for q
    by (rule read_all_put) (simp add: get_register_def)
  have 4: "read_json (get_list get_node) (put_list put_node ns) = Inr ns" for ns
    by (rule read_all_put, rule get_put_list) simp
  show ?thesis
    by (auto simp: json_ok_def sample_json_def 1 2 3 4)
qed

end
