(* ===== verification/Dfinder_Store.thy ===== *)
theory Dfinder_Store
  imports Sample_Json "HOL-Library.Multiset"
begin

text \<open>
  The node table of the registry, \<open>src/dfinder/store.rs\<close>. The four SQL statements of the
  source are translated to operations on the list of rows of the table \<open>nodes\<close>. What SQLite
  itself decides is the record \<open>engine\<close>, an argument of every operation: whether opening or
  running a statement fails, and the order in which a SELECT without ORDER BY delivers the
  rows (\<open>engine_ok\<close>: each row once, and the IP is a primary key in an existing file). The mutex around the connection is the flag
  \<open>ns_poisoned\<close>.
\<close>

section \<open>SQL\<close>

record row =
  row_ip :: string
  row_port :: i64
  row_labels :: string
  row_extra :: string
  row_updated_at :: i64

type_synonym db = "row list option" \<comment> \<open>\<open>None\<close>: the table does not exist\<close>

datatype sqlite_error = Sqlite_Error string

datatype stmt = Sql_Create | Sql_Upsert row | Sql_Delete string | Sql_Select | Sql_Step row

record engine =
  eng_open :: "string \<Rightarrow> sqlite_error + db" \<comment> \<open>the tables the file holds\<close>
  eng_open_memory :: "sqlite_error + unit" \<comment> \<open>a fresh database has no tables\<close>
  eng_fault :: "stmt \<Rightarrow> sqlite_error option"
  eng_order :: "row list \<Rightarrow> row list"

definition engine_ok :: "engine \<Rightarrow> bool" where
  "engine_ok E \<longleftrightarrow>
     (\<forall>rows. mset (eng_order E rows) = mset rows) \<and>
     (\<forall>path rows. eng_open E path = Inr (Some rows) \<longrightarrow> distinct (map row_ip rows))"

definition sql_create :: "db \<Rightarrow> db" where
  "sql_create db = (case db of None \<Rightarrow> Some [] | Some rows \<Rightarrow> Some rows)"

definition sql_upsert :: "row \<Rightarrow> row list \<Rightarrow> row list" where
  "sql_upsert excluded rows =
     (if \<exists>r \<in> set rows. row_ip r = row_ip excluded
      then map (\<lambda>r. if row_ip r = row_ip excluded
                    then r\<lparr>row_port := row_port excluded, row_labels := row_labels excluded,
                           row_extra := row_extra excluded,
                           row_updated_at := row_updated_at excluded\<rparr>
                    else r) rows
      else rows @ [excluded])"

definition sql_delete :: "string \<Rightarrow> row list \<Rightarrow> row list" where
  "sql_delete ip rows = filter (\<lambda>r. row_ip r \<noteq> ip) rows"

section \<open>The store\<close>

datatype store_error = StoreE_Sqlite sqlite_error | StoreE_Json json_error | StoreE_Poisoned

record node_store =
  ns_conn :: db
  ns_poisoned :: bool

text \<open>Running a statement on the locked connection; a statement on a missing table fails.\<close>

definition run_stmt :: "engine \<Rightarrow> stmt \<Rightarrow> db \<Rightarrow> (row list \<Rightarrow> 'a) \<Rightarrow> (store_error, 'a) res" where
  "run_stmt E s db f =
     (case eng_fault E s of
        Some e \<Rightarrow> Err (StoreE_Sqlite e)
      | None \<Rightarrow> (case db of
                  None \<Rightarrow> Err (StoreE_Sqlite (Sqlite_Error ''no such table: nodes''))
                | Some rows \<Rightarrow> Ok (f rows)))"

definition store_lock :: "node_store \<Rightarrow> (store_error, db) res" where
  "store_lock st = (if ns_poisoned st then Err StoreE_Poisoned else Ok (ns_conn st))"

definition store_migrate :: "engine \<Rightarrow> node_store \<Rightarrow> (store_error, node_store) res" where
  "store_migrate E st =
     rbind (store_lock st) (\<lambda>db.
     case eng_fault E Sql_Create of
       Some e \<Rightarrow> Err (StoreE_Sqlite e)
     | None \<Rightarrow> Ok (st\<lparr>ns_conn := sql_create db\<rparr>))"

definition store_open :: "engine \<Rightarrow> string \<Rightarrow> (store_error, node_store) res" where
  "store_open E path =
     rbind (map_err StoreE_Sqlite (of_sum (eng_open E path))) (\<lambda>conn.
     let store = \<lparr>ns_conn = conn, ns_poisoned = False\<rparr> in
     store_migrate E store)"

definition store_open_in_memory :: "engine \<Rightarrow> (store_error, node_store) res" where
  "store_open_in_memory E =
     rbind (map_err StoreE_Sqlite (of_sum (eng_open_memory E))) (\<lambda>_.
     let store = \<lparr>ns_conn = None, ns_poisoned = False\<rparr> in
     store_migrate E store)"

text \<open>
  The wall clock is nanoseconds relative to \<open>UNIX_EPOCH\<close>; a clock before the epoch gives 0,
  and the \<open>u64\<close> seconds are cast to \<open>i64\<close>.
\<close>

definition now_secs :: "int \<Rightarrow> i64" where
  "now_secs wall = (if wall < 0 then 0 else word_of_int (wall div 1000000000))"

definition store_upsert ::
  "'e json \<Rightarrow> engine \<Rightarrow> int \<Rightarrow> node_store \<Rightarrow> 'e node_info \<Rightarrow> (store_error, node_store) res" where
  "store_upsert J E wall st node =
     rbind (map_err StoreE_Json (of_sum (labels_to_string J (ni_labels node)))) (\<lambda>labels_json.
     rbind (map_err StoreE_Json (of_sum (extra_to_string J (ni_extra node)))) (\<lambda>extra_json.
     let now = now_secs wall in
     rbind (store_lock st) (\<lambda>db.
     let r = \<lparr>row_ip = ni_ip node, row_port = ucast (ni_port node), row_labels = labels_json,
              row_extra = extra_json, row_updated_at = now\<rparr> in
     rbind (run_stmt E (Sql_Upsert r) db (sql_upsert r)) (\<lambda>rows.
     Ok (st\<lparr>ns_conn := Some rows\<rparr>)))))"

definition store_remove :: "engine \<Rightarrow> node_store \<Rightarrow> string \<Rightarrow> (store_error, node_store) res" where
  "store_remove E st ip =
     rbind (store_lock st) (\<lambda>db.
     rbind (run_stmt E (Sql_Delete ip) db (sql_delete ip)) (\<lambda>rows.
     Ok (st\<lparr>ns_conn := Some rows\<rparr>)))"

text \<open>The loop of \<open>list_all\<close>: each row may fail to be read, and its two JSON columns to parse.\<close>

fun collect_rows ::
  "'e json \<Rightarrow> engine \<Rightarrow> row list \<Rightarrow> 'e node_info list \<Rightarrow> (store_error, 'e node_info list) res" where
  "collect_rows J E [] out = Ok out"
| "collect_rows J E (r # rows) out =
     (case eng_fault E (Sql_Step r) of
        Some e \<Rightarrow> Err (StoreE_Sqlite e)
      | None \<Rightarrow>
          rbind (map_err StoreE_Json (of_sum (labels_from_str J (row_labels r)))) (\<lambda>labels.
          rbind (map_err StoreE_Json (of_sum (extra_from_str J (row_extra r)))) (\<lambda>extra.
          collect_rows J E rows
            (out @ [\<lparr>ni_ip = row_ip r, ni_port = ucast (row_port r), ni_labels = labels,
                     ni_extra = extra\<rparr>]))))"

definition store_list_all ::
  "'e json \<Rightarrow> engine \<Rightarrow> node_store \<Rightarrow> (store_error, 'e node_info list) res" where
  "store_list_all J E st =
     rbind (store_lock st) (\<lambda>db.
     rbind (run_stmt E Sql_Select db (eng_order E)) (\<lambda>rows.
     collect_rows J E rows []))"

definition has_labels :: "string list \<Rightarrow> 'e node_info \<Rightarrow> bool" where
  "has_labels labels n \<longleftrightarrow> (\<forall>l \<in> set labels. l \<in> set (ni_labels n))"

definition store_list_by_labels ::
  "'e json \<Rightarrow> engine \<Rightarrow> node_store \<Rightarrow> string list \<Rightarrow> (store_error, 'e node_info list) res" where
  "store_list_by_labels J E st labels =
     rbind (store_list_all J E st) (\<lambda>all.
     Ok (filter (has_labels labels) all))"

section \<open>The table as a map from IP to node\<close>

text \<open>What a row says about its node, if its JSON columns parse.\<close>

definition row_node :: "'e json \<Rightarrow> row \<Rightarrow> 'e node_info option" where
  "row_node J r =
     (case labels_from_str J (row_labels r) of
        Inl _ \<Rightarrow> None
      | Inr labels \<Rightarrow>
          (case extra_from_str J (row_extra r) of
             Inl _ \<Rightarrow> None
           | Inr extra \<Rightarrow> Some \<lparr>ni_ip = row_ip r, ni_port = ucast (row_port r),
                                ni_labels = labels, ni_extra = extra\<rparr>))"

definition store_rows :: "node_store \<Rightarrow> row list" where
  "store_rows st = (case ns_conn st of None \<Rightarrow> [] | Some rows \<Rightarrow> rows)"

definition store_inv :: "'e json \<Rightarrow> node_store \<Rightarrow> bool" where
  "store_inv J st \<longleftrightarrow>
     \<not> ns_poisoned st \<and> ns_conn st \<noteq> None \<and> distinct (map row_ip (store_rows st)) \<and>
     (\<forall>r \<in> set (store_rows st). row_node J r \<noteq> None)"

definition store_abs :: "'e json \<Rightarrow> node_store \<Rightarrow> string \<Rightarrow> 'e node_info option" where
  "store_abs J st = map_of (map (\<lambda>r. (row_ip r, the (row_node J r))) (store_rows st))"

lemma row_node_ip: "row_node J r = Some n \<Longrightarrow> ni_ip n = row_ip r"
  by (auto simp: row_node_def split: sum.splits)

lemma run_stmt_Ok_iff:
  "run_stmt E s db f = Ok x \<longleftrightarrow> eng_fault E s = None \<and> (\<exists>rows. db = Some rows \<and> x = f rows)"
  by (auto simp: run_stmt_def split: option.splits)

lemma run_stmt_not_Panic [simp]: "run_stmt E s db f \<noteq> Panic p"
  by (simp add: run_stmt_def split: option.splits)

lemma store_lock_Ok_iff [simp]: "store_lock st = Ok db \<longleftrightarrow> \<not> ns_poisoned st \<and> db = ns_conn st"
  by (auto simp: store_lock_def)

lemma store_lock_not_Panic [simp]: "store_lock st \<noteq> Panic p"
  by (simp add: store_lock_def)

subsection \<open>Upsert\<close>

lemma sql_upsert_eq:
  "sql_upsert e rows =
     (if row_ip e \<in> row_ip ` set rows then map (\<lambda>r. if row_ip r = row_ip e then e else r) rows
      else rows @ [e])"
proof -
  have "r\<lparr>row_port := row_port e, row_labels := row_labels e, row_extra := row_extra e,
      row_updated_at := row_updated_at e\<rparr> = e" if "row_ip r = row_ip e" for r
    using that by (cases r; cases e) simp
  then have "map (\<lambda>r. if row_ip r = row_ip e
        then r\<lparr>row_port := row_port e, row_labels := row_labels e, row_extra := row_extra e,
               row_updated_at := row_updated_at e\<rparr> else r) rows =
      map (\<lambda>r. if row_ip r = row_ip e then e else r) rows"
    by (intro map_cong) auto
  moreover have "(\<exists>r \<in> set rows. row_ip r = row_ip e) \<longleftrightarrow> row_ip e \<in> row_ip ` set rows"
    by (metis (no_types) image_iff)
  ultimately show ?thesis by (simp only: sql_upsert_def)
qed

lemma sql_upsert_ips:
  "map row_ip (sql_upsert e rows) =
     (if row_ip e \<in> row_ip ` set rows then map row_ip rows else map row_ip rows @ [row_ip e])"
  by (auto simp: sql_upsert_eq)

lemma set_sql_upsert: "set (sql_upsert e rows) \<subseteq> insert e (set rows)"
  by (auto simp: sql_upsert_eq)

lemma map_of_sql_upsert:
  "map_of (map (\<lambda>r. (row_ip r, g r)) (sql_upsert e rows)) =
     (map_of (map (\<lambda>r. (row_ip r, g r)) rows))(row_ip e \<mapsto> g e)"
proof (cases "row_ip e \<in> row_ip ` set rows")
  case False
  have "map_of (map (\<lambda>r. (row_ip r, g r)) (rows @ [e])) ip =
      ((map_of (map (\<lambda>r. (row_ip r, g r)) rows))(row_ip e \<mapsto> g e)) ip" for ip
    using False by (induction rows) auto
  with False show ?thesis by (simp add: sql_upsert_eq fun_eq_iff)
next
  case True
  have "map_of (map (\<lambda>r. (row_ip r, g r)) (map (\<lambda>r. if row_ip r = row_ip e then e else r) rows)) ip =
      (if ip = row_ip e then (if row_ip e \<in> row_ip ` set rows then Some (g e) else None)
       else map_of (map (\<lambda>r. (row_ip r, g r)) rows) ip)" for ip
    by (induction rows) auto
  with True show ?thesis by (auto simp: sql_upsert_eq fun_eq_iff)
qed

lemma sql_delete_ips: "map row_ip (sql_delete ip rows) = filter (\<lambda>i. i \<noteq> ip) (map row_ip rows)"
  by (simp add: sql_delete_def filter_map comp_def)

lemma map_of_sql_delete:
  "map_of (map (\<lambda>r. (row_ip r, g r)) (sql_delete ip rows)) =
     (map_of (map (\<lambda>r. (row_ip r, g r)) rows))(ip := None)"
  by (induction rows) (auto simp: sql_delete_def)

lemma store_upsert_Ok:
  assumes "json_ok J" "store_upsert J E wall st node = Ok st'"
  obtains rows r where "ns_conn st = Some rows" "\<not> ns_poisoned st" "row_ip r = ni_ip node"
    "row_node J r = Some node" "st' = st\<lparr>ns_conn := Some (sql_upsert r rows)\<rparr>"
proof -
  from assms(2) obtain ls ex rows where
    1: "labels_to_string J (ni_labels node) = Inr ls" "extra_to_string J (ni_extra node) = Inr ex"
      "\<not> ns_poisoned st" "ns_conn st = Some rows"
    and 2: "st' = st\<lparr>ns_conn := Some (sql_upsert \<lparr>row_ip = ni_ip node, row_port = ucast (ni_port node),
        row_labels = ls, row_extra = ex, row_updated_at = now_secs wall\<rparr> rows)\<rparr>"
    by (auto simp: store_upsert_def Let_def run_stmt_Ok_iff)
  let ?r = "\<lparr>row_ip = ni_ip node, row_port = ucast (ni_port node) :: i64,
        row_labels = ls, row_extra = ex, row_updated_at = now_secs wall\<rparr>"
  have "ucast (ucast (ni_port node) :: i64) = ni_port node"
    by (rule bit_word_eqI) (auto simp: bit_simps)
  then have "row_node J ?r = Some node"
    using json_okD(1,2) [OF assms(1)] 1(1,2) by (simp add: row_node_def)
  then show thesis using 1 2 that [of rows ?r] by simp
qed

lemma store_upsert_law:
  assumes "json_ok J" "store_inv J st" "store_upsert J E wall st node = Ok st'"
  shows "store_inv J st' \<and> store_abs J st' = (store_abs J st)(ni_ip node \<mapsto> node)"
proof -
  from assms(1,3) obtain rows r where r: "ns_conn st = Some rows" "\<not> ns_poisoned st"
    "row_ip r = ni_ip node" "row_node J r = Some node"
    "st' = st\<lparr>ns_conn := Some (sql_upsert r rows)\<rparr>" by (rule store_upsert_Ok)
  have "distinct (map row_ip (sql_upsert r rows))"
    using assms(2) r(1) by (auto simp: sql_upsert_ips store_inv_def store_rows_def)
  moreover have "\<forall>r' \<in> set (sql_upsert r rows). row_node J r' \<noteq> None"
    using assms(2) r set_sql_upsert [of r rows] by (auto simp: store_inv_def store_rows_def)
  moreover have "store_abs J st' = (store_abs J st)(ni_ip node \<mapsto> node)"
    using r by (simp add: store_abs_def store_rows_def map_of_sql_upsert)
  ultimately show ?thesis using r by (simp add: store_inv_def store_rows_def)
qed

lemma store_upsert_succeeds:
  assumes "store_inv J st" "\<And>s. eng_fault E s = None"
    and "labels_to_string J (ni_labels node) = Inr ls" "extra_to_string J (ni_extra node) = Inr ex"
  shows "\<exists>st'. store_upsert J E wall st node = Ok st'"
  using assms by (auto simp: store_upsert_def store_inv_def run_stmt_Ok_iff Let_def)

subsection \<open>Remove\<close>

lemma store_remove_law:
  assumes "store_inv J st" "store_remove E st ip = Ok st'"
  shows "store_inv J st' \<and> store_abs J st' = (store_abs J st)(ip := None)"
proof -
  from assms(2) obtain rows where r: "ns_conn st = Some rows"
    "st' = st\<lparr>ns_conn := Some (sql_delete ip rows)\<rparr>"
    by (auto simp: store_remove_def run_stmt_Ok_iff)
  have "distinct (map row_ip (sql_delete ip rows))"
    using assms(1) r(1) by (simp add: sql_delete_ips store_inv_def store_rows_def)
  moreover have "set (sql_delete ip rows) \<subseteq> set rows" by (auto simp: sql_delete_def)
  ultimately show ?thesis
    using assms(1) r by (auto simp: store_inv_def store_rows_def store_abs_def map_of_sql_delete)
qed

subsection \<open>List\<close>

lemma collect_rows_Ok_iff:
  "collect_rows J E rows out = Ok ns \<longleftrightarrow>
     (\<forall>r \<in> set rows. eng_fault E (Sql_Step r) = None) \<and>
     (\<exists>ms. map (row_node J) rows = map Some ms \<and> ns = out @ ms)"
proof (induction rows arbitrary: out)
  case Nil
  then show ?case by auto
next
  case (Cons r rows)
  show ?case
    by (cases "labels_from_str J (row_labels r)"; cases "extra_from_str J (row_extra r)")
       (auto simp: Cons.IH row_node_def Cons_eq_map_conv split: option.splits)
qed

lemma collect_rows_not_Panic [simp]: "collect_rows J E rows out \<noteq> Panic p"
proof (induction rows arbitrary: out)
  case (Cons r rows)
  then show ?case
    by (cases "labels_from_str J (row_labels r)"; cases "extra_from_str J (row_extra r)")
       (auto split: option.splits)
qed simp

lemma store_list_all_rows:
  assumes "engine_ok E" "store_inv J st" "store_list_all J E st = Ok ns"
  shows "mset ns = mset (map (\<lambda>r. the (row_node J r)) (store_rows st))"
proof -
  from assms(3) obtain rows ms where 1: "ns_conn st = Some rows"
    "map (row_node J) (eng_order E rows) = map Some ms" "ns = ms"
    by (auto simp: store_list_all_def run_stmt_Ok_iff collect_rows_Ok_iff)
  have "ms = map (\<lambda>r. the (row_node J r)) (eng_order E rows)"
    using arg_cong [OF 1(2), of "map the"] by (simp add: comp_def)
  then have "mset ms = image_mset (\<lambda>r. the (row_node J r)) (mset (eng_order E rows))" by simp
  also have "mset (eng_order E rows) = mset rows" using assms(1) by (simp add: engine_ok_def)
  finally show ?thesis using 1 by (simp add: store_rows_def)
qed

lemma store_list_all_law:
  assumes "engine_ok E" "store_inv J st" "store_list_all J E st = Ok ns"
  shows "distinct (map ni_ip ns) \<and> set ns = ran (store_abs J st)"
proof -
  note m = store_list_all_rows [OF assms]
  let ?g = "\<lambda>r. the (row_node J r)"
  have ip: "ni_ip (?g r) = row_ip r" if "r \<in> set (store_rows st)" for r
    using that assms(2) row_node_ip by (fastforce simp: store_inv_def)
  have "mset (map ni_ip ns) = mset (map ni_ip (map ?g (store_rows st)))"
    using m by (simp only: mset_map)
  also have "map ni_ip (map ?g (store_rows st)) = map row_ip (store_rows st)"
    using ip by simp
  finally have "distinct (map ni_ip ns)"
    using assms(2) mset_eq_imp_distinct_iff unfolding store_inv_def by blast
  moreover have "set ns = ?g ` set (store_rows st)"
    using mset_eq_setD [OF m] by simp
  moreover have "ran (store_abs J st) = ?g ` set (store_rows st)"
    using assms(2) unfolding store_abs_def
    by (subst ran_distinct) (auto simp: store_inv_def comp_def image_image)
  ultimately show ?thesis by simp
qed

lemma store_list_all_succeeds:
  assumes "engine_ok E" "store_inv J st" "\<And>s. eng_fault E s = None"
  shows "\<exists>ns. store_list_all J E st = Ok ns"
proof -
  obtain rows where rows: "ns_conn st = Some rows" using assms(2) by (auto simp: store_inv_def)
  have "set (eng_order E rows) = set rows"
    using assms(1) by (auto simp: engine_ok_def dest: mset_eq_setD)
  then have "map (row_node J) (eng_order E rows) =
      map Some (map (\<lambda>r. the (row_node J r)) (eng_order E rows))"
    using assms(2) rows by (auto simp: store_inv_def store_rows_def)
  then have "\<exists>ms. map (row_node J) (eng_order E rows) = map Some ms" by (rule exI)
  then show ?thesis
    using assms rows
    by (simp add: store_list_all_def run_stmt_Ok_iff collect_rows_Ok_iff store_inv_def)
qed

lemma store_abs_ip:
  "store_inv J st \<Longrightarrow> store_abs J st ip = Some n \<Longrightarrow> ni_ip n = ip"
  unfolding store_abs_def store_inv_def
  by (auto dest!: map_of_SomeD simp: row_node_ip)

lemma store_not_Panic [simp]:
  "store_upsert J E wall st n \<noteq> Panic p" "store_remove E st ip \<noteq> Panic p"
  "store_list_all J E st \<noteq> Panic p" "store_list_by_labels J E st ls \<noteq> Panic p"
  by (auto simp: store_upsert_def store_remove_def store_list_all_def store_list_by_labels_def
      res_elims Let_def)


subsection \<open>Opening\<close>

lemma store_migrate_Ok_iff:
  "store_migrate E st = Ok st' \<longleftrightarrow>
     \<not> ns_poisoned st \<and> eng_fault E Sql_Create = None \<and>
     st' = st\<lparr>ns_conn := sql_create (ns_conn st)\<rparr>"
  by (auto simp: store_migrate_def split: option.splits)

lemma store_migrate_not_Panic [simp]: "store_migrate E st \<noteq> Panic p"
  by (auto simp: store_migrate_def res_elims split: option.splits)

lemma store_open_Ok_iff:
  "store_open E path = Ok st \<longleftrightarrow>
     (\<exists>db. eng_open E path = Inr db \<and> eng_fault E Sql_Create = None \<and>
        st = \<lparr>ns_conn = sql_create db, ns_poisoned = False\<rparr>)"
  unfolding store_open_def rbind_eq_Ok Let_def store_migrate_Ok_iff by simp

lemma store_open_in_memory_Ok_iff:
  "store_open_in_memory E = Ok st \<longleftrightarrow>
     eng_open_memory E = Inr () \<and> eng_fault E Sql_Create = None \<and>
     st = \<lparr>ns_conn = Some [], ns_poisoned = False\<rparr>"
  unfolding store_open_in_memory_def rbind_eq_Ok Let_def store_migrate_Ok_iff
  by (simp add: sql_create_def)

lemma store_open_not_Panic [simp]:
  "store_open E path \<noteq> Panic p" "store_open_in_memory E \<noteq> Panic p"
  by (simp_all add: store_open_def store_open_in_memory_def res_elims Let_def)

section \<open>The interface of the table\<close>

text \<open>
  What the registry relies on. The operations are partial (SQLite and serde can fail), so
  each law is about a call that returned.
\<close>

locale node_table =
  fixes jok :: "'j \<Rightarrow> bool" and eok :: "'eng \<Rightarrow> bool"
    and inv :: "'j \<Rightarrow> 'st \<Rightarrow> bool"
    and abs :: "'j \<Rightarrow> 'st \<Rightarrow> string \<Rightarrow> 'e node_info option"
    and upsert :: "'j \<Rightarrow> 'eng \<Rightarrow> int \<Rightarrow> 'st \<Rightarrow> 'e node_info \<Rightarrow> (store_error, 'st) res"
    and remove :: "'eng \<Rightarrow> 'st \<Rightarrow> string \<Rightarrow> (store_error, 'st) res"
    and list_rows :: "'j \<Rightarrow> 'eng \<Rightarrow> 'st \<Rightarrow> (store_error, 'e node_info list) res"
  assumes abs_ip: "inv j st \<Longrightarrow> abs j st ip = Some n \<Longrightarrow> ni_ip n = ip"
    and upsert_law: "jok j \<Longrightarrow> inv j st \<Longrightarrow> upsert j e t st n = Ok st' \<Longrightarrow>
       inv j st' \<and> abs j st' = (abs j st)(ni_ip n \<mapsto> n)"
    and remove_law: "inv j st \<Longrightarrow> remove e st ip = Ok st' \<Longrightarrow>
       inv j st' \<and> abs j st' = (abs j st)(ip := None)"
    and list_law: "eok e \<Longrightarrow> inv j st \<Longrightarrow> list_rows j e st = Ok ns \<Longrightarrow>
       distinct (map ni_ip ns) \<and> set ns = ran (abs j st)"
begin

lemma list_mem_iff:
  assumes "eok e" "inv j st" "list_rows j e st = Ok ns"
  shows "n \<in> set ns \<longleftrightarrow> abs j st (ni_ip n) = Some n"
  using list_law [OF assms] abs_ip [OF assms(2)] by (auto simp: ran_def)

lemma list_ips:
  assumes "eok e" "inv j st" "list_rows j e st = Ok ns"
  shows "ni_ip ` set ns = dom (abs j st)"
  using list_law [OF assms] abs_ip [OF assms(2)] by (force simp: ran_def dom_def image_def)

lemma upsert_then_list:
  assumes "jok j" "eok e" "inv j st" "upsert j e' t st n = Ok st'" "list_rows j e st' = Ok ns"
  shows "n \<in> set ns" "\<And>m. m \<in> set ns \<Longrightarrow> ni_ip m = ni_ip n \<Longrightarrow> m = n"
proof -
  note u = upsert_law [OF assms(1,3,4)]
  note l = list_mem_iff [OF assms(2) u [THEN conjunct1] assms(5)]
  show "n \<in> set ns" using l u by simp
  show "m = n" if "m \<in> set ns" "ni_ip m = ni_ip n" for m using that l u by simp
qed

lemma remove_then_list:
  assumes "eok e" "inv j st" "remove e' st ip = Ok st'" "list_rows j e st' = Ok ns"
  shows "ip \<notin> ni_ip ` set ns"
  using remove_law [OF assms(2,3)] list_ips [OF assms(1) _ assms(4)] by simp

end

interpretation ns: node_table json_ok engine_ok store_inv store_abs store_upsert store_remove
  store_list_all
proof
  fix j st ip n assume "store_inv j st" "store_abs j st ip = Some n"
  then show "ni_ip n = ip" by (rule store_abs_ip)
next
  fix j e t st n st'
  assume "json_ok j" "store_inv j st" "store_upsert j e t st n = Ok st'"
  then show "store_inv j st' \<and> store_abs j st' = (store_abs j st)(ni_ip n \<mapsto> n)"
    by (rule store_upsert_law)
next
  fix j st e ip st' assume "store_inv j st" "store_remove e st ip = Ok st'"
  then show "store_inv j st' \<and> store_abs j st' = (store_abs j st)(ip := None)"
    by (rule store_remove_law)
next
  fix e j st ns assume "engine_ok e" "store_inv j st" "store_list_all j e st = Ok ns"
  then show "distinct (map ni_ip ns) \<and> set ns = ran (store_abs j st)"
    by (rule store_list_all_law)
qed

section \<open>A sample engine\<close>

text \<open>An engine without faults that delivers rows in reverse order, for the witnesses.\<close>

definition sample_engine :: engine where
  "sample_engine = \<lparr>eng_open = (\<lambda>_. Inr None), eng_open_memory = Inr (),
     eng_fault = (\<lambda>_. None), eng_order = rev\<rparr>"

lemma sample_engine_ok [simp]: "engine_ok sample_engine"
  by (simp add: engine_ok_def sample_engine_def)

lemma sample_engine_fault [simp]: "eng_fault sample_engine s = None"
  by (simp add: sample_engine_def)

definition sample_node :: "nat node_info" where
  "sample_node = \<lparr>ni_ip = ''10.0.0.1'', ni_port = 9001, ni_labels = [''api'', ''v1''], ni_extra = 7\<rparr>"

definition empty_store :: node_store where
  "empty_store = \<lparr>ns_conn = Some [], ns_poisoned = False\<rparr>"

lemma empty_store_inv [simp]: "store_inv J empty_store" "store_abs J empty_store = Map.empty"
  by (simp_all add: store_inv_def empty_store_def store_rows_def store_abs_def)

lemma sample_upsert:
  "store_inv sample_json st \<Longrightarrow> \<exists>st'. store_upsert sample_json sample_engine wall st n = Ok st'"
  by (rule store_upsert_succeeds [OF _ sample_engine_fault]) (auto simp: sample_json_def)

section \<open>Properties\<close>

text \<open>
  C29: The table refines a map from IP to node: a successful upsert binds the node's IP to the
  node (replacing an earlier registration), a successful delete unbinds the IP, a listing has
  every bound node exactly once, and the table invariant is kept.
\<close>

theorem store_refines_map:
  assumes "json_ok J" and "engine_ok E" and "store_inv J st"
  shows "(store_upsert J E wall st n = Ok st1 \<longrightarrow>
            store_inv J st1 \<and> store_abs J st1 = (store_abs J st)(ni_ip n \<mapsto> n)) \<and>
         (store_remove E st ip = Ok st2 \<longrightarrow>
            store_inv J st2 \<and> store_abs J st2 = (store_abs J st)(ip := None)) \<and>
         (store_list_all J E st = Ok ns \<longrightarrow>
            distinct (map ni_ip ns) \<and> set ns = ran (store_abs J st))"
  using ns.upsert_law [OF assms(1,3)] ns.remove_law [OF assms(3)] ns.list_law [OF assms(2,3)]
  by blast

theorem store_refines_map_witness:
  "\<exists>st1 st2. store_upsert sample_json sample_engine 0 empty_store sample_node = Ok st1 \<and>
     store_abs sample_json st1 = [''10.0.0.1'' \<mapsto> sample_node] \<and>
     store_remove sample_engine st1 ''10.0.0.1'' = Ok st2 \<and> store_abs sample_json st2 = Map.empty"
proof -
  note r = store_refines_map [OF sample_json_ok sample_engine_ok]
  obtain st1 where 1: "store_upsert sample_json sample_engine 0 empty_store sample_node = Ok st1"
    using sample_upsert [OF empty_store_inv(1)] by blast
  with r [OF empty_store_inv(1), of 0 sample_node st1]
  have a1: "store_inv sample_json st1" "store_abs sample_json st1 = [''10.0.0.1'' \<mapsto> sample_node]"
    by (auto simp: sample_node_def)
  obtain st2 where 2: "store_remove sample_engine st1 ''10.0.0.1'' = Ok st2"
    using a1(1) by (auto simp: store_remove_def run_stmt_Ok_iff store_inv_def)
  with r [OF a1(1), where ip = "''10.0.0.1''" and ?st2.0 = st2] a1(2)
  have "store_abs sample_json st2 = Map.empty" by simp
  with 1 2 a1(2) show ?thesis by blast
qed

text \<open>
  A label query of the table returns exactly the registered nodes that carry every
  requested label (AND, not OR), each once.
\<close>

theorem list_by_labels_exact:
  assumes "engine_ok E" and "store_inv J st" and "store_list_by_labels J E st labels = Ok ns"
  shows "distinct (map ni_ip ns) \<and>
    (\<forall>n. n \<in> set ns \<longleftrightarrow>
       store_abs J st (ni_ip n) = Some n \<and> set labels \<subseteq> set (ni_labels n))"
proof -
  from assms(3) obtain all where l: "store_list_all J E st = Ok all"
    and ns: "ns = filter (has_labels labels) all"
    by (auto simp: store_list_by_labels_def)
  show ?thesis
    unfolding ns set_filter has_labels_def subset_eq
    using ns.list_law [OF assms(1,2) l] ns.list_mem_iff [OF assms(1,2) l]
    by (simp add: distinct_map_filter)
qed

theorem list_by_labels_exact_witness:
  "\<exists>st1 ns. store_upsert sample_json sample_engine 0 empty_store sample_node = Ok st1 \<and>
     store_list_by_labels sample_json sample_engine st1 [''v1''] = Ok ns \<and> sample_node \<in> set ns"
proof -
  obtain st1 where 1: "store_upsert sample_json sample_engine 0 empty_store sample_node = Ok st1"
    using sample_upsert [OF empty_store_inv(1)] by blast
  note u = ns.upsert_law [OF sample_json_ok empty_store_inv(1) 1]
  obtain all where "store_list_all sample_json sample_engine st1 = Ok all"
    using store_list_all_succeeds [OF sample_engine_ok _ sample_engine_fault] u by blast
  then obtain ns where 2: "store_list_by_labels sample_json sample_engine st1 [''v1''] = Ok ns"
    by (simp add: store_list_by_labels_def)
  have "sample_node \<in> set ns"
    using list_by_labels_exact [OF sample_engine_ok _ 2] u by (simp add: sample_node_def)
  with 1 2 show ?thesis by blast
qed

end
