(* ===== verification/Net_Addr.thy ===== *)
theory Net_Addr
  imports Prelude
begin

text \<open>
  Peer addresses: \<open>std::net::SocketAddr\<close> and the \<open>Display\<close> of its IP address, which
  \<open>src/dfinder/server.rs\<close> uses as the identity of a node. The rendering of the standard
  library is written out (dotted decimal for IPv4; for IPv6 the mapped form, and the longest
  run of zero groups abbreviated).
\<close>

datatype ip_addr = V4 u8 u8 u8 u8 | V6 "u16 list"

record socket_addr =
  sa_ip :: ip_addr
  sa_port :: u16

definition v4_to_string :: "u8 \<Rightarrow> u8 \<Rightarrow> u8 \<Rightarrow> u8 \<Rightarrow> string" where
  "v4_to_string a b c d =
     show_dec (unat a) @ ''.'' @ show_dec (unat b) @ ''.'' @ show_dec (unat c) @ ''.'' @
     show_dec (unat d)"

text \<open>The first longest run of zero groups, as start and length, by one pass over the groups.\<close>

fun longest_zeros :: "nat \<Rightarrow> nat \<times> nat \<Rightarrow> nat \<times> nat \<Rightarrow> u16 list \<Rightarrow> nat \<times> nat" where
  "longest_zeros i cur best [] = best"
| "longest_zeros i cur best (g # gs) =
     (if g = 0
      then let cur' = (if snd cur = 0 then i else fst cur, Suc (snd cur));
               best' = (if snd cur' > snd best then cur' else best)
           in longest_zeros (Suc i) cur' best' gs
      else longest_zeros (Suc i) (0, 0) best gs)"

fun groups_to_string :: "u16 list \<Rightarrow> string" where
  "groups_to_string [] = []"
| "groups_to_string [g] = digits_base 16 (unat g)"
| "groups_to_string (g # gs) = digits_base 16 (unat g) @ '':'' @ groups_to_string gs"

definition v6_to_string :: "u16 list \<Rightarrow> string" where
  "v6_to_string gs =
     (if length gs = 8 \<and> take 6 gs = [0, 0, 0, 0, 0, 65535]
      then ''::ffff:'' @
        v4_to_string (ucast (drop_bit 8 (gs ! 6))) (ucast (gs ! 6))
                     (ucast (drop_bit 8 (gs ! 7))) (ucast (gs ! 7))
      else let (start, len) = longest_zeros 0 (0, 0) (0, 0) gs in
        if len > 1
        then groups_to_string (take start gs) @ ''::'' @ groups_to_string (drop (start + len) gs)
        else groups_to_string gs)"

fun ip_to_string :: "ip_addr \<Rightarrow> string" where
  "ip_to_string (V4 a b c d) = v4_to_string a b c d"
| "ip_to_string (V6 gs) = v6_to_string gs"

text \<open>Two IPv4 peers have the same name only if they have the same address.\<close>

lemma digit_char_no_dot: "d < 16 \<Longrightarrow> digit_char d \<noteq> CHR ''.''"
proof -
  assume "d < 16"
  moreover have "\<forall>d\<in>set [0..<16]. digit_char d \<noteq> CHR ''.''" by code_simp
  ultimately show ?thesis by simp
qed

lemma digits_base_no_dot:
  assumes "2 \<le> b" "b \<le> 16"
  shows "CHR ''.'' \<notin> set (digits_base b n)"
proof (induction n rule: less_induct)
  case (less n)
  have "n mod b < 16" using assms mod_less_divisor [of b n] by linarith
  with less assms show ?case
    by (subst digits_base.simps) (auto dest: digit_char_no_dot [symmetric])
qed

lemma show_dec_no_dot: "CHR ''.'' \<notin> set (show_dec n)"
  by (simp add: show_dec_def digits_base_no_dot)

lemma split_at_dot:
  assumes "xs @ CHR ''.'' # ys = xs' @ CHR ''.'' # ys'"
    and "CHR ''.'' \<notin> set xs" and "CHR ''.'' \<notin> set xs'"
  shows "xs = xs' \<and> ys = ys'"
  using assms by (induction xs arbitrary: xs') (auto simp: Cons_eq_append_conv)

lemma v4_to_string_inject:
  assumes "v4_to_string a b c d = v4_to_string a' b' c' d'"
  shows "a = a' \<and> b = b' \<and> c = c' \<and> d = d'"
proof -
  note nd = show_dec_no_dot
  from assms have 1: "show_dec (unat a) @ CHR ''.'' # show_dec (unat b) @ CHR ''.'' # show_dec (unat c) @
      CHR ''.'' # show_dec (unat d) = show_dec (unat a') @ CHR ''.'' # show_dec (unat b') @ CHR ''.'' #
      show_dec (unat c') @ CHR ''.'' # show_dec (unat d')"
    by (simp add: v4_to_string_def)
  note s1 = split_at_dot [OF 1 nd nd]
  note s2 = split_at_dot [OF s1 [THEN conjunct2] nd nd]
  note s3 = split_at_dot [OF s2 [THEN conjunct2] nd nd]
  from s1 s2 s3 show ?thesis
    by (simp add: show_dec_inj word_unat_eq_iff)
qed

end
