(* ===== verification/Dfinder_Server.thy ===== *)
theory Dfinder_Server
  imports Frame_Channel Dfinder_Store Net_Addr
begin

text \<open>
  The registry, \<open>src/dfinder/server.rs\<close>: start-up, the two request handlers, dispatch, the
  connection handler and the health-probe cycle. \<open>inner\<close> is the state behind the RwLock.

  What a call gets from outside is the record \<open>world\<close>: serialisation, SQLite, the codec
  crates, the global key, random bytes and the two clocks (\<open>Instant\<close> in nanoseconds,
  \<open>SystemTime\<close> in nanoseconds relative to the epoch). The probe is an async closure of the
  user; \<open>probe\<close> is what it answers for each node during the cycle.
\<close>

section \<open>State\<close>

datatype server_error =
  SrvE_Io io_error | SrvE_Store store_error | SrvE_Json json_error | SrvE_Msg string

record server_config =
  cfg_listen :: socket_addr
  cfg_db_path :: "string option"
  cfg_probe_interval :: nat
  cfg_offline_ttl :: nat

record health_state =
  hs_healthy :: bool
  hs_last_ok :: nat

record inner =
  in_store :: node_store
  in_health :: "string \<Rightarrow> health_state option"
  in_offline_ttl :: nat

record server =
  sv_inner :: inner
  sv_listen :: socket_addr
  sv_probe_interval :: nat

record 'e world =
  w_json :: "'e json"
  w_sql :: engine
  w_codec :: codec
  w_key :: key_cell
  w_rng :: rng
  w_now :: nat
  w_wall :: int

definition world_ok :: "'e world \<Rightarrow> bool" where
  "world_ok W \<longleftrightarrow> json_ok (w_json W) \<and> engine_ok (w_sql W) \<and> codec_ok (w_codec W)"

section \<open>Start-up\<close>

definition df_server_new :: "'e world \<Rightarrow> server_config \<Rightarrow> (server_error, server) res" where
  "df_server_new W config =
     rbind (map_err SrvE_Store
       (case cfg_db_path config of
          Some path \<Rightarrow> store_open (w_sql W) path
        | None \<Rightarrow> store_open_in_memory (w_sql W))) (\<lambda>store.
     let now = w_now W in
     rbind (map_err SrvE_Store (store_list_all (w_json W) (w_sql W) store)) (\<lambda>nodes.
     let health = fold (\<lambda>node h. h(ni_ip node \<mapsto> \<lparr>hs_healthy = False, hs_last_ok = now\<rparr>))
                    nodes Map.empty in
     Ok \<lparr>sv_inner = \<lparr>in_store = store, in_health = health,
                      in_offline_ttl = cfg_offline_ttl config\<rparr>,
         sv_listen = cfg_listen config, sv_probe_interval = cfg_probe_interval config\<rparr>))"

section \<open>Requests\<close>

definition df_write_error :: "'e world \<Rightarrow> sink \<Rightarrow> u64 \<Rightarrow> string \<Rightarrow> (server_error, unit) res \<times> sink" where
  "df_write_error W s tx_id message =
     (case error_to_vec (w_json W) \<lparr>eb_message = message\<rparr> of
        Inl e \<Rightarrow> (Err (SrvE_Json e), s)
      | Inr body \<Rightarrow>
          sbind (smap_err SrvE_Io
            (write_frame_plain (w_codec W) (w_key W) (w_rng W) s MSG_ERROR tx_id body)) (\<lambda>_ s.
          (Ok (), s)))"

text \<open>A handler returns its result, the registry state and the connection's writer.\<close>

definition with_inner :: "inner \<Rightarrow> ('x, 'a) res \<times> sink \<Rightarrow> ('x, 'a) res \<times> inner \<times> sink" where
  "with_inner g p = (fst p, g, snd p)"

definition handle_register ::
  "'e world \<Rightarrow> socket_addr \<Rightarrow> frame \<Rightarrow> inner \<Rightarrow> sink \<Rightarrow> (server_error, unit) res \<times> inner \<times> sink" where
  "handle_register W peer f g s =
     (case register_from_slice (w_json W) (f_data f) of
        Inl e \<Rightarrow> (Err (SrvE_Json e), g, s)
      | Inr req \<Rightarrow>
          if rr_labels req = []
          then with_inner g (df_write_error W s (f_tx_id f) ''register requires >= 1 label'')
          else
            let ip = ip_to_string (sa_ip peer);
                node = \<lparr>ni_ip = ip, ni_port = rr_port req, ni_labels = rr_labels req,
                        ni_extra = rr_extra req\<rparr> in
            sbind (map_err SrvE_Store
                     (store_upsert (w_json W) (w_sql W) (w_wall W) (in_store g) node), g, s)
              (\<lambda>st (g, s).
            let g = g\<lparr>in_store := st,
                      in_health := (in_health g)(ip \<mapsto> \<lparr>hs_healthy = True, hs_last_ok = w_now W\<rparr>)\<rparr> in
            with_inner g (sbind (smap_err SrvE_Io
              (write_frame_plain (w_codec W) (w_key W) (w_rng W) s MSG_REGISTER_ACK (f_tx_id f)
                 [123, 125])) (\<lambda>_ s. (Ok (), s)))))"

definition node_healthy :: "inner \<Rightarrow> 'e node_info \<Rightarrow> bool" where
  "node_healthy g n = (case in_health g (ni_ip n) of None \<Rightarrow> False | Some h \<Rightarrow> hs_healthy h)"

definition handle_query ::
  "'e world \<Rightarrow> frame \<Rightarrow> inner \<Rightarrow> sink \<Rightarrow> (server_error, unit) res \<times> inner \<times> sink" where
  "handle_query W f g s =
     (case query_from_slice (w_json W) (f_data f) of
        Inl e \<Rightarrow> (Err (SrvE_Json e), g, s)
      | Inr req \<Rightarrow>
          if qr_labels req = []
          then with_inner g (df_write_error W s (f_tx_id f) ''query requires >= 1 label'')
          else
            sbind (map_err SrvE_Store
                     (store_list_by_labels (w_json W) (w_sql W) (in_store g) (qr_labels req)), g, s)
              (\<lambda>matched (g, s).
            let nodes = filter (node_healthy g) matched in
            (case result_to_vec (w_json W) \<lparr>qres_nodes = nodes\<rparr> of
               Inl e \<Rightarrow> (Err (SrvE_Json e), g, s)
             | Inr body \<Rightarrow>
                 with_inner g (sbind (smap_err SrvE_Io
                   (write_frame_plain (w_codec W) (w_key W) (w_rng W) s MSG_QUERY_RESULT (f_tx_id f)
                      body)) (\<lambda>_ s. (Ok (), s))))))"

definition is_dfinder_message :: "u8 \<Rightarrow> bool" where
  "is_dfinder_message message_type \<longleftrightarrow> message_type = MSG_REGISTER \<or> message_type = MSG_QUERY"

definition handle_frame ::
  "'e world \<Rightarrow> socket_addr \<Rightarrow> frame \<Rightarrow> inner \<Rightarrow> sink \<Rightarrow> (server_error, unit) res \<times> inner \<times> sink" where
  "handle_frame W peer f g s =
     (if f_message_type f = MSG_REGISTER then handle_register W peer f g s
      else if f_message_type f = MSG_QUERY then handle_query W f g s
      else with_inner g (df_write_error W s (f_tx_id f)
             (''unknown message_type '' @ show_dec (unat (f_message_type f)))))"

definition df_handle_conn ::
  "'e world \<Rightarrow> socket_addr \<Rightarrow> stream \<Rightarrow> inner \<Rightarrow> (server_error, unit) res \<times> inner \<times> sink" where
  "df_handle_conn W peer c g =
     sbind (map_err SrvE_Io (read_frame (w_codec W) (w_key W) (st_rd c)), g, st_wr c)
       (\<lambda>(f, r) (g, s). handle_frame W peer f g s)"

section \<open>The probe cycle\<close>

text \<open>
  One iteration of the probe loop under the write lock: the health entry is created when it
  is missing, and the node is put on the expiry list when it has been down for the ttl.
  \<open>duration_since\<close> saturates at zero, as subtraction on \<open>nat\<close> does.
\<close>

definition probe_one :: "nat \<Rightarrow> nat \<Rightarrow> string \<Rightarrow> bool \<Rightarrow> inner \<times> string list \<Rightarrow> inner \<times> string list" where
  "probe_one now offline_ttl ip ok gx =
     (let (g, expired) = gx;
          state = (case in_health g ip of
                     None \<Rightarrow> \<lparr>hs_healthy = False, hs_last_ok = now\<rparr>
                   | Some h \<Rightarrow> h) in
      if ok
      then (g\<lparr>in_health := (in_health g)(ip \<mapsto> state\<lparr>hs_healthy := True, hs_last_ok := now\<rparr>)\<rparr>,
            expired)
      else (g\<lparr>in_health := (in_health g)(ip \<mapsto> state\<lparr>hs_healthy := False\<rparr>)\<rparr>,
            if now - hs_last_ok state \<ge> offline_ttl then expired @ [ip] else expired))"

fun probe_nodes ::
  "('e node_info \<Rightarrow> bool) \<Rightarrow> nat \<Rightarrow> nat \<Rightarrow> 'e node_info list \<Rightarrow> inner \<times> string list \<Rightarrow> inner \<times> string list" where
  "probe_nodes probe now offline_ttl [] gx = gx"
| "probe_nodes probe now offline_ttl (node # nodes) gx =
     probe_nodes probe now offline_ttl nodes
       (probe_one now offline_ttl (ni_ip node) (probe node) gx)"

fun remove_expired :: "engine \<Rightarrow> string list \<Rightarrow> inner \<Rightarrow> (server_error, unit) res \<times> inner" where
  "remove_expired E [] g = (Ok (), g)"
| "remove_expired E (ip # expired) g =
     sbind (map_err SrvE_Store (store_remove E (in_store g) ip), g) (\<lambda>st g.
     remove_expired E expired (g\<lparr>in_store := st, in_health := (in_health g)(ip := None)\<rparr>))"

definition run_probe_cycle ::
  "'e world \<Rightarrow> ('e node_info \<Rightarrow> bool) \<Rightarrow> inner \<Rightarrow> (server_error, unit) res \<times> inner" where
  "run_probe_cycle W probe g =
     sbind (map_err SrvE_Store (store_list_all (w_json W) (w_sql W) (in_store g)), g) (\<lambda>nodes g.
     let offline_ttl = in_offline_ttl g;
         now = w_now W;
         (g, expired) = probe_nodes probe now offline_ttl nodes (g, []) in
     if expired \<noteq> [] then remove_expired (w_sql W) expired g
     else (Ok (), g))"

text \<open>
  The probe task: one cycle per tick of the interval, the error of a cycle only printed. Each
  tick brings its own clock and answers of the probes.
\<close>

fun spawn_probe :: "('e world \<times> ('e node_info \<Rightarrow> bool)) list \<Rightarrow> inner \<Rightarrow> inner" where
  "spawn_probe [] g = g"
| "spawn_probe ((W, probe) # ticks) g = spawn_probe ticks (snd (run_probe_cycle W probe g))"

section \<open>Invariant\<close>

text \<open>
  The health map has an entry exactly for the nodes of the table, so no node is ever
  answered without a health record and no record outlives its node.
\<close>

definition server_inv :: "'e json \<Rightarrow> inner \<Rightarrow> bool" where
  "server_inv J g \<longleftrightarrow>
     store_inv J (in_store g) \<and> dom (in_health g) = dom (store_abs J (in_store g))"

lemma world_okD:
  assumes "world_ok W"
  shows "json_ok (w_json W)" "engine_ok (w_sql W)" "codec_ok (w_codec W)"
  using assms by (simp_all add: world_ok_def)

subsection \<open>Start-up\<close>

lemma fold_health:
  "fold (\<lambda>node h. h(ni_ip node \<mapsto> x)) nodes m =
     (\<lambda>ip. if ip \<in> ni_ip ` set nodes then Some x else m ip)"
  by (induction nodes arbitrary: m) (auto simp: fun_eq_iff)

lemma store_list_all_inv:
  assumes "engine_ok E" "store_list_all J E st = Ok ns" "distinct (map row_ip (store_rows st))"
  shows "store_inv J st"
proof -
  from assms(2) obtain rows ms where 1: "\<not> ns_poisoned st" "ns_conn st = Some rows"
    "map (row_node J) (eng_order E rows) = map Some ms"
    by (auto simp: store_list_all_def run_stmt_Ok_iff collect_rows_Ok_iff)
  have "set (eng_order E rows) = set rows"
    using assms(1) by (auto simp: engine_ok_def dest: mset_eq_setD)
  moreover have "row_node J r \<noteq> None" if "r \<in> set (eng_order E rows)" for r
    using that arg_cong [OF 1(3), of set] by (auto simp: image_iff)
  ultimately show ?thesis using 1 assms(3) by (simp add: store_inv_def store_rows_def)
qed

lemma opened_distinct:
  assumes "engine_ok E"
    and "(case path of Some p \<Rightarrow> store_open E p | None \<Rightarrow> store_open_in_memory E) = Ok st"
  shows "distinct (map row_ip (store_rows st))"
  using assms
  by (auto simp: store_open_Ok_iff store_open_in_memory_Ok_iff store_rows_def sql_create_def
      engine_ok_def split: option.splits)

lemma df_server_new_Ok:
  assumes "world_ok W" "df_server_new W config = Ok sv"
  shows "server_inv (w_json W) (sv_inner sv) \<and>
    (\<forall>ip h. in_health (sv_inner sv) ip = Some h \<longrightarrow> h = \<lparr>hs_healthy = False, hs_last_ok = w_now W\<rparr>) \<and>
    in_offline_ttl (sv_inner sv) = cfg_offline_ttl config"
proof -
  note w = world_okD [OF assms(1)]
  from assms(2) obtain st nodes where
    st: "(case cfg_db_path config of Some p \<Rightarrow> store_open (w_sql W) p
          | None \<Rightarrow> store_open_in_memory (w_sql W)) = Ok st"
    and l: "store_list_all (w_json W) (w_sql W) st = Ok nodes"
    and sv: "sv_inner sv = \<lparr>in_store = st,
      in_health = fold (\<lambda>node h. h(ni_ip node \<mapsto> \<lparr>hs_healthy = False, hs_last_ok = w_now W\<rparr>))
         nodes Map.empty, in_offline_ttl = cfg_offline_ttl config\<rparr>"
    by (auto simp: df_server_new_def Let_def)
  have i: "store_inv (w_json W) st"
    by (rule store_list_all_inv [OF w(2) l opened_distinct [OF w(2) st]])
  have "dom (in_health (sv_inner sv)) = ni_ip ` set nodes"
    by (auto simp: sv fold_health dom_def)
  then show ?thesis
    using ns.list_ips [OF w(2) i l] i by (auto simp: server_inv_def sv fold_health)
qed

subsection \<open>Handlers\<close>

lemma df_write_error_good:
  assumes "sink_good s"
  shows "df_write_error W s tx m =
     (case error_to_vec (w_json W) \<lparr>eb_message = m\<rparr> of
        Inl e \<Rightarrow> (Err (SrvE_Json e), s)
      | Inr body \<Rightarrow>
          if length body \<le> u16_MAX then (Ok (), put_plain MSG_ERROR tx body s)
          else (Err (SrvE_Io (Io_Error InvalidInput ''payload length exceeds u16::MAX'')), s))"
  using assms by (simp add: df_write_error_def write_frame_plain_good dfinder_msgs split: sum.splits)

lemma with_inner_inner [simp]: "fst (snd (with_inner g p)) = g" "with_inner g (r, s) = (r, g, s)"
  by (simp_all add: with_inner_def)

text \<open>What a registration does, in terms of the table it found and the map it leaves.\<close>

definition registered_node :: "socket_addr \<Rightarrow> 'e register_request \<Rightarrow> 'e node_info" where
  "registered_node peer req =
     \<lparr>ni_ip = ip_to_string (sa_ip peer), ni_port = rr_port req, ni_labels = rr_labels req,
      ni_extra = rr_extra req\<rparr>"

lemma registered_node_ip [simp]:
  "ni_ip (registered_node peer req) = ip_to_string (sa_ip peer)"
  "ni_labels (registered_node peer req) = rr_labels req"
  by (simp_all add: registered_node_def)

definition registered :: "'e world \<Rightarrow> string \<Rightarrow> node_store \<Rightarrow> inner \<Rightarrow> inner" where
  "registered W ip st g =
     g\<lparr>in_store := st,
       in_health := (in_health g)(ip \<mapsto> \<lparr>hs_healthy = True, hs_last_ok = w_now W\<rparr>)\<rparr>"

lemma registered_simps [simp]:
  "in_store (registered W ip st g) = st"
  "in_health (registered W ip st g) =
     (in_health g)(ip \<mapsto> \<lparr>hs_healthy = True, hs_last_ok = w_now W\<rparr>)"
  "in_offline_ttl (registered W ip st g) = in_offline_ttl g"
  by (simp_all add: registered_def)

lemma handle_register_eq:
  assumes "register_from_slice (w_json W) (f_data f) = Inr req" "rr_labels req \<noteq> []"
  shows "handle_register W peer f g s =
     (case store_upsert (w_json W) (w_sql W) (w_wall W) (in_store g) (registered_node peer req) of
        Ok st \<Rightarrow>
          with_inner (registered W (ip_to_string (sa_ip peer)) st g)
            (smap_err SrvE_Io (write_frame_plain (w_codec W) (w_key W) (w_rng W) s
               MSG_REGISTER_ACK (f_tx_id f) [123, 125]))
      | Err e \<Rightarrow> (Err (SrvE_Store e), g, s)
      | Panic p \<Rightarrow> (Panic p, g, s))"
  using assms unfolding handle_register_def registered_node_def registered_def Let_def
  by (simp split: res.splits)

lemma register_keeps_inv:
  assumes "world_ok W" "server_inv (w_json W) g"
    and "store_upsert (w_json W) (w_sql W) (w_wall W) (in_store g) n = Ok st"
  shows "server_inv (w_json W) (registered W (ni_ip n) st g)"
  using ns.upsert_law [OF world_okD(1) [OF assms(1)] _ assms(3)] assms(2)
  by (simp add: server_inv_def)

lemma handle_query_eq:
  assumes "query_from_slice (w_json W) (f_data f) = Inr req" "qr_labels req \<noteq> []"
  shows "handle_query W f g s =
     (case store_list_by_labels (w_json W) (w_sql W) (in_store g) (qr_labels req) of
        Ok matched \<Rightarrow>
          (case result_to_vec (w_json W) \<lparr>qres_nodes = filter (node_healthy g) matched\<rparr> of
             Inl e \<Rightarrow> (Err (SrvE_Json e), g, s)
           | Inr body \<Rightarrow> with_inner g (smap_err SrvE_Io
               (write_frame_plain (w_codec W) (w_key W) (w_rng W) s MSG_QUERY_RESULT (f_tx_id f) body)))
      | Err e \<Rightarrow> (Err (SrvE_Store e), g, s)
      | Panic p \<Rightarrow> (Panic p, g, s))"
  using assms unfolding handle_query_def Let_def
  by (simp split: res.splits sum.splits)

lemma handle_query_inner [simp]: "fst (snd (handle_query W f g s)) = g"
proof (cases "\<exists>req. query_from_slice (w_json W) (f_data f) = Inr req \<and> qr_labels req \<noteq> []")
  case True
  then obtain req where "query_from_slice (w_json W) (f_data f) = Inr req" "qr_labels req \<noteq> []"
    by blast
  from handle_query_eq [OF this] show ?thesis by (simp split: res.splits sum.splits)
next
  case False
  then show ?thesis by (auto simp: handle_query_def split: sum.splits)
qed

text \<open>A request is a registration that reached the table, or it leaves the registry alone.\<close>

lemma handle_frame_cases:
  obtains "fst (snd (handle_frame W peer f g s)) = g"
  | req st where "f_message_type f = MSG_REGISTER"
      "register_from_slice (w_json W) (f_data f) = Inr req" "rr_labels req \<noteq> []"
      "store_upsert (w_json W) (w_sql W) (w_wall W) (in_store g) (registered_node peer req) = Ok st"
      "fst (snd (handle_frame W peer f g s)) = registered W (ip_to_string (sa_ip peer)) st g"
proof (cases "f_message_type f = MSG_REGISTER \<and>
    (\<exists>req. register_from_slice (w_json W) (f_data f) = Inr req \<and> rr_labels req \<noteq> [])")
  case True
  then obtain req where r: "f_message_type f = MSG_REGISTER"
    "register_from_slice (w_json W) (f_data f) = Inr req" "rr_labels req \<noteq> []" by blast
  note eq = handle_register_eq [OF r(2,3), of peer g s]
  show thesis
  proof (cases "store_upsert (w_json W) (w_sql W) (w_wall W) (in_store g) (registered_node peer req)")
    case (Ok st)
    with eq r show thesis by (intro that(2) [OF r Ok]) (simp add: handle_frame_def)
  qed (use eq r in \<open>auto simp: handle_frame_def intro: that(1)\<close>)
next
  case False
  then show thesis
    by (intro that(1)) (auto simp: handle_frame_def handle_register_def split: sum.splits)
qed

lemma handle_frame_inv:
  assumes "world_ok W" "server_inv (w_json W) g"
  shows "server_inv (w_json W) (fst (snd (handle_frame W peer f g s)))"
  by (rule handle_frame_cases [of W peer f g s])
     (use assms register_keeps_inv [OF assms, of "registered_node peer _"] in simp_all)

lemma df_handle_conn_inner:
  "fst (snd (df_handle_conn W peer c g)) =
     (case read_frame (w_codec W) (w_key W) (st_rd c) of
        Ok (f, r) \<Rightarrow> fst (snd (handle_frame W peer f g (st_wr c)))
      | _ \<Rightarrow> g)"
  by (simp add: df_handle_conn_def split: res.splits prod.splits)

lemma df_handle_conn_inv:
  assumes "world_ok W" "server_inv (w_json W) g"
  shows "server_inv (w_json W) (fst (snd (df_handle_conn W peer c g)))"
  using handle_frame_inv [OF assms] assms(2) by (simp add: df_handle_conn_inner split: res.splits prod.splits)


subsection \<open>Panics\<close>

lemma with_inner_fst [simp]: "fst (with_inner g p) = fst p"
  by (simp add: with_inner_def)

lemma smap_err_not_Panic [simp]: "fst (smap_err h p) \<noteq> Panic m \<longleftrightarrow> fst p \<noteq> Panic m"
  by (simp add: smap_err_def)

lemma df_write_error_not_Panic [simp]: "fst (df_write_error W s tx m) \<noteq> Panic p"
  by (simp add: df_write_error_def split: sum.splits)

lemma handle_frame_not_Panic: "fst (handle_frame W peer f g s) \<noteq> Panic p"
proof -
  have "fst (handle_register W peer f g s) \<noteq> Panic p"
  proof (cases "\<exists>req. register_from_slice (w_json W) (f_data f) = Inr req \<and> rr_labels req \<noteq> []")
    case True
    then obtain req where r: "register_from_slice (w_json W) (f_data f) = Inr req" "rr_labels req \<noteq> []"
      by blast
    then show ?thesis by (simp add: handle_register_eq [OF r] split: res.splits)
  qed (auto simp: handle_register_def split: sum.splits)
  moreover have "fst (handle_query W f g s) \<noteq> Panic p"
  proof (cases "\<exists>req. query_from_slice (w_json W) (f_data f) = Inr req \<and> qr_labels req \<noteq> []")
    case True
    then obtain req where r: "query_from_slice (w_json W) (f_data f) = Inr req" "qr_labels req \<noteq> []"
      by blast
    then show ?thesis by (simp add: handle_query_eq [OF r] split: res.splits sum.splits)
  qed (auto simp: handle_query_def split: sum.splits)
  ultimately show ?thesis by (simp add: handle_frame_def)
qed

section \<open>A sample registry\<close>

definition sample_world :: "nat world" where
  "sample_world = \<lparr>w_json = sample_json, w_sql = sample_engine, w_codec = sample_codec,
     w_key = None, w_rng = (\<lambda>_. 0), w_now = 1000, w_wall = 0\<rparr>"

lemma sample_world_simps [simp]:
  "w_json sample_world = sample_json" "w_sql sample_world = sample_engine"
  "w_codec sample_world = sample_codec" "w_key sample_world = None" "w_now sample_world = 1000"
  "world_ok sample_world"
  by (simp_all add: sample_world_def world_ok_def sample_json_ok sample_codec_ok)

definition sample_peer :: socket_addr where
  "sample_peer = \<lparr>sa_ip = V4 10 0 0 1, sa_port = 40000\<rparr>"

definition empty_inner :: inner where
  "empty_inner = \<lparr>in_store = empty_store, in_health = Map.empty, in_offline_ttl = 30\<rparr>"

lemma empty_inner_inv [simp]:
  "server_inv J empty_inner" "in_store empty_inner = empty_store" "in_health empty_inner = Map.empty"
  "in_offline_ttl empty_inner = 30"
  by (simp_all add: server_inv_def empty_inner_def)

definition sample_register :: "nat register_request" where
  "sample_register = \<lparr>rr_port = 3, rr_labels = [''api''], rr_extra = 7\<rparr>"

definition sample_register_frame :: frame where
  "sample_register_frame =
     plain_frame MSG_REGISTER 5
       (case register_to_vec sample_json sample_register of Inr b \<Rightarrow> b | Inl _ \<Rightarrow> [])"

lemma sample_register_frame_simps [simp]:
  "f_message_type sample_register_frame = MSG_REGISTER" "f_tx_id sample_register_frame = 5"
  "register_from_slice sample_json (f_data sample_register_frame) = Inr sample_register"
  "rr_labels sample_register = [''api'']"
proof -
  obtain b where b: "register_to_vec sample_json sample_register = Inr b"
    by (simp add: sample_json_def)
  then show "register_from_slice sample_json (f_data sample_register_frame) = Inr sample_register"
    using json_okD(3) [OF sample_json_ok] by (simp add: sample_register_frame_def)
qed (simp_all add: sample_register_frame_def sample_register_def)

definition sample_query_frame :: frame where
  "sample_query_frame =
     plain_frame MSG_QUERY 6
       (case query_to_vec sample_json \<lparr>qr_labels = [''api'']\<rparr> of Inr b \<Rightarrow> b | Inl _ \<Rightarrow> [])"

lemma sample_query_frame_simps [simp]:
  "f_message_type sample_query_frame = MSG_QUERY" "f_tx_id sample_query_frame = 6"
  "query_from_slice sample_json (f_data sample_query_frame) = Inr \<lparr>qr_labels = [''api'']\<rparr>"
proof -
  obtain b where b: "query_to_vec sample_json \<lparr>qr_labels = [''api'']\<rparr> = Inr b"
    by (simp add: sample_json_def)
  then show "query_from_slice sample_json (f_data sample_query_frame) = Inr \<lparr>qr_labels = [''api'']\<rparr>"
    using json_okD(4) [OF sample_json_ok] by (simp add: sample_query_frame_def)
qed (simp_all add: sample_query_frame_def)

lemma sample_ip [simp]: "v4_to_string 10 0 0 1 = ''10.0.0.1''"
  by code_simp

text \<open>The state after the sample registration.\<close>

lemma sample_registered:
  obtains st where
    "store_upsert sample_json sample_engine 0 empty_store (registered_node sample_peer sample_register) = Ok st"
    "store_inv sample_json st"
    "store_abs sample_json st = [''10.0.0.1'' \<mapsto> registered_node sample_peer sample_register]"
    "server_inv sample_json (registered sample_world (''10.0.0.1'') st empty_inner)"
proof -
  obtain st where st: "store_upsert sample_json sample_engine 0 empty_store
      (registered_node sample_peer sample_register) = Ok st"
    using sample_upsert [OF empty_store_inv(1)] by blast
  moreover note ns.upsert_law [OF sample_json_ok empty_store_inv(1) st]
  ultimately show thesis using that by (simp add: sample_peer_def server_inv_def)
qed

lemma list_single:
  assumes "engine_ok E" "store_inv J st" "store_abs J st = [ip \<mapsto> n]" "store_list_all J E st = Ok all"
  shows "all = [n]"
proof -
  have "set all = {n}" "distinct all"
    using ns.list_law [OF assms(1,2,4)] assms(3) by (auto simp: distinct_map)
  then show ?thesis
    by (metis distinct_length_2_or_more length_0_conv list.exhaust list.set_intros(1,2) singletonD
        insert_not_empty set_empty)
qed

section \<open>Properties\<close>

text \<open>
  C21: A registration with at least one label either fails with a store error and changes
  nothing, or binds the peer's IP to the announced node, healthy as of now, and changes nothing
  else. In the second case the result is that of sending the ACK with the transaction id of
  the request: success when it went out whole, and on a connection that breaks an I/O error
  after a part of it, although the node is registered.
\<close>

theorem register_effect:
  assumes "world_ok W" and "server_inv (w_json W) g"
    and "f_message_type f = MSG_REGISTER"
    and "register_from_slice (w_json W) (f_data f) = Inr req" and "rr_labels req \<noteq> []"
    and "handle_frame W peer f g s = (r, g', s')"
    and "ack = wire (push_bit 3 MSG_REGISTER_ACK) (f_tx_id f) [123, 125]"
  shows "(\<exists>e. r = Err (SrvE_Store e) \<and> g' = g \<and> s' = s) \<or>
    (server_inv (w_json W) g' \<and>
     store_abs (w_json W) (in_store g') =
       (store_abs (w_json W) (in_store g))(ip_to_string (sa_ip peer) \<mapsto> registered_node peer req) \<and>
     in_health g' = (in_health g)(ip_to_string (sa_ip peer) \<mapsto>
       \<lparr>hs_healthy = True, hs_last_ok = w_now W\<rparr>) \<and>
     in_offline_ttl g' = in_offline_ttl g \<and>
     (r = Ok () \<and> sk_out s' = sk_out s @ ack \<or>
      (\<exists>e n. r = Err (SrvE_Io e) \<and> \<not> sink_good s \<and> sk_out s' = sk_out s @ take n ack)))"
proof -
  have h: "handle_register W peer f g s = (r, g', s')"
    using assms(3,6) by (simp add: handle_frame_def)
  note eq = handle_register_eq [OF assms(4,5), of peer g s, unfolded h]
  show ?thesis
  proof (cases "store_upsert (w_json W) (w_sql W) (w_wall W) (in_store g) (registered_node peer req)")
    case (Ok st)
    have i: "server_inv (w_json W) (registered W (ip_to_string (sa_ip peer)) st g)"
      using register_keeps_inv [OF assms(1,2) Ok] by simp
    have abs: "store_abs (w_json W) st = (store_abs (w_json W) (in_store g))
        (ip_to_string (sa_ip peer) \<mapsto> registered_node peer req)"
      using ns.upsert_law [OF world_okD(1) [OF assms(1)] _ Ok] assms(2) by (simp add: server_inv_def)
    obtain q sq where q: "write_frame_plain (w_codec W) (w_key W) (w_rng W) s MSG_REGISTER_ACK (f_tx_id f) [123, 125] = (q, sq)"
      by (metis surj_pair)
    have "g' = registered W (ip_to_string (sa_ip peer)) st g" "r = map_err SrvE_Io q" "s' = sq"
      using eq Ok q by (simp_all add: smap_err_def)
    moreover have "(q = Ok () \<and> sk_out sq = sk_out s @ ack) \<or>
        (\<exists>e n. q = Err e \<and> \<not> sink_good s \<and> sk_out sq = sk_out s @ take n ack)"
      unfolding assms(7) by (rule plain_write_outcome [OF q]) (simp_all add: dfinder_msgs u16_MAX_def)
    ultimately show ?thesis using i abs by auto
  qed (use eq in simp_all)
qed

theorem register_effect_witness:
  "\<exists>g' s'. handle_frame sample_world sample_peer sample_register_frame empty_inner (open_sink eof) =
       (Ok (), g', s') \<and>
     node_healthy g' (registered_node sample_peer sample_register) \<and>
     sk_out s' = wire 16 5 [123, 125]"
proof -
  obtain r g' s' where h: "handle_frame sample_world sample_peer sample_register_frame empty_inner
      (open_sink eof) = (r, g', s')" by (metis prod_cases3)
  obtain st where "store_upsert sample_json sample_engine 0 empty_store
      (registered_node sample_peer sample_register) = Ok st" by (rule sample_registered)
  then have "r \<noteq> Err (SrvE_Store e)" for e
    using h handle_register_eq [of sample_world sample_register_frame sample_register sample_peer
        empty_inner "open_sink eof"]
    by (auto simp: handle_frame_def write_frame_plain_good dfinder_msgs u16_MAX_def sample_world_def)
  moreover have "world_ok sample_world" "server_inv (w_json sample_world) empty_inner"
    "f_message_type sample_register_frame = MSG_REGISTER"
    "register_from_slice (w_json sample_world) (f_data sample_register_frame) = Inr sample_register"
    "rr_labels sample_register \<noteq> []" by simp_all
  note register_effect [OF this h refl]
  ultimately show ?thesis
    using h by (auto simp: node_healthy_def dfinder_msgs)
qed

text \<open>
  C20: A query that is answered leaves the registry as it is and reports exactly the
  registered nodes that are healthy and carry every requested label, each once, in a
  result frame with the transaction id of the query.
\<close>

theorem query_exact:
  assumes "world_ok W" and "server_inv (w_json W) g" and "sink_good s"
    and "f_message_type f = MSG_QUERY"
    and "query_from_slice (w_json W) (f_data f) = Inr req" and "qr_labels req \<noteq> []"
    and "handle_frame W peer f g s = (Ok (), g', s')"
  shows "g' = g \<and>
    (\<exists>nodes body. s' = put_plain MSG_QUERY_RESULT (f_tx_id f) body s \<and> length body \<le> u16_MAX \<and>
       result_from_slice (w_json W) body = Inr \<lparr>qres_nodes = nodes\<rparr> \<and> distinct (map ni_ip nodes) \<and>
       (\<forall>n. n \<in> set nodes \<longleftrightarrow> store_abs (w_json W) (in_store g) (ni_ip n) = Some n \<and>
          node_healthy g n \<and> set (qr_labels req) \<subseteq> set (ni_labels n)))"
proof -
  note w = world_okD [OF assms(1)]
  have i: "store_inv (w_json W) (in_store g)" using assms(2) by (simp add: server_inv_def)
  have "handle_query W f g s = (Ok (), g', s')"
    using assms(4,7) by (simp add: handle_frame_def dfinder_msgs)
  with handle_query_eq [OF assms(5,6), of g s] obtain all body where
    l: "store_list_all (w_json W) (w_sql W) (in_store g) = Ok all"
    and b: "result_to_vec (w_json W)
        \<lparr>qres_nodes = filter (node_healthy g) (filter (has_labels (qr_labels req)) all)\<rparr> = Inr body"
    and o: "g' = g" "length body \<le> u16_MAX" "s' = put_plain MSG_QUERY_RESULT (f_tx_id f) body s"
    using assms(3)
    by (auto simp: store_list_by_labels_def write_frame_plain_good dfinder_msgs
        split: res.splits sum.splits if_splits)
  let ?ns = "filter (node_healthy g) (filter (has_labels (qr_labels req)) all)"
  have "distinct (map ni_ip ?ns)"
    using ns.list_law [OF w(2) i l] by (simp add: distinct_map_filter)
  moreover have "n \<in> set ?ns \<longleftrightarrow> store_abs (w_json W) (in_store g) (ni_ip n) = Some n \<and>
      node_healthy g n \<and> set (qr_labels req) \<subseteq> set (ni_labels n)" for n
    unfolding set_filter using ns.list_mem_iff [OF w(2) i l] by (auto simp: has_labels_def)
  ultimately show ?thesis
    using o json_okD(5) [OF w(1) b] by blast
qed

theorem query_exact_witness:
  "\<exists>st s' body nodes. handle_frame sample_world sample_peer sample_query_frame
       (registered sample_world ''10.0.0.1'' st empty_inner) (open_sink eof) =
       (Ok (), registered sample_world ''10.0.0.1'' st empty_inner, s') \<and>
     s' = put_plain MSG_QUERY_RESULT 6 body (open_sink eof) \<and>
     result_from_slice sample_json body = Inr \<lparr>qres_nodes = nodes\<rparr> \<and>
     registered_node sample_peer sample_register \<in> set nodes"
proof -
  let ?n = "registered_node sample_peer sample_register"
  obtain st where st: "store_inv sample_json st" "store_abs sample_json st = [''10.0.0.1'' \<mapsto> ?n]"
    and inv: "server_inv sample_json (registered sample_world ''10.0.0.1'' st empty_inner)"
    by (rule sample_registered) simp
  obtain all where l: "store_list_all sample_json sample_engine st = Ok all"
    using store_list_all_succeeds [OF sample_engine_ok st(1) sample_engine_fault] by blast
  let ?g = "registered sample_world ''10.0.0.1'' st empty_inner"
  have all: "all = [?n]" by (rule list_single [OF sample_engine_ok st l])
  have n: "node_healthy ?g ?n" "has_labels [''api''] ?n"
    by (simp_all add: node_healthy_def sample_peer_def has_labels_def)
  obtain body where b: "result_to_vec sample_json \<lparr>qres_nodes = [?n]\<rparr> = Inr body" "length body \<le> u16_MAX"
    by (simp add: sample_json_def put_list_def put_nat_def put_node_def put_str_def to_vec_def
        registered_node_def sample_peer_def sample_register_def u16_MAX_def)
  have h: "handle_frame sample_world sample_peer sample_query_frame ?g (open_sink eof) =
      (Ok (), ?g, put_plain MSG_QUERY_RESULT 6 body (open_sink eof))"
    using handle_query_eq [of sample_world sample_query_frame "\<lparr>qr_labels = [''api'']\<rparr>" ?g "open_sink eof"]
      n b by (simp add: handle_frame_def store_list_by_labels_def l all write_frame_plain_good dfinder_msgs)
  have "qr_labels \<lparr>qr_labels = [''api'']\<rparr> \<noteq> []" "world_ok sample_world" "sink_good (open_sink eof)" by simp_all
  from query_exact [OF this(2) _ this(3) _ _ this(1) h] inv
  obtain nodes body' where q: "put_plain MSG_QUERY_RESULT 6 body (open_sink eof) =
      put_plain MSG_QUERY_RESULT 6 body' (open_sink eof)"
    "result_from_slice sample_json body' = Inr \<lparr>qres_nodes = nodes\<rparr>" "?n \<in> set nodes"
    using st n by (auto simp: has_labels_def sample_peer_def)
  with h show ?thesis by metis
qed

text \<open>
  A registration or query without labels, and a frame of any other message type, is
  answered with an error message carrying its transaction id and changes nothing.
\<close>

theorem bad_request_rejected:
  assumes "sink_good s"
    and "f_message_type f = MSG_REGISTER \<and> m = ''register requires >= 1 label'' \<and>
           (\<exists>req. register_from_slice (w_json W) (f_data f) = Inr req \<and> rr_labels req = []) \<or>
         f_message_type f = MSG_QUERY \<and> m = ''query requires >= 1 label'' \<and>
           (\<exists>req. query_from_slice (w_json W) (f_data f) = Inr req \<and> qr_labels req = []) \<or>
         \<not> is_dfinder_message (f_message_type f) \<and>
           m = ''unknown message_type '' @ show_dec (unat (f_message_type f))"
    and "error_to_vec (w_json W) \<lparr>eb_message = m\<rparr> = Inr body" and "length body \<le> u16_MAX"
  shows "handle_frame W peer f g s = (Ok (), g, put_plain MSG_ERROR (f_tx_id f) body s)"
proof -
  have e: "df_write_error W s (f_tx_id f) m = (Ok (), put_plain MSG_ERROR (f_tx_id f) body s)"
    using assms(3,4) by (simp add: df_write_error_good [OF assms(1)])
  have 13: "MSG_REGISTER \<noteq> MSG_QUERY" by (simp add: dfinder_msgs)
  from assms(2) e 13 [symmetric] show ?thesis
    by (elim disjE conjE exE)
       (simp_all add: handle_frame_def handle_register_def handle_query_def is_dfinder_message_def)
qed

theorem bad_request_rejected_witness:
  "handle_frame sample_world sample_peer (plain_frame 9 3 []) empty_inner (open_sink eof) =
     (Ok (), empty_inner, put_plain MSG_ERROR 3 (to_vec ''unknown message_type 9'') (open_sink eof))"
proof -
  have d: "show_dec 9 = ''9''" by code_simp
  have "error_to_vec (w_json sample_world) \<lparr>eb_message = ''unknown message_type 9''\<rparr> =
      Inr (to_vec ''unknown message_type 9'')" by (simp add: sample_json_def)
  from bad_request_rejected [OF open_sink_good _ this, of "plain_frame 9 3 []"] d show ?thesis
    by (simp add: is_dfinder_message_def dfinder_msgs to_vec_def u16_MAX_def)
qed

text \<open>
  C32: When the answer to a query would exceed the largest frame, nothing is sent at all, not
  even an error message: the handler fails with the frame layer's InvalidInput.
\<close>

theorem large_result_unanswered:
  assumes "sink_good s" and "f_message_type f = MSG_QUERY"
    and "query_from_slice (w_json W) (f_data f) = Inr req" and "qr_labels req \<noteq> []"
    and "store_list_by_labels (w_json W) (w_sql W) (in_store g) (qr_labels req) = Ok matched"
    and "result_to_vec (w_json W) \<lparr>qres_nodes = filter (node_healthy g) matched\<rparr> = Inr body"
    and "65535 < length body"
  shows "handle_frame W peer f g s =
    (Err (SrvE_Io (Io_Error InvalidInput ''payload length exceeds u16::MAX'')), g, s)"
  using handle_query_eq [OF assms(3,4), of g s] assms
  by (simp add: handle_frame_def dfinder_msgs write_frame_plain_good u16_MAX_def)

theorem large_result_unanswered_witness:
  "\<exists>st e. store_abs sample_json st ''10.0.0.1'' \<noteq> None \<and>
     handle_frame sample_world sample_peer sample_query_frame
       (registered sample_world ''10.0.0.1'' st empty_inner) (open_sink eof) =
     (Err e, registered sample_world ''10.0.0.1'' st empty_inner, open_sink eof)"
proof -
  let ?n = "\<lparr>ni_ip = ''10.0.0.1'', ni_port = 1, ni_labels = [''api''], ni_extra = 70000 :: nat\<rparr>"
  obtain st where st: "store_upsert sample_json sample_engine 0 empty_store ?n = Ok st"
    using sample_upsert [OF empty_store_inv(1)] by blast
  note law = ns.upsert_law [OF sample_json_ok empty_store_inv(1) st]
  then have abs: "store_abs sample_json st = [''10.0.0.1'' \<mapsto> ?n]" "store_inv sample_json st" by simp_all
  let ?g = "registered sample_world ''10.0.0.1'' st empty_inner"
  obtain all where l: "store_list_all sample_json sample_engine st = Ok all"
    using store_list_all_succeeds [OF sample_engine_ok abs(2) sample_engine_fault] by blast
  have "?n \<in> set all" using ns.list_mem_iff [OF sample_engine_ok abs(2) l] abs(1) by simp
  then have n: "?n \<in> set (filter (node_healthy ?g) (filter (has_labels [''api'']) all))"
    by (simp add: node_healthy_def has_labels_def)
  obtain body where b: "result_to_vec sample_json \<lparr>qres_nodes = filter (node_healthy ?g)
      (filter (has_labels [''api'']) all)\<rparr> = Inr body"
    and len: "length body = length (put_list put_node (filter (node_healthy ?g)
      (filter (has_labels [''api'']) all)))"
    by (simp add: sample_json_def to_vec_def)
  have "length (put_node ?n) \<le> length (concat (map put_node ns))" if "?n \<in> set ns" for ns
    using that by (induction ns) auto
  from this [OF n] have "65535 < length body"
    by (simp add: len put_list_def put_node_def put_nat_def)
  moreover have "f_message_type sample_query_frame = MSG_QUERY" "sink_good (open_sink eof)"
    "query_from_slice (w_json sample_world) (f_data sample_query_frame) = Inr \<lparr>qr_labels = [''api'']\<rparr>"
    "store_list_by_labels (w_json sample_world) (w_sql sample_world) (in_store ?g)
       (qr_labels \<lparr>qr_labels = [''api'']\<rparr>) = Ok (filter (has_labels [''api'']) all)"
    using l by (simp_all add: store_list_by_labels_def)
  ultimately have "handle_frame sample_world sample_peer sample_query_frame ?g (open_sink eof) =
      (Err (SrvE_Io (Io_Error InvalidInput ''payload length exceeds u16::MAX'')), ?g, open_sink eof)"
    using b large_result_unanswered [of "open_sink eof" sample_query_frame sample_world
      "\<lparr>qr_labels = [''api'']\<rparr>" ?g _ body] by simp
  with abs(1) show ?thesis
    by (intro exI [of _ st] exI conjI) simp_all
qed

text \<open>
  A connection makes its task panic exactly when it delivers a complete frame that claims
  to be encrypted while no key is configured; the registry is unchanged then.
\<close>

theorem connection_panics_iff:
  "(\<exists>p. fst (df_handle_conn W peer c g) = Panic p) \<longleftrightarrow>
    (\<exists>h tx d rest. length d \<le> u16_MAX \<and> rd_inp (st_rd c) = wire h tx d @ rest \<and>
       h AND 4 \<noteq> 0 \<and> key_missing (w_key W))"
  unfolding read_frame_Panic_iff [of "w_codec W" "w_key W", symmetric] df_handle_conn_def
  using handle_frame_not_Panic [of W peer]
  by (cases "read_frame (w_codec W) (w_key W) (st_rd c)") auto

end
