(* ===== verification/Dfinder_Cycle.thy ===== *)
theory Dfinder_Cycle
  imports Dfinder_Server
begin

text \<open>
  The health-probe cycle of \<open>src/dfinder/server.rs\<close> (\<open>run_probe_cycle\<close> and the probe task)
  when nothing runs between its steps: what one cycle does to the table and the health
  map, a node over many cycles, and the properties. \<open>Dfinder_Race\<close> interleaves the steps
  with requests.
\<close>

section \<open>One cycle\<close>

text \<open>The health record of a node after its probe answered.\<close>

definition probed :: "nat \<Rightarrow> bool \<Rightarrow> health_state option \<Rightarrow> health_state" where
  "probed now ok h =
     \<lparr>hs_healthy = ok,
      hs_last_ok = (if ok then now else case h of None \<Rightarrow> now | Some h \<Rightarrow> hs_last_ok h)\<rparr>"

definition expires :: "nat \<Rightarrow> nat \<Rightarrow> bool \<Rightarrow> health_state option \<Rightarrow> bool" where
  "expires now ttl ok h \<longleftrightarrow>
     \<not> ok \<and> ttl \<le> now - (case h of None \<Rightarrow> now | Some h \<Rightarrow> hs_last_ok h)"

lemma probe_one_eq:
  "probe_one now ttl ip ok (g, ex) =
     (g\<lparr>in_health := (in_health g)(ip \<mapsto> probed now ok (in_health g ip))\<rparr>,
      ex @ (if expires now ttl ok (in_health g ip) then [ip] else []))"
proof (cases "in_health g ip")
  case (Some h)
  then show ?thesis by (cases h; cases ok) (auto simp: probe_one_def probed_def expires_def)
qed (cases ok; auto simp: probe_one_def probed_def expires_def)

definition node_at :: "'e node_info list \<Rightarrow> string \<Rightarrow> 'e node_info option" where
  "node_at nodes = map_of (map (\<lambda>n. (ni_ip n, n)) nodes)"

lemma node_at_None_iff: "node_at nodes ip = None \<longleftrightarrow> ip \<notin> ni_ip ` set nodes"
  by (simp add: node_at_def map_of_eq_None_iff image_image comp_def)

lemma probe_nodes_eq:
  assumes "distinct (map ni_ip nodes)"
  shows "probe_nodes probe now ttl nodes (g, ex) =
     (g\<lparr>in_health := (\<lambda>ip. case node_at nodes ip of None \<Rightarrow> in_health g ip
          | Some n \<Rightarrow> Some (probed now (probe n) (in_health g ip)))\<rparr>,
      ex @ map ni_ip (filter (\<lambda>n. expires now ttl (probe n) (in_health g (ni_ip n))) nodes))"
  using assms
proof (induction nodes arbitrary: g ex)
  case Nil
  then show ?case by (simp add: node_at_def)
next
  case (Cons n nodes)
  let ?g = "g\<lparr>in_health := (in_health g)(ni_ip n \<mapsto> probed now (probe n) (in_health g (ni_ip n)))\<rparr>"
  have out: "node_at nodes (ni_ip n) = None" using Cons.prems by (auto simp: node_at_None_iff)
  have h: "(\<lambda>ip. case node_at nodes ip of None \<Rightarrow> in_health ?g ip
        | Some m \<Rightarrow> Some (probed now (probe m) (in_health ?g ip))) =
      (\<lambda>ip. case node_at (n # nodes) ip of None \<Rightarrow> in_health g ip
        | Some m \<Rightarrow> Some (probed now (probe m) (in_health g ip)))"
    using out by (auto simp: fun_eq_iff node_at_def split: option.splits)
  have f: "filter (\<lambda>m. expires now ttl (probe m) (in_health ?g (ni_ip m))) nodes =
      filter (\<lambda>m. expires now ttl (probe m) (in_health g (ni_ip m))) nodes"
    using Cons.prems by (intro filter_cong refl) (simp, metis image_eqI)
  have d: "distinct (map ni_ip nodes)" using Cons.prems by simp
  show ?case
    unfolding probe_nodes.simps probe_one_eq Cons.IH [OF d] h f by simp
qed

text \<open>Removal restricts the table and the health map; an error stops it after a prefix.\<close>

lemma remove_expired_Ok:
  "store_inv J (in_store g) \<Longrightarrow> remove_expired E expired g = (Ok (), g') \<Longrightarrow>
     store_inv J (in_store g') \<and>
     store_abs J (in_store g') = store_abs J (in_store g) |` (- set expired) \<and>
     in_health g' = in_health g |` (- set expired) \<and> in_offline_ttl g' = in_offline_ttl g"
proof (induction expired arbitrary: g)
  case Nil
  then show ?case by simp
next
  case (Cons ip expired)
  from Cons.prems(2) obtain st where st: "store_remove E (in_store g) ip = Ok st"
    and r: "remove_expired E expired (g\<lparr>in_store := st, in_health := (in_health g)(ip := None)\<rparr>) = (Ok (), g')"
    by auto
  note law = ns.remove_law [OF Cons.prems(1) st]
  have 1: "m(ip := None) |` (- set expired) = m |` (- set (ip # expired))" for m :: "string \<Rightarrow> 'x option"
    by (auto simp: restrict_map_def fun_eq_iff)
  show ?case
    using Cons.IH [OF _ r] law by (simp add: 1 del: fun_upd_apply restrict_fun_upd set_simps)
qed

lemma remove_expired_Err:
  "store_inv J (in_store g) \<Longrightarrow> remove_expired E expired g = (Err e, g') \<Longrightarrow>
     \<exists>k < length expired. remove_expired E (take k expired) g = (Ok (), g')"
proof (induction expired arbitrary: g)
  case Nil
  then show ?case by simp
next
  case (Cons ip expired)
  show ?case
  proof (cases "store_remove E (in_store g) ip")
    case (Ok st)
    with Cons.prems Cons.IH [of "g\<lparr>in_store := st, in_health := (in_health g)(ip := None)\<rparr>"]
    obtain k where "k < length expired" "remove_expired E (take k expired)
        (g\<lparr>in_store := st, in_health := (in_health g)(ip := None)\<rparr>) = (Ok (), g')"
      using ns.remove_law [OF Cons.prems(1) Ok] by auto
    with Ok show ?thesis by (intro exI [of _ "Suc k"]) simp
  qed (use Cons.prems in \<open>auto intro!: exI [of _ 0]\<close>)
qed

lemma remove_expired_not_Panic: "fst (remove_expired E expired g) \<noteq> Panic p"
proof (induction expired arbitrary: g)
  case (Cons ip expired)
  then show ?case by (cases "store_remove E (in_store g) ip") simp_all
qed simp


lemma node_at_eq_abs:
  assumes "engine_ok E" "store_inv J st" "store_list_all J E st = Ok nodes"
  shows "distinct (map ni_ip nodes)" "node_at nodes = store_abs J st"
proof -
  note l = ns.list_law [OF assms]
  then show d: "distinct (map ni_ip nodes)" by simp
  show "node_at nodes = store_abs J st"
  proof
    fix ip
    have "node_at nodes ip = Some n \<longleftrightarrow> n \<in> set nodes \<and> ni_ip n = ip" for n
      unfolding node_at_def using d by (subst map_of_eq_Some_iff) (auto simp: comp_def)
    then have "node_at nodes ip = Some n \<longleftrightarrow> store_abs J st ip = Some n" for n
      by (simp only: ns.list_mem_iff [OF assms]) (auto dest: ns.abs_ip [OF assms(2)])
    then show "node_at nodes ip = store_abs J st ip"
      by (metis not_Some_eq)
  qed
qed

text \<open>
  A cycle probes every node of the table it listed, then removes the expired ones: all of
  them when it returns \<open>Ok\<close>, a prefix when a removal fails.
\<close>

definition after_probes :: "'e world \<Rightarrow> ('e node_info \<Rightarrow> bool) \<Rightarrow> inner \<Rightarrow> inner" where
  "after_probes W probe g =
     g\<lparr>in_health := (\<lambda>ip. case store_abs (w_json W) (in_store g) ip of None \<Rightarrow> in_health g ip
        | Some n \<Rightarrow> Some (probed (w_now W) (probe n) (in_health g ip)))\<rparr>"

lemma after_probes_simps [simp]:
  "in_store (after_probes W probe g) = in_store g"
  "in_offline_ttl (after_probes W probe g) = in_offline_ttl g"
  by (simp_all add: after_probes_def)

lemma run_probe_cycle_listed:
  assumes "world_ok W" "store_inv (w_json W) (in_store g)" "run_probe_cycle W probe g = (r, g')"
    and "store_list_all (w_json W) (w_sql W) (in_store g) = Ok nodes"
  obtains ex where "remove_expired (w_sql W) ex (after_probes W probe g) = (r, g')"
    "set ex = {ip. \<exists>n. store_abs (w_json W) (in_store g) ip = Some n \<and>
       expires (w_now W) (in_offline_ttl g) (probe n) (in_health g ip)}"
proof -
  note w = world_okD [OF assms(1)]
  note at = node_at_eq_abs [OF w(2) assms(2,4)]
  let ?ex = "map ni_ip (filter (\<lambda>n. expires (w_now W) (in_offline_ttl g) (probe n) (in_health g (ni_ip n))) nodes)"
  have "remove_expired (w_sql W) ?ex (after_probes W probe g) = (r, g')"
    using assms(3,4)
    by (simp add: run_probe_cycle_def probe_nodes_eq [OF at(1)] at(2) after_probes_def Let_def
        split: if_splits)
  moreover have "set ?ex = {ip. \<exists>n. store_abs (w_json W) (in_store g) ip = Some n \<and>
      expires (w_now W) (in_offline_ttl g) (probe n) (in_health g ip)}"
    unfolding set_map set_filter ns.list_mem_iff [OF w(2) assms(2,4)]
    by (auto dest: ns.abs_ip [OF assms(2)] intro!: image_eqI [OF sym])
  ultimately show thesis by (rule that)
qed

lemma run_probe_cycle_cases:
  assumes "world_ok W" "server_inv (w_json W) g" "run_probe_cycle W probe g = (r, g')"
  obtains (listing) e where "r = Err e" "g' = g"
  | (cycle) ips where "store_inv (w_json W) (in_store g')"
      "store_abs (w_json W) (in_store g') = store_abs (w_json W) (in_store g) |` (- ips)"
      "in_health g' = in_health (after_probes W probe g) |` (- ips)"
      "in_offline_ttl g' = in_offline_ttl g"
      "ips \<subseteq> {ip. \<exists>n. store_abs (w_json W) (in_store g) ip = Some n \<and>
          expires (w_now W) (in_offline_ttl g) (probe n) (in_health g ip)}"
      "\<exists>u. r = Ok u \<Longrightarrow> ips = {ip. \<exists>n. store_abs (w_json W) (in_store g) ip = Some n \<and>
          expires (w_now W) (in_offline_ttl g) (probe n) (in_health g ip)}"
proof -
  have i: "store_inv (w_json W) (in_store g)" using assms(2) by (simp add: server_inv_def)
  let ?g = "after_probes W probe g"
  have i': "store_inv (w_json W) (in_store ?g)" using i by simp
  show thesis
  proof (cases "store_list_all (w_json W) (w_sql W) (in_store g)")
    case (Err e)
    with assms(3) show thesis by (intro listing [of "SrvE_Store e"]) (simp_all add: run_probe_cycle_def)
  next
    case (Ok nodes)
    obtain ex where r: "remove_expired (w_sql W) ex ?g = (r, g')"
      and ex: "set ex = {ip. \<exists>n. store_abs (w_json W) (in_store g) ip = Some n \<and>
        expires (w_now W) (in_offline_ttl g) (probe n) (in_health g ip)}"
      by (rule run_probe_cycle_listed [OF assms(1) i assms(3) Ok])
    show thesis
    proof (cases r)
      case (Ok u)
      from remove_expired_Ok [OF i' r [unfolded Ok, simplified]] show thesis
        using ex by (intro cycle [of "set ex"]) simp_all
    next
      case (Err e)
      from remove_expired_Err [OF i' r [unfolded Err]]
      obtain k where k: "remove_expired (w_sql W) (take k ex) ?g = (Ok (), g')" by blast
      have "set (take k ex) \<subseteq> set ex" by (rule set_take_subset)
      with remove_expired_Ok [OF i' k] Err show thesis
        unfolding ex by (intro cycle [of "set (take k ex)"]) (simp_all only: after_probes_simps res.distinct simp_thms)
    next
      case (Panic p)
      with r remove_expired_not_Panic show thesis by (metis fst_conv)
    qed
  qed simp
qed

lemma after_probes_dom:
  assumes "server_inv (w_json W) g"
  shows "dom (in_health (after_probes W probe g)) = dom (store_abs (w_json W) (in_store g))"
  using assms by (auto simp: after_probes_def server_inv_def dom_def split: option.splits)

lemma run_probe_cycle_inv:
  assumes "world_ok W" "server_inv (w_json W) g"
  shows "server_inv (w_json W) (snd (run_probe_cycle W probe g))"
proof (cases "run_probe_cycle W probe g")
  case (Pair r g')
  from assms Pair show ?thesis
  proof (cases rule: run_probe_cycle_cases)
    case (cycle ips)
    then show ?thesis
      using Pair after_probes_dom [OF assms(2)] by (simp add: server_inv_def)
  qed (use assms Pair in simp)
qed

lemma run_probe_cycle_not_Panic: 
  assumes "world_ok W" "server_inv (w_json W) g"
  shows "fst (run_probe_cycle W probe g) \<noteq> Panic p"
  unfolding run_probe_cycle_def Let_def using remove_expired_not_Panic
  by (cases "store_list_all (w_json W) (w_sql W) (in_store g)") (auto split: prod.splits)


section \<open>A node over many cycles\<close>

lemma run_probe_cycle_at:
  assumes "world_ok W" "server_inv (w_json W) g" "run_probe_cycle W probe g = (r, g')"
  shows "store_abs (w_json W) (in_store g) ip = None \<Longrightarrow> store_abs (w_json W) (in_store g') ip = None"
    and "store_abs (w_json W) (in_store g) ip = Some n \<Longrightarrow> in_health g ip = Some h \<Longrightarrow> \<not> probe n \<Longrightarrow>
      store_abs (w_json W) (in_store g') ip = None \<and> in_offline_ttl g \<le> w_now W - hs_last_ok h \<or>
      store_abs (w_json W) (in_store g') ip = Some n \<and>
        (\<exists>b. in_health g' ip = Some \<lparr>hs_healthy = b, hs_last_ok = hs_last_ok h\<rparr>)"
    and "in_offline_ttl g' = in_offline_ttl g"
proof -
  show "store_abs (w_json W) (in_store g') ip = None"
    if "store_abs (w_json W) (in_store g) ip = None"
    using assms by (cases rule: run_probe_cycle_cases) (use that in \<open>auto simp: restrict_map_def\<close>)
  show "in_offline_ttl g' = in_offline_ttl g"
    using assms by (cases rule: run_probe_cycle_cases) auto
  show "store_abs (w_json W) (in_store g') ip = None \<and> in_offline_ttl g \<le> w_now W - hs_last_ok h \<or>
      store_abs (w_json W) (in_store g') ip = Some n \<and>
        (\<exists>b. in_health g' ip = Some \<lparr>hs_healthy = b, hs_last_ok = hs_last_ok h\<rparr>)"
    if "store_abs (w_json W) (in_store g) ip = Some n" "in_health g ip = Some h" "\<not> probe n"
    using assms
  proof (cases rule: run_probe_cycle_cases)
    case (listing e)
    then show ?thesis using that by (cases h) auto
  next
    case (cycle ips)
    then show ?thesis
      using that by (cases "ip \<in> ips") (auto simp: restrict_map_def after_probes_def probed_def expires_def)
  qed
qed

lemma spawn_probe_append: "spawn_probe (ts @ us) g = spawn_probe us (spawn_probe ts g)"
  by (induction ts arbitrary: g) auto

text \<open>A node that never answers keeps its last success until it is removed, and stays removed.\<close>

lemma spawn_probe_down:
  assumes "\<forall>(W, probe) \<in> set ts. world_ok W \<and> w_json W = J \<and> \<not> probe n"
    and "server_inv J g" "in_health g ip = Some h" "store_abs J (in_store g) ip = Some n"
  shows "server_inv J (spawn_probe ts g) \<and> in_offline_ttl (spawn_probe ts g) = in_offline_ttl g \<and>
    (store_abs J (in_store (spawn_probe ts g)) ip = None \<and>
       (\<exists>(W, probe) \<in> set ts. in_offline_ttl g \<le> w_now W - hs_last_ok h) \<or>
     store_abs J (in_store (spawn_probe ts g)) ip = Some n \<and>
       (\<exists>b. in_health (spawn_probe ts g) ip = Some \<lparr>hs_healthy = b, hs_last_ok = hs_last_ok h\<rparr>))"
  using assms(1)
proof (induction ts rule: rev_induct)
  case Nil
  then show ?case using assms(2-4) by (cases h) auto
next
  case (snoc t ts)
  obtain W probe where t: "t = (W, probe)" by (cases t)
  with snoc.prems have W: "world_ok W" "w_json W = J" "\<not> probe n" by auto
  let ?g = "spawn_probe ts g"
  obtain r g' where c: "run_probe_cycle W probe ?g = (r, g')" by (cases "run_probe_cycle W probe ?g")
  have s: "spawn_probe (ts @ [t]) g = g'" using c t by (simp add: spawn_probe_append)
  note IH = snoc.IH [OF snoc.prems [unfolded set_append ball_Un, THEN conjunct1]]
  then have i: "server_inv (w_json W) ?g" using W by simp
  note at = run_probe_cycle_at [OF W(1) i c]
  have i': "server_inv J g'" using run_probe_cycle_inv [OF W(1) i, of probe] c W(2) by simp
  from IH consider
    (gone) "store_abs J (in_store ?g) ip = None"
      "\<exists>(W, probe) \<in> set ts. in_offline_ttl g \<le> w_now W - hs_last_ok h"
  | (there) b where "store_abs J (in_store ?g) ip = Some n"
      "in_health ?g ip = Some \<lparr>hs_healthy = b, hs_last_ok = hs_last_ok h\<rparr>"
    by (elim conjE disjE exE) (simp_all only: not_False_eq_True)
  then show ?case
  proof cases
    case gone
    then have "\<exists>(W, probe) \<in> set (ts @ [t]). in_offline_ttl g \<le> w_now W - hs_last_ok h" by auto
    with gone show ?thesis unfolding s using at(1) [of ip] at(3) IH i' W(2) by simp
  next
    case there
    with at(2) [of ip n "\<lparr>hs_healthy = b, hs_last_ok = hs_last_ok h\<rparr>"] W
    show ?thesis unfolding s using at(3) IH i' t by auto
  qed
qed

section \<open>Cycles without faults\<close>

lemma remove_expired_succeeds:
  assumes "\<And>s. eng_fault E s = None"
  shows "store_inv J (in_store g) \<Longrightarrow> \<exists>g'. remove_expired E ips g = (Ok (), g')"
proof (induction ips arbitrary: g)
  case (Cons ip ips)
  obtain st where st: "store_remove E (in_store g) ip = Ok st"
    using Cons.prems assms by (auto simp: store_remove_def store_inv_def run_stmt_Ok_iff)
  then show ?case
    using Cons.IH [of "g\<lparr>in_store := st, in_health := (in_health g)(ip := None)\<rparr>"]
      ns.remove_law [OF Cons.prems st] by simp
qed simp

lemma run_probe_cycle_succeeds:
  assumes "world_ok W" "server_inv (w_json W) g" "\<And>s. eng_fault (w_sql W) s = None"
  shows "\<exists>g'. run_probe_cycle W probe g = (Ok (), g')"
proof -
  have i: "store_inv (w_json W) (in_store g)" using assms(2) by (simp add: server_inv_def)
  obtain nodes where l: "store_list_all (w_json W) (w_sql W) (in_store g) = Ok nodes"
    using store_list_all_succeeds [OF world_okD(2) [OF assms(1)] i assms(3)] by blast
  note at = node_at_eq_abs [OF world_okD(2) [OF assms(1)] i l]
  have "\<exists>g'. remove_expired (w_sql W) ips (after_probes W probe g) = (Ok (), g')" for ips
    by (rule remove_expired_succeeds [OF assms(3), where J = "w_json W"]) (use i in simp)
  then show ?thesis
    by (simp add: run_probe_cycle_def l Let_def probe_nodes_eq [OF at(1)] at(2)
        after_probes_def [symmetric] split: prod.splits)
qed

text \<open>A later clock for the sample world.\<close>

definition sample_later :: "nat \<Rightarrow> nat world" where
  "sample_later now = sample_world\<lparr>w_now := now\<rparr>"

lemma sample_later_simps [simp]:
  "w_json (sample_later now) = sample_json" "w_sql (sample_later now) = sample_engine"
  "w_now (sample_later now) = now" "world_ok (sample_later now)"
  by (simp_all add: sample_later_def world_ok_def sample_json_ok sample_codec_ok)

text \<open>A restart on a file that holds the sample node.\<close>

definition sample_disk :: "node_store \<Rightarrow> nat world" where
  "sample_disk st = sample_world\<lparr>w_sql := sample_engine\<lparr>eng_open := (\<lambda>_. Inr (ns_conn st))\<rparr>\<rparr>"

definition sample_config :: server_config where
  "sample_config = \<lparr>cfg_listen = sample_peer, cfg_db_path = Some ''db'', cfg_probe_interval = 5,
     cfg_offline_ttl = 30\<rparr>"

lemma sample_disk_simps [simp]:
  "w_json (sample_disk st) = sample_json" "w_now (sample_disk st) = 1000"
  "eng_fault (w_sql (sample_disk st)) s = None" "w_codec (sample_disk st) = sample_codec"
  by (simp_all add: sample_disk_def)

lemma sample_restart:
  obtains st sv where "world_ok (sample_disk st)"
    "df_server_new (sample_disk st) sample_config = Ok sv"
    "store_abs sample_json (in_store (sv_inner sv)) =
       [''10.0.0.1'' \<mapsto> registered_node sample_peer sample_register]"
proof -
  let ?n = "registered_node sample_peer sample_register"
  obtain st where st: "store_inv sample_json st" "store_abs sample_json st = [''10.0.0.1'' \<mapsto> ?n]"
    by (rule sample_registered)
  let ?E = "w_sql (sample_disk st)"
  have E: "engine_ok ?E"
    using st(1) by (auto simp: sample_disk_def engine_ok_def sample_engine_def store_inv_def store_rows_def)
  then have W: "world_ok (sample_disk st)"
    by (simp add: world_ok_def sample_json_ok sample_codec_ok)
  have "eng_open ?E ''db'' = Inr (ns_conn st)" by (simp add: sample_disk_def)
  then have o: "store_open ?E ''db'' = Ok st"
    using st(1) by (cases st) (auto simp: store_open_Ok_iff store_inv_def sql_create_def)
  obtain all where l: "store_list_all sample_json ?E st = Ok all"
    using store_list_all_succeeds [OF E st(1)] by auto
  obtain sv where "df_server_new (sample_disk st) sample_config = Ok sv" "in_store (sv_inner sv) = st"
    by (simp add: df_server_new_def sample_config_def o l Let_def)
  with W st(2) that show thesis by simp
qed

section \<open>Properties\<close>

text \<open>
  Every way the registry changes state keeps its invariant: start-up (in memory or from
  an existing file), a connection whatever it sends and however it fails, and a probe cycle.
\<close>

theorem registry_invariant:
  assumes "world_ok W"
  shows "(\<forall>config sv. df_server_new W config = Ok sv \<longrightarrow> server_inv (w_json W) (sv_inner sv)) \<and>
    (\<forall>g peer c. server_inv (w_json W) g \<longrightarrow>
       server_inv (w_json W) (fst (snd (df_handle_conn W peer c g)))) \<and>
    (\<forall>g probe. server_inv (w_json W) g \<longrightarrow> server_inv (w_json W) (snd (run_probe_cycle W probe g)))"
  using df_server_new_Ok [OF assms] df_handle_conn_inv [OF assms] run_probe_cycle_inv [OF assms]
  by blast

theorem registry_invariant_witness:
  "server_inv sample_json
     (snd (run_probe_cycle sample_world (\<lambda>_. False)
       (fst (snd (df_handle_conn sample_world sample_peer
          \<lparr>st_rd = sample_reader [1, 2], st_wr = open_sink eof\<rparr> empty_inner)))))"
  using registry_invariant [of sample_world] empty_inner_inv(1) [of sample_json] by simp

text \<open>
  After a restart every node of the database is known but unhealthy, with the start as
  its last success, so no query reports it before it registers again or answers a probe, and
  it has a full offline time to do so.
\<close>

theorem restart_unhealthy:
  assumes "world_ok W" and "df_server_new W config = Ok sv"
  shows "\<forall>n. store_abs (w_json W) (in_store (sv_inner sv)) (ni_ip n) = Some n \<longrightarrow>
      \<not> node_healthy (sv_inner sv) n \<and>
      in_health (sv_inner sv) (ni_ip n) = Some \<lparr>hs_healthy = False, hs_last_ok = w_now W\<rparr> \<and>
      (\<forall>probe t. w_now W \<le> t \<and> t < w_now W + cfg_offline_ttl config \<longrightarrow>
         \<not> expires t (in_offline_ttl (sv_inner sv)) probe (in_health (sv_inner sv) (ni_ip n)))"
proof (intro allI impI)
  fix n assume "store_abs (w_json W) (in_store (sv_inner sv)) (ni_ip n) = Some n"
  note new = df_server_new_Ok [OF assms]
  moreover have "in_health (sv_inner sv) (ni_ip n) \<noteq> None"
    using new \<open>store_abs _ _ _ = _\<close> unfolding server_inv_def by (metis domIff option.distinct(1))
  ultimately have h: "in_health (sv_inner sv) (ni_ip n) = Some \<lparr>hs_healthy = False, hs_last_ok = w_now W\<rparr>"
    by auto
  then show "\<not> node_healthy (sv_inner sv) n \<and>
      in_health (sv_inner sv) (ni_ip n) = Some \<lparr>hs_healthy = False, hs_last_ok = w_now W\<rparr> \<and>
      (\<forall>probe t. w_now W \<le> t \<and> t < w_now W + cfg_offline_ttl config \<longrightarrow>
         \<not> expires t (in_offline_ttl (sv_inner sv)) probe (in_health (sv_inner sv) (ni_ip n)))"
    using new [THEN conjunct2, THEN conjunct2] by (auto simp: node_healthy_def expires_def)
qed

theorem restart_unhealthy_witness:
  "\<exists>st sv. df_server_new (sample_disk st) sample_config = Ok sv \<and>
     store_abs sample_json (in_store (sv_inner sv)) ''10.0.0.1'' \<noteq> None \<and>
     \<not> node_healthy (sv_inner sv) (registered_node sample_peer sample_register)"
proof -
  let ?n = "registered_node sample_peer sample_register"
  obtain st sv where W: "world_ok (sample_disk st)"
    and sv: "df_server_new (sample_disk st) sample_config = Ok sv"
    and abs: "store_abs sample_json (in_store (sv_inner sv)) = [''10.0.0.1'' \<mapsto> ?n]"
    by (rule sample_restart)
  have "\<not> node_healthy (sv_inner sv) ?n"
    using restart_unhealthy [OF W sv] abs by (simp add: sample_peer_def)
  with sv abs show ?thesis by (intro exI [of _ st] exI [of _ sv]) simp
qed

text \<open>
  C8: A probe cycle that returns removes exactly the nodes that did not answer and whose last
  success is at least the offline time ago; every other node stays, is healthy exactly if it
  answered, and its last success moves to the start of the cycle only then.
\<close>

theorem probe_cycle_effect:
  assumes "world_ok W" and "server_inv (w_json W) g"
    and "run_probe_cycle W probe g = (Ok (), g')"
    and "store_abs (w_json W) (in_store g) ip = Some n" and "in_health g ip = Some h"
  shows "store_abs (w_json W) (in_store g') ip =
      (if probe n \<or> w_now W - hs_last_ok h < in_offline_ttl g then Some n else None) \<and>
    in_health g' ip =
      (if probe n \<or> w_now W - hs_last_ok h < in_offline_ttl g
       then Some \<lparr>hs_healthy = probe n, hs_last_ok = (if probe n then w_now W else hs_last_ok h)\<rparr>
       else None)"
  using assms(1-3)
proof (cases rule: run_probe_cycle_cases)
  case (cycle ips)
  have "ip \<in> ips \<longleftrightarrow> \<not> probe n \<and> in_offline_ttl g \<le> w_now W - hs_last_ok h"
    using cycle(6) assms(4,5) by (auto simp: expires_def)
  then show ?thesis
    using cycle(2,3) assms(4,5) by (auto simp: restrict_map_def after_probes_def probed_def)
qed simp

theorem probe_cycle_effect_witness:
  "\<exists>st g'. store_abs sample_json st ''10.0.0.1'' \<noteq> None \<and>
     run_probe_cycle (sample_later 1030) (\<lambda>_. False) (registered sample_world ''10.0.0.1'' st empty_inner) =
       (Ok (), g') \<and>
     store_abs sample_json (in_store g') ''10.0.0.1'' = None"
proof -
  obtain st where st: "store_abs sample_json st = [''10.0.0.1'' \<mapsto> registered_node sample_peer sample_register]"
    and i: "server_inv sample_json (registered sample_world ''10.0.0.1'' st empty_inner)"
    by (rule sample_registered)
  let ?g = "registered sample_world ''10.0.0.1'' st empty_inner"
  have i': "server_inv (w_json (sample_later 1030)) ?g" using i by simp
  obtain g' where c: "run_probe_cycle (sample_later 1030) (\<lambda>_. False) ?g = (Ok (), g')"
    using run_probe_cycle_succeeds [OF _ i'] by fastforce
  have "store_abs sample_json (in_store g') ''10.0.0.1'' = None"
    using probe_cycle_effect [OF _ i' c, of "''10.0.0.1''"] st by simp
  with c st show ?thesis by (intro exI [of _ st] exI [of _ g']) simp
qed

text \<open>
  C14: A node that stops answering stays registered through every cycle that starts less than
  the offline time after its last success, and is gone after the first cycle that completes
  at or after that time, whatever errors the earlier cycles met.
\<close>

theorem down_node_expires:
  assumes "\<forall>(W, probe) \<in> set (ts @ [(W', probe')]). world_ok W \<and> w_json W = J \<and> \<not> probe n"
    and "server_inv J g" and "store_abs J (in_store g) ip = Some n" and "in_health g ip = Some h"
    and "run_probe_cycle W' probe' (spawn_probe ts g) = (r, g')"
  shows "((\<forall>(W, probe) \<in> set (ts @ [(W', probe')]). w_now W - hs_last_ok h < in_offline_ttl g) \<longrightarrow>
       store_abs J (in_store g') ip = Some n) \<and>
    (r = Ok () \<and> in_offline_ttl g \<le> w_now W' - hs_last_ok h \<longrightarrow> store_abs J (in_store g') ip = None)"
proof (intro conjI impI)
  note all = spawn_probe_down [OF assms(1,2,4,3)]
  have g': "spawn_probe (ts @ [(W', probe')]) g = g'" using assms(5) by (simp add: spawn_probe_append)
  assume near: "\<forall>(W, probe) \<in> set (ts @ [(W', probe')]). w_now W - hs_last_ok h < in_offline_ttl g"
  have no: "\<not> (\<exists>(W, probe) \<in> set (ts @ [(W', probe')]). in_offline_ttl g \<le> w_now W - hs_last_ok h)"
    using near by (auto simp: not_le)
  show "store_abs J (in_store g') ip = Some n"
    using all no unfolding g' by (elim conjE disjE) (simp_all only: not_True_eq_False)
next
  assume late: "r = Ok () \<and> in_offline_ttl g \<le> w_now W' - hs_last_ok h"
  have W': "world_ok W'" "w_json W' = J" "\<not> probe' n" using assms(1) by auto
  have down: "\<forall>(W, probe) \<in> set ts. world_ok W \<and> w_json W = J \<and> \<not> probe n"
    using assms(1) by auto
  let ?g = "spawn_probe ts g"
  note b = spawn_probe_down [OF down assms(2,4,3)]
  have c: "run_probe_cycle W' probe' ?g = (Ok (), g')" using assms(5) late by simp
  have i: "server_inv (w_json W') ?g" using b W'(2) by simp
  show "store_abs J (in_store g') ip = None"
  proof (cases "store_abs J (in_store ?g) ip")
    case None
    then show ?thesis using run_probe_cycle_at(1) [OF W'(1) i c] W'(2) by simp
  next
    case (Some m)
    with b obtain bb where h: "m = n" "in_health ?g ip = Some \<lparr>hs_healthy = bb, hs_last_ok = hs_last_ok h\<rparr>"
      by auto
    from W'(1) i c show ?thesis
    proof (cases rule: run_probe_cycle_cases)
      case (cycle ips)
      then have "ip \<in> ips" using Some h W' late b by (auto simp: expires_def)
      then show ?thesis using cycle(2) W'(2) by (simp add: restrict_map_def)
    qed simp
  qed
qed

theorem down_node_expires_witness:
  "\<exists>st g'. store_abs sample_json st ''10.0.0.1'' \<noteq> None \<and>
     run_probe_cycle (sample_later 1030) (\<lambda>_. False)
       (spawn_probe [(sample_later 1010, \<lambda>_. False), (sample_later 1020, \<lambda>_. False)]
         (registered sample_world ''10.0.0.1'' st empty_inner)) = (Ok (), g') \<and>
     store_abs sample_json (in_store g') ''10.0.0.1'' = None"
proof -
  let ?n = "registered_node sample_peer sample_register"
  obtain st where st: "store_abs sample_json st = [''10.0.0.1'' \<mapsto> ?n]"
    and i: "server_inv sample_json (registered sample_world ''10.0.0.1'' st empty_inner)"
    by (rule sample_registered)
  let ?g = "registered sample_world ''10.0.0.1'' st empty_inner"
  let ?ts = "[(sample_later 1010, \<lambda>_::nat node_info. False), (sample_later 1020, \<lambda>_. False)]"
  have i1: "server_inv sample_json (spawn_probe ?ts ?g)"
    using run_probe_cycle_inv [of "sample_later 1010" ?g] i
      run_probe_cycle_inv [of "sample_later 1020" "snd (run_probe_cycle (sample_later 1010) (\<lambda>_. False) ?g)"]
    by simp
  obtain g' where c: "run_probe_cycle (sample_later 1030) (\<lambda>_. False) (spawn_probe ?ts ?g) = (Ok (), g')"
    using run_probe_cycle_succeeds [of "sample_later 1030" "spawn_probe ?ts ?g"] i1 by auto
  have "\<forall>(W, probe) \<in> set (?ts @ [(sample_later 1030, \<lambda>_. False)]).
      world_ok W \<and> w_json W = sample_json \<and> \<not> probe ?n" by simp
  from down_node_expires [OF this i _ _ c, of "''10.0.0.1''"] st
  have "store_abs sample_json (in_store g') ''10.0.0.1'' = None" by simp
  with c st show ?thesis by (intro exI [of _ st] exI [of _ g']) simp
qed

end
