(* ===== verification/Dfinder_Race.thy ===== *)
theory Dfinder_Race
  imports Dfinder_Cycle
begin

text \<open>
  The registry as it runs: connections are served while the probe task is in the middle of a
  cycle. \<open>src/dfinder/server.rs\<close> takes the lock once to list the nodes, once per probed node
  and once to remove the expired ones, and is open to requests between. \<open>sys_step\<close> has one
  step per critical section; the probe task's place in \<open>run_probe_cycle\<close> and the locals it
  carries are the program counter. One probe task runs, as \<open>run_and_notify\<close> starts it.
\<close>

section \<open>Steps\<close>

datatype 'e probe_pc =
  Idle
| Listed "'e node_info list" nat \<comment> \<open>nodes, offline ttl\<close>
| Probing nat nat "'e node_info list" "string list" \<comment> \<open>now, ttl, nodes to probe, expired\<close>

record 'e sys =
  sy_inner :: inner
  sy_pc :: "'e probe_pc"
  sy_now :: nat

text \<open>
  Each step may find the outside world as it likes (\<open>W\<close>: faults of SQLite, random bytes, wall
  clock), except that the serialisation stays the same and the monotonic clock is \<open>sy_now\<close>.
\<close>

definition in_world :: "'e json \<Rightarrow> 'e sys \<Rightarrow> 'e world \<Rightarrow> bool" where
  "in_world J s W \<longleftrightarrow> world_ok W \<and> w_json W = J \<and> w_now W = sy_now s"

inductive sys_step :: "'e json \<Rightarrow> 'e sys \<Rightarrow> 'e sys \<Rightarrow> bool" for J where
  tick: "sy_now s \<le> t \<Longrightarrow> sys_step J s (s\<lparr>sy_now := t\<rparr>)"
| request: "in_world J s W \<Longrightarrow> df_handle_conn W peer c (sy_inner s) = (r, g, out) \<Longrightarrow>
    sys_step J s (s\<lparr>sy_inner := g\<rparr>)"
| snapshot: "sy_pc s = Idle \<Longrightarrow> in_world J s W \<Longrightarrow>
    store_list_all J (w_sql W) (in_store (sy_inner s)) = Ok nodes \<Longrightarrow>
    sys_step J s (s\<lparr>sy_pc := Listed nodes (in_offline_ttl (sy_inner s))\<rparr>)"
| start: "sy_pc s = Listed nodes ttl \<Longrightarrow>
    sys_step J s (s\<lparr>sy_pc := Probing (sy_now s) ttl nodes []\<rparr>)"
| probe: "sy_pc s = Probing now ttl (n # nodes) ex \<Longrightarrow>
    probe_one now ttl (ni_ip n) answer (sy_inner s, ex) = (g, ex') \<Longrightarrow>
    sys_step J s (s\<lparr>sy_inner := g, sy_pc := Probing now ttl nodes ex'\<rparr>)"
| finish: "sy_pc s = Probing now ttl [] ex \<Longrightarrow> in_world J s W \<Longrightarrow>
    remove_expired (w_sql W) ex (sy_inner s) = (r, g) \<Longrightarrow>
    sys_step J s (s\<lparr>sy_inner := g, sy_pc := Idle\<rparr>)"

inductive_cases sys_stepE [consumes 1, case_names tick request snapshot start probe finish]:
  "sys_step J s s'"

inductive sys_reach :: "'e json \<Rightarrow> 'e sys \<Rightarrow> bool" for J where
  init: "world_ok W \<Longrightarrow> w_json W = J \<Longrightarrow> df_server_new W config = Ok sv \<Longrightarrow>
    sys_reach J \<lparr>sy_inner = sv_inner sv, sy_pc = Idle, sy_now = w_now W\<rparr>"
| step: "sys_reach J s \<Longrightarrow> sys_step J s s' \<Longrightarrow> sys_reach J s'"

section \<open>Invariant\<close>

text \<open>The nodes the probe task still refers to.\<close>

fun pc_ips :: "'e probe_pc \<Rightarrow> string set" where
  "pc_ips Idle = {}"
| "pc_ips (Listed nodes ttl) = ni_ip ` set nodes"
| "pc_ips (Probing now ttl nodes ex) = ni_ip ` set nodes \<union> set ex"

fun pc_time :: "'e probe_pc \<Rightarrow> nat" where
  "pc_time (Probing now ttl nodes ex) = now"
| "pc_time _ = 0"

definition sys_inv :: "'e json \<Rightarrow> 'e sys \<Rightarrow> bool" where
  "sys_inv J s \<longleftrightarrow>
     server_inv J (sy_inner s) \<and>
     pc_ips (sy_pc s) \<subseteq> dom (store_abs J (in_store (sy_inner s))) \<and>
     pc_time (sy_pc s) \<le> sy_now s \<and>
     (\<forall>ip h. in_health (sy_inner s) ip = Some h \<longrightarrow> hs_last_ok h \<le> sy_now s)"

lemma request_inner:
  assumes "world_ok W" "server_inv (w_json W) g" "df_handle_conn W peer c g = (r, g', out)"
  shows "g' = g \<or> (\<exists>n st. store_abs (w_json W) st = (store_abs (w_json W) (in_store g))(ni_ip n \<mapsto> n) \<and>
           g' = registered W (ni_ip n) st g)"
proof (cases "read_frame (w_codec W) (w_key W) (st_rd c)")
  case (Ok x)
  obtain f rd where x: "x = (f, rd)" by (cases x)
  have g': "g' = fst (snd (handle_frame W peer f g (st_wr c)))"
    using assms(3) df_handle_conn_inner [of W peer c g] Ok x by simp
  show ?thesis
  proof (rule handle_frame_cases [of W peer f g "st_wr c"])
    assume "fst (snd (handle_frame W peer f g (st_wr c))) = g"
    then show ?thesis using g' by simp
  next
    fix req st
    assume u: "store_upsert (w_json W) (w_sql W) (w_wall W) (in_store g) (registered_node peer req) = Ok st"
      and "fst (snd (handle_frame W peer f g (st_wr c))) = registered W (ip_to_string (sa_ip peer)) st g"
    moreover have "store_inv (w_json W) (in_store g)" using assms(2) by (simp add: server_inv_def)
    ultimately show ?thesis
      using ns.upsert_law [OF world_okD(1) [OF assms(1)] _ u] g'
      by (intro disjI2 exI [of _ "registered_node peer req"] exI [of _ st]) simp
  qed
qed (use assms(3) df_handle_conn_inner [of W peer c g] in simp_all)

lemma request_inv:
  assumes "sys_inv J s" "in_world J s W" "df_handle_conn W peer c (sy_inner s) = (r, g, out)"
  shows "sys_inv J (s\<lparr>sy_inner := g\<rparr>)"
proof -
  from assms(1,2) have w: "world_ok W" "server_inv (w_json W) (sy_inner s)" "w_json W = J"
    by (simp_all add: sys_inv_def in_world_def)
  have "server_inv J g" using df_handle_conn_inv [OF w(1,2), of peer c] assms(3) w(3) by simp
  moreover have "hs_last_ok h \<le> sy_now s" if "in_health g ip = Some h" for ip h
    using request_inner [OF w(1,2) assms(3)] assms(1,2) that
    by (auto simp: sys_inv_def in_world_def split: if_splits)
  moreover have "dom (store_abs J (in_store (sy_inner s))) \<subseteq> dom (store_abs J (in_store g))"
    using request_inner [OF w(1,2) assms(3)] w(3) by auto
  ultimately show ?thesis
    using assms(1) by (simp add: sys_inv_def) (blast intro: subset_trans)
qed

lemma probe_inv:
  assumes "sys_inv J s" "sy_pc s = Probing now ttl (n # nodes) ex"
    and "probe_one now ttl (ni_ip n) answer (sy_inner s, ex) = (g, ex')"
  shows "sys_inv J (s\<lparr>sy_inner := g, sy_pc := Probing now ttl nodes ex'\<rparr>)"
proof -
  have "ni_ip n \<in> dom (in_health (sy_inner s))" "now \<le> sy_now s"
    using assms(1,2) by (auto simp: sys_inv_def server_inv_def)
  moreover from this(1) obtain h where h: "in_health (sy_inner s) (ni_ip n) = Some h" by blast
  moreover from h assms(1) have "hs_last_ok h \<le> sy_now s" by (auto simp: sys_inv_def)
  ultimately have last: "hs_last_ok (probed now answer (in_health (sy_inner s) (ni_ip n))) \<le> sy_now s"
    by (simp add: probed_def)
  have g: "g = sy_inner s\<lparr>in_health := (in_health (sy_inner s))
      (ni_ip n \<mapsto> probed now answer (in_health (sy_inner s) (ni_ip n)))\<rparr>"
    and ex': "set ex' \<subseteq> insert (ni_ip n) (set ex)"
    using assms(3) by (auto simp: probe_one_eq split: if_splits)
  have "server_inv J g"
    using assms(1) \<open>ni_ip n \<in> dom _\<close> by (simp add: g sys_inv_def server_inv_def insert_absorb)
  moreover have "hs_last_ok h \<le> sy_now s" if "in_health g ip = Some h" for ip h
    using that last assms(1) by (auto simp: g sys_inv_def split: if_splits)
  ultimately show ?thesis
    using assms(1,2) ex' by (auto simp: sys_inv_def g)
qed

lemma finish_effect:
  assumes "sys_inv J s" "remove_expired E ex (sy_inner s) = (r, g)"
  obtains ips where "ips \<subseteq> set ex" "r = Ok () \<Longrightarrow> ips = set ex" "store_inv J (in_store g)"
    "store_abs J (in_store g) = store_abs J (in_store (sy_inner s)) |` (- ips)"
    "in_health g = in_health (sy_inner s) |` (- ips)" "in_offline_ttl g = in_offline_ttl (sy_inner s)"
proof -
  have i: "store_inv J (in_store (sy_inner s))" using assms(1) by (simp add: sys_inv_def server_inv_def)
  show thesis
  proof (cases r)
    case (Ok u)
    from remove_expired_Ok [OF i, of E ex g] assms(2) Ok show thesis by (intro that [of "set ex"]) simp_all
  next
    case (Err e)
    from remove_expired_Err [OF i assms(2) [unfolded Err]]
    obtain k where k: "remove_expired E (take k ex) (sy_inner s) = (Ok (), g)" by blast
    have "set (take k ex) \<subseteq> set ex" by (rule set_take_subset)
    with remove_expired_Ok [OF i k] Err show thesis
      by (intro that [of "set (take k ex)"]) simp_all
  next
    case (Panic p)
    with assms(2) remove_expired_not_Panic show thesis by (metis fst_conv)
  qed
qed

lemma sys_step_inv: "sys_step J s s' \<Longrightarrow> sys_inv J s \<Longrightarrow> sys_inv J s'"
proof (induction rule: sys_step.induct)
  case (tick s t)
  then show ?case by (fastforce simp: sys_inv_def)
next
  case (request s W peer c r g out)
  then show ?case by (blast intro: request_inv)
next
  case (snapshot s W nodes)
  have "engine_ok (w_sql W)" "store_inv J (in_store (sy_inner s))"
    using snapshot world_okD(2) by (auto simp: sys_inv_def server_inv_def in_world_def)
  from ns.list_ips [OF this snapshot(3)] snapshot(4) show ?case by (simp add: sys_inv_def)
next
  case (start s nodes ttl)
  then show ?case by (simp add: sys_inv_def)
next
  case (probe s now ttl n nodes ex answer g ex')
  then show ?case by (blast intro: probe_inv)
next
  case (finish s now ttl ex W r g)
  from finish_effect [OF finish(4,3)] show ?case
  proof cases
    case (1 ips)
    have "hs_last_ok h \<le> sy_now s" if "in_health g ip = Some h" for ip h
      using that finish(4) 1(5) by (auto simp: restrict_map_def sys_inv_def split: if_splits)
    with 1 finish(4) show ?thesis by (simp add: sys_inv_def server_inv_def)
  qed
qed

lemma sys_reach_inv: "sys_reach J s \<Longrightarrow> sys_inv J s"
proof (induction rule: sys_reach.induct)
  case (init W config sv)
  note new = df_server_new_Ok [OF init(1,3)]
  then have "hs_last_ok h \<le> w_now W" if "in_health (sv_inner sv) ip = Some h" for ip h
    using that by fastforce
  with new init(2) show ?case by (auto simp: sys_inv_def)
next
  case (step s s')
  then show ?case by (blast intro: sys_step_inv)
qed

section \<open>Refinement\<close>

text \<open>With nothing between them, the steps of the probe task are \<open>run_probe_cycle\<close>.\<close>

lemma probe_steps:
  "sys_pc_run = sys_step J \<Longrightarrow> sy_pc s = Probing now ttl nodes ex \<Longrightarrow>
     probe_nodes answer now ttl nodes (sy_inner s, ex) = (g, ex') \<Longrightarrow>
     sys_pc_run\<^sup>*\<^sup>* s (s\<lparr>sy_inner := g, sy_pc := Probing now ttl [] ex'\<rparr>)"
proof (induction nodes arbitrary: s ex)
  case Nil
  then have "s = s\<lparr>sy_inner := g, sy_pc := Probing now ttl [] ex'\<rparr>" by (cases s) simp
  then show ?case by (metis rtranclp.rtrancl_refl)
next
  case (Cons n nodes)
  obtain g1 ex1 where 1: "probe_one now ttl (ni_ip n) (answer n) (sy_inner s, ex) = (g1, ex1)"
    by (cases "probe_one now ttl (ni_ip n) (answer n) (sy_inner s, ex)")
  let ?s = "s\<lparr>sy_inner := g1, sy_pc := Probing now ttl nodes ex1\<rparr>"
  have "sys_step J s ?s" by (rule sys_step.probe [OF Cons.prems(2) 1])
  moreover have "sys_pc_run\<^sup>*\<^sup>* ?s (?s\<lparr>sy_inner := g, sy_pc := Probing now ttl [] ex'\<rparr>)"
    by (rule Cons.IH) (use Cons.prems 1 in simp_all)
  ultimately show ?case using Cons.prems(1) by (simp add: converse_rtranclp_into_rtranclp)
qed

lemma cycle_steps:
  assumes "in_world J s W" "sy_pc s = Idle"
  shows "(sys_step J)\<^sup>*\<^sup>* s (s\<lparr>sy_inner := snd (run_probe_cycle W answer (sy_inner s))\<rparr>)"
proof -
  have W: "w_json W = J" "w_now W = sy_now s" using assms(1) by (auto simp: in_world_def)
  have idle: "s\<lparr>sy_inner := g, sy_pc := Idle\<rparr> = s\<lparr>sy_inner := g\<rparr>" for g
    using assms(2) by (cases s) simp
  show ?thesis
  proof (cases "store_list_all J (w_sql W) (in_store (sy_inner s))")
    case (Ok nodes)
    let ?ttl = "in_offline_ttl (sy_inner s)"
    let ?s1 = "s\<lparr>sy_pc := Listed nodes ?ttl\<rparr>"
    let ?s2 = "s\<lparr>sy_pc := Probing (sy_now s) ?ttl nodes []\<rparr>"
    obtain g1 ex where p: "probe_nodes answer (sy_now s) ?ttl nodes (sy_inner s, []) = (g1, ex)"
      by (cases "probe_nodes answer (sy_now s) ?ttl nodes (sy_inner s, [])")
    let ?s3 = "s\<lparr>sy_inner := g1, sy_pc := Probing (sy_now s) ?ttl [] ex\<rparr>"
    obtain r g where f: "remove_expired (w_sql W) ex g1 = (r, g)"
      by (cases "remove_expired (w_sql W) ex g1")
    have a: "sys_step J s ?s1" by (rule sys_step.snapshot [OF assms(2,1) Ok])
    have b: "sys_step J ?s1 ?s2" using sys_step.start [of ?s1 nodes ?ttl J] by simp
    have c: "(sys_step J)\<^sup>*\<^sup>* ?s2 ?s3"
      using probe_steps [OF refl, of ?s2 "sy_now s" ?ttl nodes "[]" answer g1 ex J] p by simp
    have d: "sys_step J ?s3 (s\<lparr>sy_inner := g\<rparr>)"
      using sys_step.finish [of ?s3 "sy_now s" ?ttl ex J W r g] assms(1) f
      by (simp add: in_world_def idle)
    have "snd (run_probe_cycle W answer (sy_inner s)) = g"
      using Ok p f W by (cases "ex = []") (simp_all add: run_probe_cycle_def Let_def)
    moreover have "(sys_step J)\<^sup>*\<^sup>* s (s\<lparr>sy_inner := g\<rparr>)"
      using a b c d by (meson converse_rtranclp_into_rtranclp rtranclp.rtrancl_into_rtrancl)
    ultimately show ?thesis by simp
  next
    case (Err e)
    then have "run_probe_cycle W answer (sy_inner s) = (Err (SrvE_Store e), sy_inner s)"
      by (simp add: run_probe_cycle_def W)
    then show ?thesis by simp
  qed simp
qed

section \<open>A sample run\<close>

text \<open>
  A restart on a file with one node, thirty seconds without an answer, and the probe task
  right before its removal step.
\<close>

lemma sample_expired:
  obtains s W where "sys_reach sample_json s" "sy_pc s = Probing 1030 30 [] [''10.0.0.1'']"
    "in_world sample_json s W" "\<forall>q. eng_fault (w_sql W) q = None" "w_codec W = sample_codec"
    "store_abs sample_json (in_store (sy_inner s)) =
       [''10.0.0.1'' \<mapsto> registered_node sample_peer sample_register]"
proof -
  let ?n = "registered_node sample_peer sample_register"
  obtain st sv where W: "world_ok (sample_disk st)"
    and sv: "df_server_new (sample_disk st) sample_config = Ok sv"
    and abs: "store_abs sample_json (in_store (sv_inner sv)) = [''10.0.0.1'' \<mapsto> ?n]"
    by (rule sample_restart)
  let ?g = "sv_inner sv" and ?W = "(sample_disk st)\<lparr>w_now := 1030\<rparr>"
  note new = df_server_new_Ok [OF W sv]
  have ttl: "in_offline_ttl ?g = 30" using new by (simp add: sample_config_def)
  have "''10.0.0.1'' \<in> dom (in_health ?g)"
    using new [THEN conjunct1, unfolded server_inv_def] abs by simp
  then obtain hh where "in_health ?g ''10.0.0.1'' = Some hh" by blast
  with new [THEN conjunct2, THEN conjunct1] have h: "in_health ?g ''10.0.0.1'' = Some \<lparr>hs_healthy = False, hs_last_ok = 1000\<rparr>" by simp
  have inv: "store_inv sample_json (in_store ?g)" using new by (simp add: server_inv_def)
  have E: "engine_ok (w_sql ?W)" "world_ok ?W" using W by (simp_all add: world_ok_def)
  obtain all where l: "store_list_all sample_json (w_sql ?W) (in_store ?g) = Ok all"
    using store_list_all_succeeds [OF E(1) inv] by auto
  have all: "all = [?n]" by (rule list_single [OF E(1) inv abs l])
  let ?s0 = "\<lparr>sy_inner = ?g, sy_pc = Idle, sy_now = 1000\<rparr>"
  have "sys_reach sample_json ?s0" using sys_reach.init [OF W _ sv] by simp
  moreover have "sys_step sample_json ?s0 (?s0\<lparr>sy_now := 1030\<rparr>)" by (rule sys_step.tick) simp
  ultimately have "sys_reach sample_json (?s0\<lparr>sy_now := 1030\<rparr>)" by (rule sys_reach.step)
  then have 1: "sys_reach sample_json \<lparr>sy_inner = ?g, sy_pc = Idle, sy_now = 1030\<rparr>" by simp
  have iw: "in_world sample_json \<lparr>sy_inner = g, sy_pc = pc, sy_now = 1030\<rparr> ?W" for g pc
    using E by (simp add: in_world_def)
  have "sys_reach sample_json \<lparr>sy_inner = ?g, sy_pc = Listed [?n] 30, sy_now = 1030\<rparr>"
    using sys_reach.step [OF 1 sys_step.snapshot [OF _ iw]] l ttl by (simp add: all)
  then have 2: "sys_reach sample_json \<lparr>sy_inner = ?g, sy_pc = Probing 1030 30 [?n] [], sy_now = 1030\<rparr>"
    using sys_reach.step [OF _ sys_step.start
        [of "\<lparr>sy_inner = ?g, sy_pc = Listed [?n] 30, sy_now = 1030\<rparr>" "[?n]" 30]] by simp
  let ?g' = "?g\<lparr>in_health := (in_health ?g)(''10.0.0.1'' \<mapsto> \<lparr>hs_healthy = False, hs_last_ok = 1000\<rparr>)\<rparr>"
  have "probe_one 1030 30 ''10.0.0.1'' False (?g, []) = (?g', [''10.0.0.1''])"
    by (simp add: probe_one_eq h expires_def probed_def)
  then have "sys_reach sample_json \<lparr>sy_inner = ?g', sy_pc = Probing 1030 30 [] [''10.0.0.1''], sy_now = 1030\<rparr>"
    using sys_reach.step [OF 2 sys_step.probe [of _ 1030 30 ?n "[]" "[]" False]]
    by (simp add: sample_peer_def)
  then show thesis
    by (rule that [OF _ _ iw]) (simp_all add: abs)
qed

definition sample_conn :: stream where
  "sample_conn = \<lparr>st_rd = sample_reader (wire 8 5 (f_data sample_register_frame)), st_wr = open_sink eof\<rparr>"

lemma sample_conn_read [simp]:
  "read_frame C K (st_rd sample_conn) = Ok (sample_register_frame, sample_reader [])"
  "st_wr sample_conn = open_sink eof"
proof -
  let ?d = "f_data sample_register_frame"
  have f: "sample_register_frame = plain_frame MSG_REGISTER 5 ?d"
    by (simp add: sample_register_frame_def)
  have "length ?d \<le> u16_MAX"
    by (simp add: sample_register_frame_def sample_json_def put_list_def put_nat_def put_str_def
        to_vec_def sample_register_def u16_MAX_def)
  from read_plain_frame [OF _ this, of MSG_REGISTER "st_rd sample_conn" 5 "[]" C K]
  show "read_frame C K (st_rd sample_conn) = Ok (sample_register_frame, sample_reader [])"
    using f by (simp add: sample_conn_def MSG_REGISTER_def)
qed (simp add: sample_conn_def)

section \<open>Properties\<close>

text \<open>
  C5: In every reachable state of the running registry, at any point of the probe task, each
  registered node has exactly one health record and no other record exists, the nodes the
  probe task still works on are registered, and no success lies in the future.
\<close>

theorem reachable_consistent:
  assumes "sys_reach J s"
  shows "store_inv J (in_store (sy_inner s)) \<and>
    dom (in_health (sy_inner s)) = dom (store_abs J (in_store (sy_inner s))) \<and>
    pc_ips (sy_pc s) \<subseteq> dom (store_abs J (in_store (sy_inner s))) \<and>
    (\<forall>ip h. in_health (sy_inner s) ip = Some h \<longrightarrow> hs_last_ok h \<le> sy_now s)"
  using sys_reach_inv [OF assms] by (simp add: sys_inv_def server_inv_def)

theorem reachable_consistent_witness:
  "\<exists>s :: nat sys. sys_reach sample_json s \<and> pc_ips (sy_pc s) = {''10.0.0.1''} \<and>
     ''10.0.0.1'' \<in> dom (in_health (sy_inner s))"
proof -
  obtain s W where "sys_reach sample_json s" "sy_pc s = Probing 1030 30 [] [''10.0.0.1'']"
    "in_world sample_json s W" "\<forall>q. eng_fault (w_sql W) q = None" "w_codec W = sample_codec"
    "store_abs sample_json (in_store (sy_inner s)) =
       [''10.0.0.1'' \<mapsto> registered_node sample_peer sample_register]"
    by (rule sample_expired)
  with reachable_consistent [OF this(1)] show ?thesis by (intro exI [of _ s]) simp
qed

text \<open>
  The interleaved system refines to the sequential cycle: with no request between them,
  the steps of the probe task lead exactly to the state \<open>run_probe_cycle\<close> computes, whether
  it succeeds or fails.
\<close>

theorem uninterrupted_cycle:
  assumes "sys_reach J s" and "sy_pc s = Idle" and "in_world J s W"
  shows "(sys_step J)\<^sup>*\<^sup>* s (s\<lparr>sy_inner := snd (run_probe_cycle W answer (sy_inner s))\<rparr>) \<and>
    sys_reach J (s\<lparr>sy_inner := snd (run_probe_cycle W answer (sy_inner s))\<rparr>)"
proof -
  have "sys_reach J s'" if "(sys_step J)\<^sup>*\<^sup>* s s'" for s'
    using that assms(1) by (induction rule: rtranclp_induct) (auto intro: sys_reach.step)
  with cycle_steps [OF assms(3,2)] show ?thesis by blast
qed

theorem uninterrupted_cycle_witness:
  "\<exists>st (s :: nat sys). sys_reach sample_json s \<and>
     sys_reach sample_json
       (s\<lparr>sy_inner := snd (run_probe_cycle (sample_disk st) (\<lambda>_. True) (sy_inner s))\<rparr>)"
proof -
  obtain st sv where W: "world_ok (sample_disk st)"
    and sv: "df_server_new (sample_disk st) sample_config = Ok sv"
    and "store_abs sample_json (in_store (sv_inner sv)) =
      [''10.0.0.1'' \<mapsto> registered_node sample_peer sample_register]"
    by (rule sample_restart)
  let ?s = "\<lparr>sy_inner = sv_inner sv, sy_pc = Idle, sy_now = 1000\<rparr>"
  have r: "sys_reach sample_json ?s" using sys_reach.init [OF W _ sv] by simp
  have "in_world sample_json ?s (sample_disk st)" using W by (simp add: in_world_def)
  from uninterrupted_cycle [OF r _ this, of "\<lambda>_. True"] r show ?thesis
    by (intro exI [of _ st] exI [of _ ?s]) simp
qed

text \<open>The list of nodes the probe task is going to remove.\<close>

fun pc_expired :: "'e probe_pc \<Rightarrow> string set" where
  "pc_expired (Probing now ttl nodes ex) = set ex"
| "pc_expired _ = {}"

lemma probe_expires:
  assumes "sy_pc s = Probing now ttl (n # nodes) ex"
    and "probe_one now ttl (ni_ip n) answer (sy_inner s, ex) = (g, ex')"
    and "ip \<in> set ex'" "ip \<notin> set ex" "in_health (sy_inner s) ip \<noteq> None"
  shows "\<exists>h. in_health g ip = Some h \<and> \<not> hs_healthy h \<and> ttl \<le> now - hs_last_ok h"
  using assms by (auto simp: probe_one_eq expires_def probed_def split: if_splits)

text \<open>
  C4: Only the last step of a probe cycle unregisters a node, and only one on its expiry list;
  a node gets on that list only by a probe that failed and left it unhealthy with a last
  success at least the offline time before the cycle. In particular no request, of any
  peer, ever removes a node.
\<close>

theorem only_expiry_removes:
  assumes "sys_reach J s" and "sys_step J s s'"
  shows "(\<forall>ip n. store_abs J (in_store (sy_inner s)) ip = Some n \<and>
         store_abs J (in_store (sy_inner s')) ip = None \<longrightarrow>
       (\<exists>now ttl ex. sy_pc s = Probing now ttl [] ex \<and> ip \<in> set ex \<and> sy_pc s' = Idle)) \<and>
    (\<forall>ip. ip \<in> pc_expired (sy_pc s') - pc_expired (sy_pc s) \<longrightarrow>
       (\<exists>now ttl nodes ex h. sy_pc s' = Probing now ttl nodes ex \<and>
          in_health (sy_inner s') ip = Some h \<and> \<not> hs_healthy h \<and> ttl \<le> now - hs_last_ok h))"
  using assms(2)
proof (cases rule: sys_stepE)
  case (request W peer c r g out)
  from sys_reach_inv [OF assms(1)] request(2) have
    w: "world_ok W" "server_inv (w_json W) (sy_inner s)" "w_json W = J"
    by (simp_all add: sys_inv_def in_world_def)
  with request_inner [OF w(1,2) request(3)] request(1)
  show ?thesis by (auto split: if_splits)
next
  case (probe now ttl n nodes ex answer g ex')
  have i: "sys_inv J s" by (rule sys_reach_inv [OF assms(1)])
  have "in_health (sy_inner s) ip \<noteq> None" if "ip \<in> set ex' - set ex" for ip
    using that probe(2,3) i by (auto simp: probe_one_eq sys_inv_def server_inv_def split: if_splits)
  with probe_expires [OF probe(2,3)] have
    "\<exists>h. in_health g ip = Some h \<and> \<not> hs_healthy h \<and> ttl \<le> now - hs_last_ok h"
    if "ip \<in> set ex' - set ex" for ip using that by blast
  moreover have "in_store g = in_store (sy_inner s)" using probe(3) by (auto simp: probe_one_eq)
  ultimately show ?thesis using probe(1,2) by simp
next
  case (finish now ttl ex W r g)
  from finish_effect [OF sys_reach_inv [OF assms(1)] finish(4)] show ?thesis
    by cases (use finish(1,2) in \<open>auto simp: restrict_map_def split: if_splits\<close>)
qed auto

theorem only_expiry_removes_witness:
  "\<exists>s s' :: nat sys. sys_reach sample_json s \<and> sys_step sample_json s s' \<and>
     store_abs sample_json (in_store (sy_inner s')) ''10.0.0.1'' = None \<and>
     (\<exists>now ttl ex. sy_pc s = Probing now ttl [] ex \<and> ''10.0.0.1'' \<in> set ex \<and> sy_pc s' = Idle)"
proof -
  obtain s W where s: "sys_reach sample_json s" "sy_pc s = Probing 1030 30 [] [''10.0.0.1'']"
    "in_world sample_json s W" "\<forall>q. eng_fault (w_sql W) q = None" "w_codec W = sample_codec"
    "store_abs sample_json (in_store (sy_inner s)) =
       [''10.0.0.1'' \<mapsto> registered_node sample_peer sample_register]"
    by (rule sample_expired)
  have i: "store_inv sample_json (in_store (sy_inner s))"
    using sys_reach_inv [OF s(1)] by (simp add: sys_inv_def server_inv_def)
  from remove_expired_succeeds [OF s(4) [rule_format] i] obtain g where
    r: "remove_expired (w_sql W) [''10.0.0.1''] (sy_inner s) = (Ok (), g)" by blast
  let ?s = "s\<lparr>sy_inner := g, sy_pc := Idle\<rparr>"
  have st: "sys_step sample_json s ?s" by (rule sys_step.finish [OF s(2,3) r])
  have n: "store_abs sample_json (in_store (sy_inner ?s)) ''10.0.0.1'' = None"
    using remove_expired_Ok [OF i r] by (simp add: restrict_map_def)
  from only_expiry_removes [OF s(1) st, THEN conjunct1] n s(6)
  have "\<exists>now ttl ex. sy_pc s = Probing now ttl [] ex \<and> ''10.0.0.1'' \<in> set ex \<and> sy_pc ?s = Idle"
    by (metis fun_upd_same)
  with s(1) st n show ?thesis by blast
qed

text \<open>
  C22: A registration can be lost. When a node on the expiry list registers before the probe
  task takes the lock for the last time, the peer gets its ACK and the node is registered and
  healthy, and yet the next step of the probe task removes it: the health record is not
  looked at again before the removal.
\<close>

theorem reregistration_lost:
  assumes "sys_reach J s" and "sy_pc s = Probing now ttl [] ex" and "in_world J s W"
    and "read_frame (w_codec W) (w_key W) (st_rd c) = Ok (f, rest)"
    and "f_message_type f = MSG_REGISTER" and "register_from_slice J (f_data f) = Inr req"
    and "rr_labels req \<noteq> []" and "ip_to_string (sa_ip peer) \<in> set ex" and "sink_good (st_wr c)"
    and "df_handle_conn W peer c (sy_inner s) = (Ok (), g1, out)"
    and "remove_expired (w_sql W) ex g1 = (Ok (), g2)"
  shows "sys_step J s (s\<lparr>sy_inner := g1\<rparr>) \<and>
    sys_step J (s\<lparr>sy_inner := g1\<rparr>) (s\<lparr>sy_inner := g2, sy_pc := Idle\<rparr>) \<and>
    out = put_plain MSG_REGISTER_ACK (f_tx_id f) [123, 125] (st_wr c) \<and>
    store_abs J (in_store g1) (ip_to_string (sa_ip peer)) = Some (registered_node peer req) \<and>
    in_health g1 (ip_to_string (sa_ip peer)) = Some \<lparr>hs_healthy = True, hs_last_ok = sy_now s\<rparr> \<and>
    store_abs J (in_store g2) (ip_to_string (sa_ip peer)) = None"
proof -
  have W: "world_ok W" "w_json W = J" "w_now W = sy_now s" using assms(3) by (auto simp: in_world_def)
  have i: "sys_inv J s" by (rule sys_reach_inv [OF assms(1)])
  then have inv: "server_inv (w_json W) (sy_inner s)" using W(2) by (simp add: sys_inv_def)
  have h: "handle_frame W peer f (sy_inner s) (st_wr c) = (Ok (), g1, out)"
    using assms(4,10) by (simp add: df_handle_conn_def)
  have "register_from_slice (w_json W) (f_data f) = Inr req" using assms(6) W(2) by simp
  from handle_register_eq [OF this assms(7), of peer "sy_inner s" "st_wr c"] h assms(5)
  obtain st where u: "store_upsert (w_json W) (w_sql W) (w_wall W) (in_store (sy_inner s))
      (registered_node peer req) = Ok st" and g1: "g1 = registered W (ip_to_string (sa_ip peer)) st (sy_inner s)"
    and o: "out = put_plain MSG_REGISTER_ACK (f_tx_id f) [123, 125] (st_wr c)"
    using write_frame_plain_good [OF assms(9)]
    by (auto simp: handle_frame_def dfinder_msgs u16_MAX_def split: res.splits)
  have law: "store_inv J st" "store_abs J st =
      (store_abs J (in_store (sy_inner s)))(ip_to_string (sa_ip peer) \<mapsto> registered_node peer req)"
    using ns.upsert_law [OF world_okD(1) [OF W(1)] _ u] inv W(2) by (simp_all add: server_inv_def)
  have "sys_step J s (s\<lparr>sy_inner := g1\<rparr>)" by (rule sys_step.request [OF assms(3,10)])
  moreover have "sys_step J (s\<lparr>sy_inner := g1\<rparr>) (s\<lparr>sy_inner := g2, sy_pc := Idle\<rparr>)"
    using sys_step.finish [of "s\<lparr>sy_inner := g1\<rparr>" now ttl ex J W "Ok ()" g2] assms(2,3,11)
    by (simp add: in_world_def)
  moreover have "store_abs J (in_store g2) (ip_to_string (sa_ip peer)) = None"
    using remove_expired_Ok [OF _ assms(11), of J] law(1) assms(8) by (simp add: g1 restrict_map_def)
  ultimately show ?thesis using o law W(3) by (simp add: g1)
qed

theorem reregistration_lost_witness:
  "\<exists>(s :: nat sys) g1 g2 out. sys_reach sample_json s \<and> sys_step sample_json s (s\<lparr>sy_inner := g1\<rparr>) \<and>
     sys_step sample_json (s\<lparr>sy_inner := g1\<rparr>) (s\<lparr>sy_inner := g2, sy_pc := Idle\<rparr>) \<and>
     out = put_plain MSG_REGISTER_ACK 5 [123, 125] (open_sink eof) \<and>
     store_abs sample_json (in_store g1) ''10.0.0.1'' = Some (registered_node sample_peer sample_register) \<and>
     store_abs sample_json (in_store g2) ''10.0.0.1'' = None"
proof -
  obtain s W where s: "sys_reach sample_json s" "sy_pc s = Probing 1030 30 [] [''10.0.0.1'']"
    "in_world sample_json s W" "\<forall>q. eng_fault (w_sql W) q = None" "w_codec W = sample_codec"
    "store_abs sample_json (in_store (sy_inner s)) =
       [''10.0.0.1'' \<mapsto> registered_node sample_peer sample_register]"
    by (rule sample_expired)
  have W: "world_ok W" "w_json W = sample_json" using s(3) by (auto simp: in_world_def)
  have inv: "server_inv sample_json (sy_inner s)" using sys_reach_inv [OF s(1)] by (simp add: sys_inv_def)
  then have "store_inv sample_json (in_store (sy_inner s))" by (simp add: server_inv_def)
  from store_upsert_succeeds [OF this s(4) [rule_format]] obtain st where
    st: "store_upsert sample_json (w_sql W) (w_wall W) (in_store (sy_inner s))
      (registered_node sample_peer sample_register) = Ok st"
    by (fastforce simp: sample_json_def)
  let ?g1 = "registered W ''10.0.0.1'' st (sy_inner s)"
  have p: "ip_to_string (sa_ip sample_peer) = ''10.0.0.1''" by (simp add: sample_peer_def)
  have c: "df_handle_conn W sample_peer sample_conn (sy_inner s) =
      (Ok (), ?g1, put_plain MSG_REGISTER_ACK 5 [123, 125] (open_sink eof))"
    using handle_register_eq [of W sample_register_frame sample_register sample_peer "sy_inner s" "open_sink eof"]
    by (simp add: df_handle_conn_def handle_frame_def W st write_frame_plain_good dfinder_msgs u16_MAX_def p)
  have "server_inv sample_json ?g1"
    using df_handle_conn_inv [OF W(1), of "sy_inner s" sample_peer sample_conn] inv by (simp add: W c)
  then have "store_inv sample_json (in_store ?g1)" by (simp add: server_inv_def)
  from remove_expired_succeeds [OF s(4) [rule_format] this] obtain g2 where
    r: "remove_expired (w_sql W) [''10.0.0.1''] ?g1 = (Ok (), g2)" by blast
  have a: "ip_to_string (sa_ip sample_peer) \<in> set [''10.0.0.1'']" "sink_good (st_wr sample_conn)"
    "rr_labels sample_register \<noteq> []" by (simp_all add: p)
  from reregistration_lost [OF s(1,2,3) sample_conn_read(1) sample_register_frame_simps(1,3) a(3,1,2) c r]
  show ?thesis
    unfolding p using s(1) by (intro exI [of _ s] exI [of _ ?g1] exI [of _ g2] exI) (simp only: simp_thms)
qed

end
