(* ===== verification/Client_Conn.thy ===== *)
theory Client_Conn
  imports Frame_Channel
begin

text \<open>
  What the two clients (\<open>src/dfinder/client.rs\<close>, \<open>src/prom_proxy/client.rs\<close>) share: a TCP
  connection seen from the side that opened it, a peer that serves it, and the contract of
  transaction ids, the locale \<open>tx_source\<close>.
\<close>

section \<open>Connections\<close>

text \<open>
  An opened connection: a writer, and what can be read after the bytes written so far.
  \<open>TcpStream::connect\<close> gives one or an error.
\<close>

record conn =
  cn_wr :: sink
  cn_reply :: "bytes \<Rightarrow> reader"

type_synonym 's serve = "stream \<Rightarrow> 's \<times> sink"

definition accepted :: "io_error \<Rightarrow> bytes \<Rightarrow> stream" where
  "accepted e out = \<lparr>st_rd = \<lparr>rd_inp = out, rd_end = e\<rparr>, st_wr = open_sink e\<rparr>"

text \<open>A reliable connection to a peer that serves each accepted stream with \<open>serve\<close>.\<close>

definition conn_to :: "io_error \<Rightarrow> 's serve \<Rightarrow> conn" where
  "conn_to e serve =
     \<lparr>cn_wr = open_sink e,
      cn_reply = (\<lambda>out. \<lparr>rd_inp = sk_out (snd (serve (accepted e out))), rd_end = e\<rparr>)\<rparr>"

lemma accepted_simps [simp]:
  "rd_inp (st_rd (accepted e out)) = out" "rd_end (st_rd (accepted e out)) = e"
  "st_wr (accepted e out) = open_sink e"
  by (simp_all add: accepted_def)

lemma conn_to_simps [simp]:
  "cn_wr (conn_to e serve) = open_sink e"
  "rd_inp (cn_reply (conn_to e serve) out) = sk_out (snd (serve (accepted e out)))"
  "rd_end (cn_reply (conn_to e serve) out) = e"
  by (simp_all add: conn_to_def)

lemma read_frame_empty: "rd_inp r = [] \<Longrightarrow> read_frame C K r = Err (rd_end r)"
  by (simp add: read_frame_def read_exact_def)

lemma open_sink_put [simp]: "sk_out (put_plain mt tx d (open_sink e)) = wire (push_bit 3 mt) tx d"
  by simp

section \<open>Transaction ids\<close>

text \<open>The counters of the clients cycle through \<open>1 .. 2^64 - 1\<close>.\<close>

definition period :: nat where
  "period = 2 ^ 64 - 1"

lemma max_1_u64: "max (w :: u64) 1 = (if w = 0 then 1 else w)"
proof (cases "w = 0")
  case False
  then have "1 \<le> w" by (simp add: word_le_nat_alt Suc_le_eq unat_gt_0)
  with False show ?thesis by (simp add: max_def)
qed (simp add: max_def)

text \<open>
  The contract of a source of transaction ids: the next id is the current counter, and the
  counter goes up by one and skips 0 when it wraps.
\<close>

locale tx_source =
  fixes next_id :: "'c \<Rightarrow> u64 \<times> 'c"
    and counter :: "'c \<Rightarrow> u64"
  assumes next_id_id: "fst (next_id c) = counter c"
    and next_id_counter: "counter (snd (next_id c)) = (if counter c + 1 = 0 then 1 else counter c + 1)"
begin

fun ids :: "nat \<Rightarrow> 'c \<Rightarrow> u64 list" where
  "ids 0 c = []"
| "ids (Suc n) c = fst (next_id c) # ids n (snd (next_id c))"

lemma length_ids [simp]: "length (ids n c) = n"
  by (induction n arbitrary: c) auto

lemma counter_step:
  assumes "counter c \<noteq> 0"
  shows "counter (snd (next_id c)) \<noteq> 0"
    and "unat (counter (snd (next_id c))) - 1 = (unat (counter c) - 1 + 1) mod period"
proof -
  have b: "unat (counter c) < 2 ^ 64" using unsigned_less [of "counter c"] by simp
  have pos: "0 < unat (counter c)" using assms by (simp add: unat_gt_0)
  show "counter (snd (next_id c)) \<noteq> 0" by (simp add: next_id_counter)
  have suc: "unat (counter c + 1) = (if unat (counter c) + 1 = 2 ^ 64 then 0 else unat (counter c) + 1)"
    using b by (simp add: unat_word_ariths)
  then have z: "counter c + 1 = 0 \<longleftrightarrow> unat (counter c) + 1 = 2 ^ 64"
    by (simp add: unat_eq_0 [symmetric] split: if_splits)
  show "unat (counter (snd (next_id c))) - 1 = (unat (counter c) - 1 + 1) mod period"
    using suc z b pos by (auto simp: next_id_counter period_def)
qed

lemma ids_nth:
  assumes "counter c \<noteq> 0" "i < n"
  shows "ids n c ! i \<noteq> 0 \<and> unat (ids n c ! i) - 1 = (unat (counter c) - 1 + i) mod period"
  using assms
proof (induction n arbitrary: c i)
  case (Suc n)
  have "unat (counter c) < 2 ^ 64" using unsigned_less [of "counter c"] by simp
  moreover have "0 < unat (counter c)" using Suc.prems(1) by (simp add: unat_gt_0)
  ultimately have b: "unat (counter c) - 1 < period" by (simp add: period_def)
  show ?case
  proof (cases i)
    case 0
    then show ?thesis using Suc.prems b by (simp add: next_id_id)
  next
    case (Suc j)
    with Suc.IH [OF counter_step(1) [OF Suc.prems(1)], of j] Suc.prems(2)
    show ?thesis
      by (simp only: ids.simps nth_Cons_Suc counter_step(2) [OF Suc.prems(1)] mod_add_left_eq) simp
  qed
qed simp

text \<open>Ids are never 0, and no id comes back within \<open>2^64 - 1\<close> calls.\<close>

lemma ids_nonzero: "counter c \<noteq> 0 \<Longrightarrow> 0 \<notin> set (ids n c)"
  using ids_nth [of c _ n] by (auto simp: in_set_conv_nth)

lemma ids_distinct:
  assumes "counter c \<noteq> 0" "n \<le> period"
  shows "distinct (ids n c)"
proof (rule distinct_conv_nth [THEN iffD2], intro allI impI notI)
  fix i j assume ij: "i < length (ids n c)" "j < length (ids n c)" "i \<noteq> j" "ids n c ! i = ids n c ! j"
  let ?a = "unat (counter c) - 1"
  have "(?a + i) mod period = (?a + j) mod period"
    using ids_nth [OF assms(1), of i n] ids_nth [OF assms(1), of j n] ij by simp
  then have "i mod period = j mod period" by (simp add: nat_mod_eq_iff)
  then show False using ij assms(2) by simp
qed

end

end
