(* ===== verification/Dfinder_Client.thy ===== *)
theory Dfinder_Client
  imports Client_Conn Dfinder_Server
begin

text \<open>
  The registry's client, \<open>src/dfinder/client.rs\<close>. A call gets the serialisation, the codec,
  key and random bytes it runs with, and \<open>connect\<close>, what \<open>TcpStream::connect\<close> answers. It
  returns its result, the client and the bytes it put on the wire. The local health check
  is an async closure of the user: \<open>check\<close>.
\<close>

section \<open>The client\<close>

datatype client_error = ClE_Io io_error | ClE_Json json_error | ClE_Protocol string

record client =
  cl_next_tx :: u64

definition client_new :: client where
  "client_new = \<lparr>cl_next_tx = 1\<rparr>"

definition next_tx_id :: "client \<Rightarrow> u64 \<times> client" where
  "next_tx_id c =
     (let id = cl_next_tx c in (id, c\<lparr>cl_next_tx := max (cl_next_tx c + 1) 1\<rparr>))"

definition client_register ::
  "'e json \<Rightarrow> codec \<Rightarrow> key_cell \<Rightarrow> rng \<Rightarrow> io_error + conn \<Rightarrow> u16 \<Rightarrow> string list \<Rightarrow> 'e \<Rightarrow> client \<Rightarrow>
   (client_error, unit) res \<times> client \<times> bytes" where
  "client_register J C K rng connect port labels extra c =
     (if labels = [] then (Err (ClE_Protocol ''register requires >= 1 label''), c, [])
      else
        let (tx_id, c) = next_tx_id c in
        sbind (map_err ClE_Io (of_sum connect), c, []) (\<lambda>stream (c, out).
        sbind (map_err ClE_Json (of_sum (register_to_vec J
                 \<lparr>rr_port = port, rr_labels = labels, rr_extra = extra\<rparr>)), c, out) (\<lambda>body (c, out).
        let (r, w) = write_frame_plain C K rng (cn_wr stream) MSG_REGISTER tx_id body in
        sbind (map_err ClE_Io r, c, sk_out w) (\<lambda>_ (c, out).
        sbind (map_err ClE_Io (read_frame C K (cn_reply stream out)), c, out) (\<lambda>(f, _) (c, out).
        (if f_message_type f = MSG_REGISTER_ACK then Ok ()
         else if f_message_type f = MSG_ERROR
         then rbind (map_err ClE_Json (of_sum (error_from_slice J (f_data f)))) (\<lambda>err.
              Err (ClE_Protocol (eb_message err)))
         else Err (ClE_Protocol (''unexpected message_type '' @ show_dec (unat (f_message_type f)))),
         c, out))))))"

text \<open>The loop that keeps the nodes the local check accepts, in order.\<close>

fun keep_available :: "('e node_info \<Rightarrow> bool) \<Rightarrow> 'e node_info list \<Rightarrow> 'e node_info list \<Rightarrow> 'e node_info list" where
  "keep_available check [] available = available"
| "keep_available check (node # remote) available =
     keep_available check remote (if check node then available @ [node] else available)"

definition client_query_healthy ::
  "'e json \<Rightarrow> codec \<Rightarrow> key_cell \<Rightarrow> rng \<Rightarrow> io_error + conn \<Rightarrow> ('e node_info \<Rightarrow> bool) \<Rightarrow> string list \<Rightarrow> client \<Rightarrow>
   (client_error, 'e node_info list) res \<times> client \<times> bytes" where
  "client_query_healthy J C K rng connect check labels c =
     (if labels = [] then (Err (ClE_Protocol ''query requires >= 1 label''), c, [])
      else
        let (tx_id, c) = next_tx_id c in
        sbind (map_err ClE_Io (of_sum connect), c, []) (\<lambda>stream (c, out).
        sbind (map_err ClE_Json (of_sum (query_to_vec J \<lparr>qr_labels = labels\<rparr>)), c, out) (\<lambda>body (c, out).
        let (r, w) = write_frame_plain C K rng (cn_wr stream) MSG_QUERY tx_id body in
        sbind (map_err ClE_Io r, c, sk_out w) (\<lambda>_ (c, out).
        sbind (map_err ClE_Io (read_frame C K (cn_reply stream out)), c, out) (\<lambda>(f, _) (c, out).
        sbind (if f_message_type f = MSG_QUERY_RESULT
               then rbind (map_err ClE_Json (of_sum (result_from_slice J (f_data f)))) (\<lambda>result.
                    Ok (qres_nodes result))
               else if f_message_type f = MSG_ERROR
               then rbind (map_err ClE_Json (of_sum (error_from_slice J (f_data f)))) (\<lambda>err.
                    Err (ClE_Protocol (eb_message err)))
               else Err (ClE_Protocol (''unexpected message_type '' @
                    show_dec (unat (f_message_type f)))), c, out) (\<lambda>remote (c, out).
        (Ok (keep_available check remote []), c, out)))))))"

section \<open>Transaction ids\<close>

interpretation df_tx: tx_source next_tx_id cl_next_tx
  by unfold_locales (simp_all add: next_tx_id_def Let_def max_1_u64)

section \<open>Calls\<close>

lemma keep_available_eq: "keep_available check remote available = available @ filter check remote"
  by (induction remote arbitrary: available) auto

text \<open>What a call that got an answer sent and received.\<close>

lemma client_register_Ok:
  assumes "client_register J C K rng (Inr stream) port labels extra c = (Ok (), c', out)"
    and "sink_good (cn_wr stream)" "sk_out (cn_wr stream) = []"
  obtains body f r where "labels \<noteq> []" "length body \<le> u16_MAX"
    "register_to_vec J \<lparr>rr_port = port, rr_labels = labels, rr_extra = extra\<rparr> = Inr body"
    "out = wire (push_bit 3 MSG_REGISTER) (cl_next_tx c) body" "c' = snd (next_tx_id c)"
    "read_frame C K (cn_reply stream out) = Ok (f, r)" "f_message_type f = MSG_REGISTER_ACK"
  using assms(1)
  unfolding client_register_def
  by (auto simp: next_tx_id_def write_frame_plain_good [OF assms(2)] assms(3) dfinder_msgs Let_def
      split: if_splits intro: that)

lemma client_query_Ok:
  assumes "client_query_healthy J C K rng (Inr stream) check labels c = (Ok nodes, c', out)"
    and "sink_good (cn_wr stream)" "sk_out (cn_wr stream) = []"
  obtains body f r result where "labels \<noteq> []" "length body \<le> u16_MAX"
    "query_to_vec J \<lparr>qr_labels = labels\<rparr> = Inr body"
    "out = wire (push_bit 3 MSG_QUERY) (cl_next_tx c) body" "c' = snd (next_tx_id c)"
    "read_frame C K (cn_reply stream out) = Ok (f, r)" "f_message_type f = MSG_QUERY_RESULT"
    "result_from_slice J (f_data f) = Inr result" "nodes = filter check (qres_nodes result)"
  using assms(1)
  unfolding client_query_healthy_def
  by (auto simp: next_tx_id_def write_frame_plain_good [OF assms(2)] assms(3) dfinder_msgs Let_def keep_available_eq
      split: if_splits intro: that)

section \<open>Client and registry\<close>

text \<open>The registry as the peer of a connection.\<close>

definition registry_serve :: "'e world \<Rightarrow> socket_addr \<Rightarrow> inner \<Rightarrow> inner serve" where
  "registry_serve W peer g c = (let (r, g', s) = df_handle_conn W peer c g in (g', s))"

definition registry_conn :: "'e world \<Rightarrow> socket_addr \<Rightarrow> inner \<Rightarrow> conn" where
  "registry_conn W peer g = conn_to eof (registry_serve W peer g)"

definition registry_after :: "'e world \<Rightarrow> socket_addr \<Rightarrow> inner \<Rightarrow> bytes \<Rightarrow> inner" where
  "registry_after W peer g out = fst (registry_serve W peer g (accepted eof out))"

lemma serve_plain:
  assumes "unat mt \<le> 31" "length body \<le> u16_MAX"
  shows "df_handle_conn W peer (accepted eof (wire (push_bit 3 mt) tx body)) g =
     handle_frame W peer (plain_frame mt tx body) g (open_sink eof)"
  using read_plain_frame [OF assms, of "st_rd (accepted eof (wire (push_bit 3 mt) tx body))" tx "[]"]
  by (simp add: df_handle_conn_def)

lemma registry_serve_eq:
  "registry_serve W peer g c = snd (df_handle_conn W peer c g)"
  by (simp add: registry_serve_def split: prod.splits)

lemma registry_conn_simps [simp]:
  "cn_wr (registry_conn W peer g) = open_sink eof"
  "rd_inp (cn_reply (registry_conn W peer g) out) =
     sk_out (snd (registry_serve W peer g (accepted eof out)))"
  "rd_end (cn_reply (registry_conn W peer g) out) = eof"
  by (simp_all add: registry_conn_def)

lemma register_frame:
  assumes "json_ok (w_json W)" "register_to_vec (w_json W) req = Inr body" "rr_labels req \<noteq> []"
  shows "handle_frame W peer (plain_frame MSG_REGISTER tx body) g (open_sink eof) =
     (case store_upsert (w_json W) (w_sql W) (w_wall W) (in_store g) (registered_node peer req) of
        Ok st \<Rightarrow> (Ok (), registered W (ip_to_string (sa_ip peer)) st g,
                  put_plain MSG_REGISTER_ACK tx [123, 125] (open_sink eof))
      | Err e \<Rightarrow> (Err (SrvE_Store e), g, open_sink eof)
      | Panic p \<Rightarrow> (Panic p, g, open_sink eof))"
proof -
  have "register_from_slice (w_json W) (f_data (plain_frame MSG_REGISTER tx body)) = Inr req"
    using json_okD(3) [OF assms(1,2)] by simp
  from handle_register_eq [OF this assms(3)] show ?thesis
    by (simp add: handle_frame_def write_frame_plain_good dfinder_msgs u16_MAX_def split: res.splits)
qed

text \<open>A registration the client saw acknowledged is in the registry.\<close>

lemma register_reaches_registry:
  assumes "world_ok W" "server_inv (w_json W) g"
    and "client_register (w_json W) C K rng (Inr (registry_conn W peer g)) port labels extra c =
           (Ok (), c', out)"
  shows "server_inv (w_json W) (registry_after W peer g out) \<and>
    store_abs (w_json W) (in_store (registry_after W peer g out)) =
      (store_abs (w_json W) (in_store g))(ip_to_string (sa_ip peer) \<mapsto>
        \<lparr>ni_ip = ip_to_string (sa_ip peer), ni_port = port, ni_labels = labels, ni_extra = extra\<rparr>) \<and>
    in_health (registry_after W peer g out) =
      (in_health g)(ip_to_string (sa_ip peer) \<mapsto> \<lparr>hs_healthy = True, hs_last_ok = w_now W\<rparr>)"
proof -
  note w = world_okD [OF assms(1)]
  let ?req = "\<lparr>rr_port = port, rr_labels = labels, rr_extra = extra\<rparr>"
  let ?n = "registered_node peer ?req"
  from client_register_Ok [OF assms(3)] obtain body f r where
    1: "labels \<noteq> []" "length body \<le> u16_MAX" "register_to_vec (w_json W) ?req = Inr body"
    and out: "out = wire (push_bit 3 MSG_REGISTER) (cl_next_tx c) body"
    and reply: "read_frame C K (cn_reply (registry_conn W peer g) out) = Ok (f, r)"
    by (metis open_sink_good open_sink_out registry_conn_simps(1))
  have serve: "registry_serve W peer g (accepted eof out) =
      snd (handle_frame W peer (plain_frame MSG_REGISTER (cl_next_tx c) body) g (open_sink eof))"
    unfolding registry_serve_eq out using serve_plain [OF _ 1(2), of MSG_REGISTER W peer] by (simp add: dfinder_msgs)
  note h = register_frame [OF w(1) 1(3), of peer "cl_next_tx c" g]
  show ?thesis
  proof (cases "store_upsert (w_json W) (w_sql W) (w_wall W) (in_store g) ?n")
    case (Ok st)
    have a: "registry_after W peer g out = registered W (ip_to_string (sa_ip peer)) st g"
      using serve h 1(1) Ok by (simp add: registry_after_def)
    have "server_inv (w_json W) (registered W (ni_ip ?n) st g)"
      by (rule register_keeps_inv [OF assms(1,2) Ok])
    moreover have "store_abs (w_json W) st = (store_abs (w_json W) (in_store g))(ni_ip ?n \<mapsto> ?n)"
      using ns.upsert_law [OF w(1) _ Ok] assms(2) by (simp add: server_inv_def)
    ultimately show ?thesis unfolding a by (simp add: registered_node_def)
  next
    case (Err e)
    then have "rd_inp (cn_reply (registry_conn W peer g) out) = []"
      using serve h 1(1) by simp
    then show ?thesis using reply by (simp add: read_frame_empty)
  qed simp
qed

text \<open>The answer to a query, as the client sees it.\<close>

lemma query_reads_registry:
  assumes "world_ok W" "server_inv (w_json W) g"
    and "client_query_healthy (w_json W) C K rng (Inr (registry_conn W peer g)) check labels c =
           (Ok nodes, c', out)"
  shows "registry_after W peer g out = g \<and> distinct (map ni_ip nodes) \<and>
    (\<forall>n. n \<in> set nodes \<longleftrightarrow> store_abs (w_json W) (in_store g) (ni_ip n) = Some n \<and>
       node_healthy g n \<and> set labels \<subseteq> set (ni_labels n) \<and> check n)"
proof -
  note w = world_okD [OF assms(1)]
  have i: "store_inv (w_json W) (in_store g)" using assms(2) by (simp add: server_inv_def)
  from client_query_Ok [OF assms(3)] obtain body f r result where
    1: "labels \<noteq> []" "length body \<le> u16_MAX" "query_to_vec (w_json W) \<lparr>qr_labels = labels\<rparr> = Inr body"
    and out: "out = wire (push_bit 3 MSG_QUERY) (cl_next_tx c) body"
    and reply: "read_frame C K (cn_reply (registry_conn W peer g) out) = Ok (f, r)"
    and res: "result_from_slice (w_json W) (f_data f) = Inr result" "nodes = filter check (qres_nodes result)"
    by (metis open_sink_good open_sink_out registry_conn_simps(1))
  let ?f = "plain_frame MSG_QUERY (cl_next_tx c) body"
  have serve: "registry_serve W peer g (accepted eof out) = snd (handle_frame W peer ?f g (open_sink eof))"
    unfolding registry_serve_eq out using serve_plain [OF _ 1(2), of MSG_QUERY W peer] by (simp add: dfinder_msgs)
  have hq: "handle_frame W peer ?f g (open_sink eof) = handle_query W ?f g (open_sink eof)"
    by (simp add: handle_frame_def dfinder_msgs)
  then have same: "registry_after W peer g out = g" by (simp add: registry_after_def serve)
  have "query_from_slice (w_json W) (f_data ?f) = Inr \<lparr>qr_labels = labels\<rparr>"
    using json_okD(4) [OF w(1) 1(3)] by simp
  note eq = handle_query_eq [OF this, of g "open_sink eof"]
  have "sk_out (snd (snd (handle_query W ?f g (open_sink eof)))) \<noteq> []"
    using reply read_frame_empty [of "cn_reply (registry_conn W peer g) out"] serve hq by auto
  with eq 1(1) obtain all b where
    l: "store_list_all (w_json W) (w_sql W) (in_store g) = Ok all"
    and b: "result_to_vec (w_json W) \<lparr>qres_nodes = filter (node_healthy g) (filter (has_labels labels) all)\<rparr> = Inr b"
      "length b \<le> u16_MAX"
    and o: "snd (snd (handle_query W ?f g (open_sink eof))) = put_plain MSG_QUERY_RESULT (cl_next_tx c) b (open_sink eof)"
    by (auto simp: store_list_by_labels_def write_frame_plain_good dfinder_msgs
        split: res.splits sum.splits if_splits)
  have "rd_inp (cn_reply (registry_conn W peer g) out) = wire (push_bit 3 MSG_QUERY_RESULT) (cl_next_tx c) b @ []"
    using serve hq o by simp
  from read_plain_frame [OF _ b(2) this, of C K] reply have "f_data f = b" by (auto simp: dfinder_msgs)
  then have nodes: "nodes = filter check (filter (node_healthy g) (filter (has_labels labels) all))"
    using res json_okD(5) [OF w(1) b(1)] by auto
  have "distinct (map ni_ip nodes)"
    using ns.list_law [OF w(2) i l] by (simp add: nodes distinct_map_filter)
  moreover have "n \<in> set nodes \<longleftrightarrow> store_abs (w_json W) (in_store g) (ni_ip n) = Some n \<and>
      node_healthy g n \<and> set labels \<subseteq> set (ni_labels n) \<and> check n" for n
    unfolding nodes set_filter using ns.list_mem_iff [OF w(2) i l] by (auto simp: has_labels_def)
  ultimately show ?thesis using same by blast
qed

text \<open>A call succeeds when nothing outside fails and the messages fit in a frame.\<close>

lemma client_register_total:
  assumes "world_ok W" "server_inv (w_json W) g" "\<forall>q. eng_fault (w_sql W) q = None" "labels \<noteq> []"
    and "register_to_vec (w_json W) \<lparr>rr_port = port, rr_labels = labels, rr_extra = extra\<rparr> = Inr body"
    and "length body \<le> u16_MAX"
    and "labels_to_string (w_json W) labels = Inr ls" "extra_to_string (w_json W) extra = Inr ex"
  shows "client_register (w_json W) C K rng (Inr (registry_conn W peer g)) port labels extra c =
    (Ok (), snd (next_tx_id c), wire (push_bit 3 MSG_REGISTER) (cl_next_tx c) body)"
proof -
  let ?req = "\<lparr>rr_port = port, rr_labels = labels, rr_extra = extra\<rparr>"
  let ?out = "wire (push_bit 3 MSG_REGISTER) (cl_next_tx c) body"
  have "store_inv (w_json W) (in_store g)" using assms(2) by (simp add: server_inv_def)
  from store_upsert_succeeds [OF this assms(3) [rule_format], of "registered_node peer ?req"] assms(7,8)
  obtain st where st: "store_upsert (w_json W) (w_sql W) (w_wall W) (in_store g) (registered_node peer ?req) = Ok st"
    by (fastforce simp: registered_node_def)
  have "registry_serve W peer g (accepted eof ?out) =
      snd (handle_frame W peer (plain_frame MSG_REGISTER (cl_next_tx c) body) g (open_sink eof))"
    unfolding registry_serve_eq using serve_plain [OF _ assms(6), of MSG_REGISTER W peer] by (simp add: dfinder_msgs)
  then have "rd_inp (cn_reply (registry_conn W peer g) ?out) =
      wire (push_bit 3 MSG_REGISTER_ACK) (cl_next_tx c) [123, 125] @ []"
    using register_frame [OF world_okD(1) [OF assms(1)] assms(5), of peer "cl_next_tx c" g] assms(4) st by simp
  from read_plain_frame [OF _ _ this, of C K]
  show ?thesis
    using assms(4-6)
    by (simp add: client_register_def next_tx_id_def Let_def write_frame_plain_good dfinder_msgs u16_MAX_def)
qed

lemma client_query_total:
  assumes "world_ok W" "server_inv (w_json W) g" "\<forall>q. eng_fault (w_sql W) q = None" "labels \<noteq> []"
    and "query_to_vec (w_json W) \<lparr>qr_labels = labels\<rparr> = Inr body" "length body \<le> u16_MAX"
    and "\<forall>ns. distinct ns \<and> set ns \<subseteq> ran (store_abs (w_json W) (in_store g)) \<longrightarrow>
           (\<exists>b. result_to_vec (w_json W) \<lparr>qres_nodes = ns\<rparr> = Inr b \<and> length b \<le> u16_MAX)"
  shows "\<exists>nodes c' out. client_query_healthy (w_json W) C K rng (Inr (registry_conn W peer g)) check labels c =
    (Ok nodes, c', out)"
proof -
  note w = world_okD [OF assms(1)]
  let ?out = "wire (push_bit 3 MSG_QUERY) (cl_next_tx c) body"
  let ?f = "plain_frame MSG_QUERY (cl_next_tx c) body"
  have i: "store_inv (w_json W) (in_store g)" using assms(2) by (simp add: server_inv_def)
  obtain all where l: "store_list_all (w_json W) (w_sql W) (in_store g) = Ok all"
    using store_list_all_succeeds [OF w(2) i assms(3) [rule_format]] by blast
  let ?ns = "filter (node_healthy g) (filter (has_labels labels) all)"
  have "distinct ?ns" "set ?ns \<subseteq> ran (store_abs (w_json W) (in_store g))"
    using ns.list_law [OF w(2) i l] by (auto simp: distinct_map)
  with assms(7) obtain b where b: "result_to_vec (w_json W) \<lparr>qres_nodes = ?ns\<rparr> = Inr b" "length b \<le> u16_MAX"
    by blast
  have "query_from_slice (w_json W) (f_data ?f) = Inr \<lparr>qr_labels = labels\<rparr>"
    using json_okD(4) [OF w(1) assms(5)] by simp
  note eq = handle_query_eq [OF this, of g "open_sink eof"]
  have "registry_serve W peer g (accepted eof ?out) = snd (handle_frame W peer ?f g (open_sink eof))"
    unfolding registry_serve_eq using serve_plain [OF _ assms(6), of MSG_QUERY W peer] by (simp add: dfinder_msgs)
  moreover have "handle_frame W peer ?f g (open_sink eof) = handle_query W ?f g (open_sink eof)"
    by (simp add: handle_frame_def dfinder_msgs)
  moreover have "handle_query W ?f g (open_sink eof) =
      (Ok (), g, put_plain MSG_QUERY_RESULT (cl_next_tx c) b (open_sink eof))"
    unfolding eq [simplified, OF assms(4)] store_list_by_labels_def l rbind.simps res.case b(1) sum.case
    using b by (simp add: write_frame_plain_good dfinder_msgs)
  ultimately have "rd_inp (cn_reply (registry_conn W peer g) ?out) =
      wire (push_bit 3 MSG_QUERY_RESULT) (cl_next_tx c) b @ []" by simp
  from read_plain_frame [OF _ b(2) this, of C K]
  show ?thesis
    using assms(4-6) json_okD(5) [OF w(1) b(1)]
    by (simp add: client_query_healthy_def next_tx_id_def Let_def write_frame_plain_good dfinder_msgs)
qed

section \<open>A sample session\<close>

lemma sample_register_call:
  obtains out where
    "client_register sample_json C K rng (Inr (registry_conn sample_world sample_peer empty_inner)) 3
       [''api''] 7 c = (Ok (), snd (next_tx_id c), out)"
    "server_inv sample_json (registry_after sample_world sample_peer empty_inner out)"
    "store_abs sample_json (in_store (registry_after sample_world sample_peer empty_inner out)) =
       [''10.0.0.1'' \<mapsto> registered_node sample_peer sample_register]"
proof -
  obtain body where b: "register_to_vec sample_json \<lparr>rr_port = 3, rr_labels = [''api''], rr_extra = 7\<rparr> = Inr body"
    "length body \<le> u16_MAX"
    by (simp add: sample_json_def put_list_def put_nat_def put_str_def to_vec_def u16_MAX_def)
  obtain ls ex where l: "labels_to_string sample_json [''api''] = Inr ls" "extra_to_string sample_json 7 = Inr ex"
    by (simp add: sample_json_def)
  have w: "world_ok sample_world" "server_inv (w_json sample_world) empty_inner"
    "\<forall>q. eng_fault (w_sql sample_world) q = None" "[''api''] \<noteq> []" by simp_all
  note c = client_register_total [OF w, simplified, OF b l, of C K rng sample_peer c]
  have r: "registered_node sample_peer sample_register =
      \<lparr>ni_ip = ''10.0.0.1'', ni_port = 3, ni_labels = [''api''], ni_extra = 7\<rparr>"
    by (simp add: registered_node_def sample_peer_def sample_register_def)
  show thesis
    using register_reaches_registry [OF w(1,2), simplified, OF c] c r that
    by (simp add: sample_peer_def)
qed

lemma sample_query_call:
  assumes "server_inv sample_json g"
    and "store_abs sample_json (in_store g) = [''10.0.0.1'' \<mapsto> registered_node sample_peer sample_register]"
  shows "\<exists>nodes c' out. client_query_healthy sample_json C K rng (Inr (registry_conn sample_world peer g))
    check [''api''] c = (Ok nodes, c', out)"
proof -
  let ?n = "registered_node sample_peer sample_register"
  obtain body where b: "query_to_vec sample_json \<lparr>qr_labels = [''api'']\<rparr> = Inr body" "length body \<le> u16_MAX"
    by (simp add: sample_json_def put_list_def put_nat_def put_str_def to_vec_def u16_MAX_def)
  have "\<exists>v. result_to_vec sample_json \<lparr>qres_nodes = ns\<rparr> = Inr v \<and> length v \<le> u16_MAX"
    if "distinct ns \<and> set ns \<subseteq> ran (store_abs sample_json (in_store g))" for ns
  proof -
    have "ran (store_abs sample_json (in_store g)) = {?n}"
      unfolding assms(2) by (auto simp: ran_def split: if_splits)
    with that have "ns = [] \<or> ns = [?n]"
      by (cases ns; cases "tl ns") auto
    then show ?thesis
      by (auto simp: sample_json_def put_list_def put_nat_def put_node_def put_str_def to_vec_def
          registered_node_def sample_peer_def sample_register_def u16_MAX_def)
  qed
  with client_query_total [of sample_world g "[''api'']" body] b assms(1) show ?thesis by simp
qed

section \<open>Properties\<close>

text \<open>
  A query that returns does not change the registry, and returns exactly the nodes that
  are registered and healthy there, carry every label asked for and pass the local check,
  each once.
\<close>

theorem client_query_exact:
  assumes "world_ok W" and "server_inv (w_json W) g"
    and "client_query_healthy (w_json W) C K rng (Inr (registry_conn W peer g)) check labels c =
           (Ok nodes, c', out)"
  shows "registry_after W peer g out = g \<and> distinct (map ni_ip nodes) \<and>
    (\<forall>n. n \<in> set nodes \<longleftrightarrow> store_abs (w_json W) (in_store g) (ni_ip n) = Some n \<and>
       node_healthy g n \<and> set labels \<subseteq> set (ni_labels n) \<and> check n)"
  by (rule query_reads_registry [OF assms])

theorem client_query_exact_witness:
  "\<exists>g nodes c' out. server_inv sample_json g \<and>
     client_query_healthy sample_json sample_codec None (\<lambda>_. 0)
       (Inr (registry_conn sample_world sample_peer g)) (\<lambda>n. ni_port n = 4) [''api''] client_new =
       (Ok nodes, c', out) \<and>
     registry_after sample_world sample_peer g out = g \<and> nodes = []"
proof -
  let ?n = "registered_node sample_peer sample_register"
  obtain out1 where
    g: "server_inv sample_json (registry_after sample_world sample_peer empty_inner out1)"
      "store_abs sample_json (in_store (registry_after sample_world sample_peer empty_inner out1)) =
        [''10.0.0.1'' \<mapsto> ?n]"
    by (rule sample_register_call [where C = sample_codec and K = None and rng = "\<lambda>_. 0" and c = client_new])
  let ?g = "registry_after sample_world sample_peer empty_inner out1"
  from sample_query_call [OF g, of sample_codec None "\<lambda>_. 0" sample_peer "\<lambda>n. ni_port n = 4" client_new]
  obtain nodes c' out where q: "client_query_healthy sample_json sample_codec None (\<lambda>_. 0)
       (Inr (registry_conn sample_world sample_peer ?g)) (\<lambda>n. ni_port n = 4) [''api''] client_new =
       (Ok nodes, c', out)" by blast
  have "world_ok sample_world" "server_inv (w_json sample_world) ?g" using g by simp_all
  from client_query_exact [OF this, simplified, OF q]
  have x: "registry_after sample_world sample_peer ?g out = ?g"
    "\<forall>n. n \<in> set nodes \<longrightarrow> store_abs sample_json (in_store ?g) (ni_ip n) = Some n \<and> ni_port n = 4"
    by blast+
  have "ni_port ?n = 3" by (simp add: registered_node_def sample_register_def)
  then have "n \<notin> set nodes" for n
    using x(2) [rule_format, of n] g(2) by (cases "ni_ip n = ''10.0.0.1''") auto
  then have "nodes = []" by (cases nodes) auto
  with q g(1) x(1) show ?thesis by blast
qed

text \<open>
  Registering succeeds: with at least one label, a request that can be serialised and fits
  in a frame, and no SQLite fault, the client gets its acknowledgement, having used one
  transaction id, and the registry has the node.
\<close>

theorem client_register_succeeds:
  assumes "world_ok W" and "server_inv (w_json W) g" and "\<forall>q. eng_fault (w_sql W) q = None"
    and "labels \<noteq> []"
    and "register_to_vec (w_json W) \<lparr>rr_port = port, rr_labels = labels, rr_extra = extra\<rparr> = Inr body"
    and "length body \<le> u16_MAX"
    and "labels_to_string (w_json W) labels = Inr ls" and "extra_to_string (w_json W) extra = Inr ex"
  shows "\<exists>out. client_register (w_json W) C K rng (Inr (registry_conn W peer g)) port labels extra c =
      (Ok (), snd (next_tx_id c), out) \<and>
    store_abs (w_json W) (in_store (registry_after W peer g out)) (ip_to_string (sa_ip peer)) =
      Some \<lparr>ni_ip = ip_to_string (sa_ip peer), ni_port = port, ni_labels = labels, ni_extra = extra\<rparr>"
  using client_register_total [OF assms, of C K rng peer c]
    register_reaches_registry [OF assms(1,2), of C K rng peer port labels extra c] by simp

theorem client_register_succeeds_witness:
  "\<exists>out. client_register sample_json sample_codec None (\<lambda>_. 0)
     (Inr (registry_conn sample_world sample_peer empty_inner)) 3 [''api''] 7 client_new =
     (Ok (), \<lparr>cl_next_tx = 2\<rparr>, out)"
proof -
  obtain body where b: "register_to_vec sample_json \<lparr>rr_port = 3, rr_labels = [''api''], rr_extra = 7\<rparr> = Inr body"
    "length body \<le> u16_MAX"
    by (simp add: sample_json_def put_list_def put_nat_def put_str_def to_vec_def u16_MAX_def)
  obtain ls ex where l: "labels_to_string sample_json [''api''] = Inr ls" "extra_to_string sample_json 7 = Inr ex"
    by (simp add: sample_json_def)
  have w: "world_ok sample_world" "server_inv (w_json sample_world) empty_inner"
    "\<forall>q. eng_fault (w_sql sample_world) q = None" "[''api''] \<noteq> []" by simp_all
  have "snd (next_tx_id client_new) = \<lparr>cl_next_tx = 2\<rparr>"
    by (simp add: next_tx_id_def client_new_def max_1_u64)
  with client_register_succeeds [OF w, simplified, OF b l, of sample_codec None "\<lambda>_. 0" sample_peer client_new]
  show ?thesis by auto
qed

text \<open>
  The transaction ids of a client are never 0 and no id is used twice within
  2^64 - 1 calls; the counter wraps to 1.
\<close>

theorem dfinder_tx_ids:
  "0 \<notin> set (df_tx.ids n client_new) \<and>
   distinct (df_tx.ids (min n (2 ^ 64 - 1)) client_new) \<and>
   next_tx_id \<lparr>cl_next_tx = - 1\<rparr> = (- 1, client_new)"
proof -
  have "cl_next_tx client_new \<noteq> 0" by (simp add: client_new_def)
  then show ?thesis
    using df_tx.ids_nonzero df_tx.ids_distinct
    by (simp add: period_def next_tx_id_def client_new_def max_1_u64 del: df_tx.ids.simps)
qed

end
