(* ===== verification/Dfinder_Spec.thy ===== *)
theory Dfinder_Spec
  imports Simulation Dfinder_Race Dfinder_Client
begin

text \<open>
  What the registry promises, without locks, probe cycles, SQLite or JSON: a map from addresses
  to nodes with their health, changed by registrations, observations of the nodes and the
  expiry of nodes observed down for too long. The interleaved system of Dfinder_Race implements
  it (\<open>registry_refines_spec\<close>), and a client's query reads it.
\<close>

section \<open>The specification\<close>

text \<open>\<open>sp_doomed\<close>: the nodes found down for the offline time, since the last expiry.\<close>

record 'e spec =
  sp_entry :: "string \<rightharpoonup> 'e node_info \<times> health_state"
  sp_doomed :: "string set"
  sp_ttl :: nat
  sp_now :: nat

text \<open>
  An observation is made at a time \<open>t\<close> that may lie in the past: a probe cycle dates all its
  observations at its start.
\<close>

inductive spec_step :: "'e spec \<Rightarrow> 'e spec \<Rightarrow> bool" where
  pass: "sp_now a \<le> t \<Longrightarrow> spec_step a (a\<lparr>sp_now := t\<rparr>)"
| register: "spec_step a (a\<lparr>sp_entry := (sp_entry a)
    (ni_ip n \<mapsto> (n, \<lparr>hs_healthy = True, hs_last_ok = sp_now a\<rparr>))\<rparr>)"
| alive: "sp_entry a ip = Some (n, h) \<Longrightarrow> t \<le> sp_now a \<Longrightarrow>
    spec_step a (a\<lparr>sp_entry := (sp_entry a)(ip \<mapsto> (n, \<lparr>hs_healthy = True, hs_last_ok = t\<rparr>))\<rparr>)"
| down: "sp_entry a ip = Some (n, h) \<Longrightarrow> t \<le> sp_now a \<Longrightarrow>
    spec_step a (a\<lparr>sp_entry := (sp_entry a)(ip \<mapsto> (n, h\<lparr>hs_healthy := False\<rparr>)),
      sp_doomed := sp_doomed a \<union> (if sp_ttl a \<le> t - hs_last_ok h then {ip} else {})\<rparr>)"
| expire: "ips \<subseteq> sp_doomed a \<Longrightarrow>
    spec_step a (a\<lparr>sp_entry := sp_entry a |` (- ips), sp_doomed := {}\<rparr>)"

text \<open>A registry starts with the nodes of its database, none of them known to be alive.\<close>

definition spec_init :: "'e spec \<Rightarrow> bool" where
  "spec_init a \<longleftrightarrow> sp_doomed a = {} \<and>
     (\<forall>ip n h. sp_entry a ip = Some (n, h) \<longrightarrow>
        ni_ip n = ip \<and> h = \<lparr>hs_healthy = False, hs_last_ok = sp_now a\<rparr>)"

text \<open>What a query for nodes with some labels is to answer.\<close>

definition spec_answer :: "'e spec \<Rightarrow> string list \<Rightarrow> 'e node_info set" where
  "spec_answer a labels =
     {n. \<exists>h. sp_entry a (ni_ip n) = Some (n, h) \<and> hs_healthy h \<and> set labels \<subseteq> set (ni_labels n)}"

text \<open>
  Invariants of the specification: nodes are filed under their own address, and no success lies
  in the future.
\<close>

definition spec_inv :: "'e spec \<Rightarrow> bool" where
  "spec_inv a \<longleftrightarrow>
     (\<forall>ip n h. sp_entry a ip = Some (n, h) \<longrightarrow> ni_ip n = ip \<and> hs_last_ok h \<le> sp_now a)"

lemma spec_init_inv: "spec_init a \<Longrightarrow> spec_inv a"
  by (fastforce simp: spec_init_def spec_inv_def)

lemma spec_step_inv: "spec_step a b \<Longrightarrow> spec_inv a \<Longrightarrow> spec_inv b"
  by (induction rule: spec_step.induct)
     (fastforce simp: spec_inv_def restrict_map_def split: if_splits)+

section \<open>The running registry seen as the specification\<close>

definition entry_of :: "'e json \<Rightarrow> inner \<Rightarrow> string \<Rightarrow> ('e node_info \<times> health_state) option" where
  "entry_of J g ip =
     (case store_abs J (in_store g) ip of
        None \<Rightarrow> None
      | Some n \<Rightarrow> (case in_health g ip of None \<Rightarrow> None | Some h \<Rightarrow> Some (n, h)))"

definition registry_abs :: "'e json \<Rightarrow> 'e sys \<Rightarrow> 'e spec" where
  "registry_abs J s =
     \<lparr>sp_entry = entry_of J (sy_inner s), sp_doomed = pc_expired (sy_pc s),
      sp_ttl = in_offline_ttl (sy_inner s), sp_now = sy_now s\<rparr>"

lemma registry_abs_simps [simp]:
  "sp_entry (registry_abs J s) = entry_of J (sy_inner s)"
  "sp_doomed (registry_abs J s) = pc_expired (sy_pc s)"
  "sp_ttl (registry_abs J s) = in_offline_ttl (sy_inner s)"
  "sp_now (registry_abs J s) = sy_now s"
  by (simp_all add: registry_abs_def)

lemma registry_abs_eqI:
  "sp_entry a = entry_of J (sy_inner s) \<Longrightarrow> sp_doomed a = pc_expired (sy_pc s) \<Longrightarrow>
     sp_ttl a = in_offline_ttl (sy_inner s) \<Longrightarrow> sp_now a = sy_now s \<Longrightarrow> registry_abs J s = a"
  by (simp add: registry_abs_def)

lemma entry_of_eq_Some:
  "entry_of J g ip = Some (n, h) \<longleftrightarrow> store_abs J (in_store g) ip = Some n \<and> in_health g ip = Some h"
  by (simp add: entry_of_def split: option.splits)

text \<open>The probe task works with the offline time of the registry.\<close>

fun pc_ttl :: "'e probe_pc \<Rightarrow> nat \<Rightarrow> bool" where
  "pc_ttl Idle ttl \<longleftrightarrow> True"
| "pc_ttl (Listed nodes t) ttl \<longleftrightarrow> t = ttl"
| "pc_ttl (Probing now t nodes ex) ttl \<longleftrightarrow> t = ttl"

definition sim_inv :: "'e json \<Rightarrow> 'e sys \<Rightarrow> bool" where
  "sim_inv J s \<longleftrightarrow> sys_inv J s \<and> pc_ttl (sy_pc s) (in_offline_ttl (sy_inner s))"

lemma request_registers:
  assumes "sim_inv J s" "in_world J s W" "df_handle_conn W peer c (sy_inner s) = (r, g, out)"
  shows "g = sy_inner s \<or> (\<exists>n. in_offline_ttl g = in_offline_ttl (sy_inner s) \<and>
    entry_of J g = (entry_of J (sy_inner s))(ni_ip n \<mapsto> (n, \<lparr>hs_healthy = True, hs_last_ok = sy_now s\<rparr>)))"
proof -
  have w: "world_ok W" "server_inv (w_json W) (sy_inner s)" "w_json W = J" "w_now W = sy_now s"
    using assms(1,2) by (auto simp: sim_inv_def sys_inv_def in_world_def)
  from request_inner [OF w(1,2) assms(3)] show ?thesis
  proof (elim disjE exE conjE)
    fix n st assume st: "store_abs (w_json W) st =
        (store_abs (w_json W) (in_store (sy_inner s)))(ni_ip n \<mapsto> n)"
      and g: "g = registered W (ni_ip n) st (sy_inner s)"
    have "entry_of J g = (entry_of J (sy_inner s))(ni_ip n \<mapsto> (n, \<lparr>hs_healthy = True, hs_last_ok = sy_now s\<rparr>))"
      using st by (auto simp: fun_eq_iff entry_of_def g w(3,4) split: option.splits)
    moreover have "in_offline_ttl g = in_offline_ttl (sy_inner s)" by (simp add: g registered_def)
    ultimately show ?thesis by blast
  qed simp
qed

lemma sim_inv_step:
  assumes "sim_inv J s" "sys_step J s s'"
  shows "sim_inv J s'"
proof -
  have "pc_ttl (sy_pc s') (in_offline_ttl (sy_inner s'))"
    using assms(2)
  proof (cases rule: sys_stepE)
    case (request W peer c r g out)
    from request_registers [OF assms(1) request(2,3)] assms(1) request(1) show ?thesis
      by (auto simp: sim_inv_def)
  next
    case (finish now ttl ex W r g)
    then show ?thesis by simp
  qed (use assms(1) in \<open>auto simp: sim_inv_def probe_one_eq\<close>)
  with sys_step_inv [OF assms(2)] assms(1) show ?thesis by (simp add: sim_inv_def)
qed

lemma probe_observes:
  assumes "sim_inv J s" "sy_pc s = Probing now ttl (n # nodes) ex"
    and "probe_one now ttl (ni_ip n) answer (sy_inner s, ex) = (g, ex')"
  shows "spec_step (registry_abs J s)
    (registry_abs J (s\<lparr>sy_inner := g, sy_pc := Probing now ttl nodes ex'\<rparr>))"
proof -
  let ?ip = "ni_ip n" and ?a = "registry_abs J s"
  let ?s = "s\<lparr>sy_inner := g, sy_pc := Probing now ttl nodes ex'\<rparr>"
  have i: "?ip \<in> dom (store_abs J (in_store (sy_inner s)))" "now \<le> sy_now s"
    "ttl = in_offline_ttl (sy_inner s)" and
    d: "dom (in_health (sy_inner s)) = dom (store_abs J (in_store (sy_inner s)))"
    using assms(1,2) by (auto simp: sim_inv_def sys_inv_def server_inv_def)
  from i(1) obtain m where m: "store_abs J (in_store (sy_inner s)) ?ip = Some m" by blast
  from i(1) d obtain h where h: "in_health (sy_inner s) ?ip = Some h" by blast
  have e: "sp_entry ?a ?ip = Some (m, h)" using m h by (simp add: entry_of_eq_Some)
  have g: "g = sy_inner s\<lparr>in_health := (in_health (sy_inner s))(?ip \<mapsto> probed now answer (Some h))\<rparr>"
    "ex' = ex @ (if expires now ttl answer (Some h) then [?ip] else [])"
    using assms(3) by (simp_all add: probe_one_eq h)
  have entry: "entry_of J g = (entry_of J (sy_inner s))(?ip \<mapsto> (m, probed now answer (Some h)))"
    by (auto simp: fun_eq_iff entry_of_def g m split: option.splits)
  have ttl: "in_offline_ttl g = in_offline_ttl (sy_inner s)" by (simp add: g(1))
  show ?thesis
  proof (cases answer)
    case True
    have "registry_abs J ?s = ?a\<lparr>sp_entry := (sp_entry ?a)
        (?ip \<mapsto> (m, \<lparr>hs_healthy = True, hs_last_ok = now\<rparr>))\<rparr>"
      by (rule registry_abs_eqI) (simp_all add: True assms(2) g(2) entry ttl probed_def expires_def)
    with spec_step.alive [OF e, of now] i(2) show ?thesis by simp
  next
    case False
    have p: "probed now False (Some h) = h\<lparr>hs_healthy := False\<rparr>"
      by (cases h) (simp add: probed_def False)
    have "registry_abs J ?s = ?a\<lparr>sp_entry := (sp_entry ?a)(?ip \<mapsto> (m, h\<lparr>hs_healthy := False\<rparr>)),
        sp_doomed := sp_doomed ?a \<union> (if sp_ttl ?a \<le> now - hs_last_ok h then {?ip} else {})\<rparr>"
      by (rule registry_abs_eqI) (simp_all add: entry p assms(2) expires_def False i(3) g(2) ttl)
    with spec_step.down [OF e, of now] i(2) show ?thesis by simp
  qed
qed

lemma finish_expires:
  assumes "sim_inv J s" "sy_pc s = Probing now ttl [] ex"
    and "remove_expired E ex (sy_inner s) = (r, g)"
  shows "spec_step (registry_abs J s) (registry_abs J (s\<lparr>sy_inner := g, sy_pc := Idle\<rparr>))"
proof -
  let ?a = "registry_abs J s"
  have "sys_inv J s" using assms(1) by (simp add: sim_inv_def)
  from finish_effect [OF this assms(3)] show ?thesis
  proof cases
    case (1 ips)
    have "registry_abs J (s\<lparr>sy_inner := g, sy_pc := Idle\<rparr>) =
        ?a\<lparr>sp_entry := sp_entry ?a |` (- ips), sp_doomed := {}\<rparr>"
      by (rule registry_abs_eqI)
         (auto simp: 1 fun_eq_iff entry_of_def restrict_map_def split: option.splits)
    with spec_step.expire [of ips ?a] 1(1) assms(2) show ?thesis by simp
  qed
qed

lemma sim_step:
  assumes "sim_inv J s" "sys_step J s s'"
  shows "spec_step\<^sup>=\<^sup>= (registry_abs J s) (registry_abs J s')"
  using assms(2)
proof (cases rule: sys_stepE)
  case (tick t)
  then show ?thesis using spec_step.pass [of "registry_abs J s" t] by (simp add: registry_abs_def)
next
  case (request W peer c r g out)
  from request_registers [OF assms(1) request(2,3)] show ?thesis
  proof (elim disjE exE conjE)
    assume "g = sy_inner s"
    with request(1) have "s' = s" by simp
    then show ?thesis by simp
  next
    fix n assume t: "in_offline_ttl g = in_offline_ttl (sy_inner s)" and e: "entry_of J g =
      (entry_of J (sy_inner s))(ni_ip n \<mapsto> (n, \<lparr>hs_healthy = True, hs_last_ok = sy_now s\<rparr>))"
    from spec_step.register [of "registry_abs J s" n] t e request(1) show ?thesis
      by (simp add: registry_abs_def)
  qed
next
  case (probe now ttl n nodes ex answer g ex')
  from probe_observes [OF assms(1) probe(2,3)] probe(1) show ?thesis by simp
next
  case (finish now ttl ex W r g)
  from finish_expires [OF assms(1) finish(2,4)] finish(1) show ?thesis by simp
qed (simp_all add: registry_abs_def)

interpretation registry: simulation "sim_inv J" "sys_step J" "registry_abs J" spec_step for J
  by unfold_locales (fact sim_inv_step, fact sim_step)

text \<open>Every reachable state comes from a fresh registry.\<close>

lemma registry_init:
  assumes "world_ok W" "w_json W = J" "df_server_new W config = Ok sv"
  shows "sim_inv J \<lparr>sy_inner = sv_inner sv, sy_pc = Idle, sy_now = w_now W\<rparr>"
    and "spec_init (registry_abs J \<lparr>sy_inner = sv_inner sv, sy_pc = Idle, sy_now = w_now W\<rparr>)"
proof -
  note sys_reach.init [OF assms]
  then show "sim_inv J \<lparr>sy_inner = sv_inner sv, sy_pc = Idle, sy_now = w_now W\<rparr>"
    by (simp add: sim_inv_def sys_reach_inv)
  have "server_inv J (sv_inner sv)" and h: "\<forall>ip h. in_health (sv_inner sv) ip = Some h \<longrightarrow>
      h = \<lparr>hs_healthy = False, hs_last_ok = w_now W\<rparr>"
    using df_server_new_Ok [OF assms(1,3)] assms(2) by auto
  then have "ni_ip n = ip" if "store_abs J (in_store (sv_inner sv)) ip = Some n" for ip n
    using that by (auto simp: server_inv_def dest: store_abs_ip)
  with h show "spec_init (registry_abs J \<lparr>sy_inner = sv_inner sv, sy_pc = Idle, sy_now = w_now W\<rparr>)"
    by (auto simp: spec_init_def entry_of_eq_Some)
qed

lemma reach_run:
  assumes "sys_reach J s"
  obtains s0 where "sim_inv J s0" "spec_init (registry_abs J s0)" "(sys_step J)\<^sup>*\<^sup>* s0 s"
  using assms
proof (induction arbitrary: thesis rule: sys_reach.induct)
  case (init W config sv)
  from registry_init [OF init(1-3)] init(4) show ?case by blast
next
  case (step s s')
  obtain s0 where s0: "sim_inv J s0" "spec_init (registry_abs J s0)" "(sys_step J)\<^sup>*\<^sup>* s0 s"
    by (rule step.IH)
  have "(sys_step J)\<^sup>*\<^sup>* s0 s'" using s0(3) step.hyps(2) by (rule rtranclp.rtrancl_into_rtrancl)
  with s0(1,2) show ?case by (rule step.prems)
qed

lemma reach_sim_inv: "sys_reach J s \<Longrightarrow> sim_inv J s"
  using registry.sim_run by (elim reach_run) blast

text \<open>A query of a client reads the specification.\<close>

lemma spec_answer_registry:
  "n \<in> spec_answer (registry_abs J s) labels \<longleftrightarrow>
     store_abs J (in_store (sy_inner s)) (ni_ip n) = Some n \<and> node_healthy (sy_inner s) n \<and>
     set labels \<subseteq> set (ni_labels n)"
  by (cases "in_health (sy_inner s) (ni_ip n)")
     (auto simp: spec_answer_def entry_of_eq_Some node_healthy_def)

lemma query_reads_spec:
  assumes "sim_inv J s" "in_world J s W"
    and "client_query_healthy J C K rng (Inr (registry_conn W peer (sy_inner s))) check labels c =
           (Ok nodes, c', out)"
  shows "distinct nodes" "set nodes = {n \<in> spec_answer (registry_abs J s) labels. check n}"
proof -
  have W: "world_ok W" "w_json W = J" and i: "server_inv (w_json W) (sy_inner s)"
    using assms(1,2) by (auto simp: in_world_def sim_inv_def sys_inv_def)
  note q = query_reads_registry [OF W(1) i, of C K rng peer check labels c nodes c' out]
  then show "distinct nodes" using assms(3) W(2) by (auto simp: distinct_map)
  show "set nodes = {n \<in> spec_answer (registry_abs J s) labels. check n}"
    using q assms(3) W(2)
    by (auto simp: spec_answer_registry)
qed

section \<open>Properties\<close>

text \<open>
  C1: The registry implements its specification. Each step of the running system, whatever the
  probe task was doing, is one step of the specification or none of its business, and a run
  begins in an initial state of the specification; and what a client's query returns after
  it is the specification's answer: the healthy nodes with the labels asked for, filtered by
  the client's own check.
\<close>

theorem registry_refines_spec:
  assumes "sys_reach J s" and "sys_step J s s'"
  shows "(\<exists>a. spec_init a \<and> spec_step\<^sup>*\<^sup>* a (registry_abs J s)) \<and>
    spec_step\<^sup>=\<^sup>= (registry_abs J s) (registry_abs J s') \<and>
    (\<forall>W C K rng peer check labels c nodes c' out.
       in_world J s' W \<and> client_query_healthy J C K rng (Inr (registry_conn W peer (sy_inner s')))
         check labels c = (Ok nodes, c', out) \<longrightarrow>
       distinct nodes \<and> set nodes = {n \<in> spec_answer (registry_abs J s') labels. check n})"
proof -
  have i: "sim_inv J s" by (rule reach_sim_inv [OF assms(1)])
  have "\<exists>a. spec_init a \<and> spec_step\<^sup>*\<^sup>* a (registry_abs J s)"
    by (rule reach_run [OF assms(1)]) (use registry.sim_run in blast)
  moreover note registry.sim_step [OF i assms(2)]
  moreover have "distinct nodes \<and> set nodes = {n \<in> spec_answer (registry_abs J s') labels. check n}"
    if "in_world J s' W \<and> client_query_healthy J C K rng (Inr (registry_conn W peer (sy_inner s')))
         check labels c = (Ok nodes, c', out)" for W C K rng peer check labels c nodes c' out
    by (rule conjI; rule query_reads_spec [OF registry.inv_step [OF i assms(2)]
        that [THEN conjunct1] that [THEN conjunct2]])
  ultimately show ?thesis by blast
qed

theorem registry_refines_spec_witness:
  "\<exists>s s' :: nat sys. sys_reach sample_json s \<and> sys_step sample_json s s' \<and>
     registry_abs sample_json s \<noteq> registry_abs sample_json s' \<and>
     spec_step (registry_abs sample_json s) (registry_abs sample_json s')"
proof -
  obtain s W where s: "sys_reach sample_json s" "sy_pc s = Probing 1030 30 [] [''10.0.0.1'']"
    "in_world sample_json s W" "\<forall>q. eng_fault (w_sql W) q = None" "w_codec W = sample_codec"
    "store_abs sample_json (in_store (sy_inner s)) =
       [''10.0.0.1'' \<mapsto> registered_node sample_peer sample_register]"
    by (rule sample_expired)
  obtain r g where r: "remove_expired (w_sql W) [''10.0.0.1''] (sy_inner s) = (r, g)"
    by (cases "remove_expired (w_sql W) [''10.0.0.1''] (sy_inner s)")
  let ?s = "s\<lparr>sy_inner := g, sy_pc := Idle\<rparr>"
  have st: "sys_step sample_json s ?s" by (rule sys_step.finish [OF s(2,3) r])
  have "sp_doomed (registry_abs sample_json s) \<noteq> sp_doomed (registry_abs sample_json ?s)"
    using s(2) by simp
  then have n: "registry_abs sample_json s \<noteq> registry_abs sample_json ?s" by metis
  from registry_refines_spec [OF s(1) st] n
  have "spec_step (registry_abs sample_json s) (registry_abs sample_json ?s)" by simp
  with s(1) st n show ?thesis by blast
qed

text \<open>
  What holds of every run of the specification holds of the registry: here, that each node
  is filed under its own address and that no success lies in the future.
\<close>

theorem spec_inv_transferred:
  "sys_reach J s \<Longrightarrow> spec_inv (registry_abs J s)"
  by (elim reach_run) (blast intro: registry.transfer_invariant [of spec_inv] spec_step_inv spec_init_inv)

end
