(* ===== verification/Dfinder_Session.thy ===== *)
theory Dfinder_Session
  imports Dfinder_Race Dfinder_Client
begin

text \<open>
  A node's session with the running registry: from an acknowledged registration, through any
  interleaving of other requests and the critical sections of the probe task, to a query. The
  steps are those of Dfinder_Race, as long as nobody registers under the node's address and
  the probes of that address are answered.
\<close>

section \<open>Steps that keep a node\<close>

text \<open>A connection on which a registration from the address arrives.\<close>

definition registers_from :: "string \<Rightarrow> 'e world \<Rightarrow> socket_addr \<Rightarrow> stream \<Rightarrow> bool" where
  "registers_from ip W peer c \<longleftrightarrow> ip_to_string (sa_ip peer) = ip \<and>
     (\<exists>f rest. read_frame (w_codec W) (w_key W) (st_rd c) = Ok (f, rest) \<and> f_message_type f = MSG_REGISTER)"

inductive keep_step :: "'e json \<Rightarrow> string \<Rightarrow> 'e sys \<Rightarrow> 'e sys \<Rightarrow> bool" for J ip where
  quiet: "sys_step J s s' \<Longrightarrow> sy_inner s' = sy_inner s \<Longrightarrow> keep_step J ip s s'"
| request: "in_world J s W \<Longrightarrow> \<not> registers_from ip W peer c \<Longrightarrow>
    df_handle_conn W peer c (sy_inner s) = (r, g, out) \<Longrightarrow> keep_step J ip s (s\<lparr>sy_inner := g\<rparr>)"
| probe: "sy_pc s = Probing now ttl (n # nodes) ex \<Longrightarrow> (ni_ip n = ip \<longrightarrow> answer) \<Longrightarrow>
    probe_one now ttl (ni_ip n) answer (sy_inner s, ex) = (g, ex') \<Longrightarrow>
    keep_step J ip s (s\<lparr>sy_inner := g, sy_pc := Probing now ttl nodes ex'\<rparr>)"
| finish: "sy_pc s = Probing now ttl [] ex \<Longrightarrow> in_world J s W \<Longrightarrow>
    remove_expired (w_sql W) ex (sy_inner s) = (r, g) \<Longrightarrow>
    keep_step J ip s (s\<lparr>sy_inner := g, sy_pc := Idle\<rparr>)"

lemma keep_step_sys: "keep_step J ip s s' \<Longrightarrow> sys_step J s s'"
  by (induction rule: keep_step.induct) (blast intro: sys_step.intros)+

text \<open>The addresses the cycle in progress has decided to remove.\<close>

fun condemned :: "'e probe_pc \<Rightarrow> string set" where
  "condemned (Probing now ttl nodes ex) = set ex"
| "condemned _ = {}"

definition kept :: "'e json \<Rightarrow> 'e node_info \<Rightarrow> 'e sys \<Rightarrow> bool" where
  "kept J n s \<longleftrightarrow> sys_inv J s \<and> store_abs J (in_store (sy_inner s)) (ni_ip n) = Some n \<and>
     node_healthy (sy_inner s) n \<and> ni_ip n \<notin> condemned (sy_pc s)"

lemma node_healthy_iff: "node_healthy g n \<longleftrightarrow> (\<exists>h. in_health g (ni_ip n) = Some h \<and> hs_healthy h)"
  by (simp add: node_healthy_def split: option.splits)

lemma other_request_keeps:
  assumes "world_ok W" "server_inv (w_json W) g" "df_handle_conn W peer c g = (r, g', out)"
    and "\<not> registers_from ip W peer c"
  shows "store_abs (w_json W) (in_store g') ip = store_abs (w_json W) (in_store g) ip \<and>
    in_health g' ip = in_health g ip"
proof (cases "read_frame (w_codec W) (w_key W) (st_rd c)")
  case (Ok x)
  obtain f rd where x: "x = (f, rd)" by (cases x)
  have g': "g' = fst (snd (handle_frame W peer f g (st_wr c)))"
    using assms(3) df_handle_conn_inner [of W peer c g] Ok x by simp
  show ?thesis
  proof (rule handle_frame_cases [of W peer f g "st_wr c"])
    assume "fst (snd (handle_frame W peer f g (st_wr c))) = g"
    then show ?thesis using g' by simp
  next
    fix req st
    assume u: "store_upsert (w_json W) (w_sql W) (w_wall W) (in_store g) (registered_node peer req) = Ok st"
      and r: "f_message_type f = MSG_REGISTER"
        "fst (snd (handle_frame W peer f g (st_wr c))) = registered W (ip_to_string (sa_ip peer)) st g"
    have "ip \<noteq> ip_to_string (sa_ip peer)" using assms(4) Ok x r(1) by (auto simp: registers_from_def)
    moreover have "store_inv (w_json W) (in_store g)" using assms(2) by (simp add: server_inv_def)
    ultimately show ?thesis
      using ns.upsert_law [OF world_okD(1) [OF assms(1)] _ u] g' r(2) by simp
  qed
qed (use assms(3) df_handle_conn_inner [of W peer c g] in simp_all)

lemma probe_keeps:
  assumes "kept J n s" "sy_pc s = Probing now ttl (m # nodes) ex"
    and "probe_one now ttl (ni_ip m) answer (sy_inner s, ex) = (g, ex')"
    and "ni_ip m = ni_ip n \<longrightarrow> node_healthy g n"
  shows "store_abs J (in_store g) (ni_ip n) = Some n \<and> node_healthy g n \<and> ni_ip n \<notin> set ex'"
proof (cases "ni_ip m = ni_ip n")
  case True
  with assms show ?thesis
    by (auto simp: kept_def probe_one_eq expires_def probed_def node_healthy_iff split: if_splits)
next
  case False
  with assms(1-3) show ?thesis
    by (auto simp: kept_def probe_one_eq node_healthy_iff split: if_splits)
qed

lemma finish_keeps:
  assumes "kept J n s" "sy_pc s = Probing now ttl [] ex" "remove_expired E ex (sy_inner s) = (r, g)"
  shows "store_abs J (in_store g) (ni_ip n) = Some n \<and> node_healthy g n"
proof -
  have "sys_inv J s" "ni_ip n \<notin> set ex" using assms(1,2) by (simp_all add: kept_def)
  from finish_effect [OF this(1) assms(3)] show ?thesis
  proof cases
    case (1 ips)
    with \<open>ni_ip n \<notin> set ex\<close> have "ni_ip n \<notin> ips" by blast
    with 1(4,5) assms(1) show ?thesis by (simp add: kept_def node_healthy_def)
  qed
qed

lemma keep_step_kept:
  assumes "keep_step J (ni_ip n) s s'" "kept J n s"
  shows "kept J n s'"
proof -
  have inv: "sys_inv J s'" using sys_step_inv [OF keep_step_sys [OF assms(1)]] assms(2) by (simp add: kept_def)
  from assms(1) show ?thesis
  proof cases
    case quiet
    from quiet(1) show ?thesis
    proof (cases rule: sys_stepE)
      case (probe now ttl m nodes ex answer g ex')
      have "ni_ip m = ni_ip n \<longrightarrow> node_healthy g n" using probe(1) quiet(2) assms(2) by (simp add: kept_def)
      from probe_keeps [OF assms(2) probe(2,3) this] inv probe(1) show ?thesis by (simp add: kept_def)
    next
      case (start nodes ttl)
      with inv assms(2) show ?thesis by (simp add: kept_def)
    qed (use inv assms(2) quiet(2) in \<open>simp_all add: kept_def\<close>)
  next
    case (request W peer c r g out)
    have w: "world_ok W" "server_inv (w_json W) (sy_inner s)" "w_json W = J"
      using request(2) assms(2) by (simp_all add: in_world_def kept_def sys_inv_def)
    from other_request_keeps [OF w(1,2) request(4,3)] w(3) inv request(1) assms(2) show ?thesis
      by (simp add: kept_def node_healthy_def)
  next
    case (probe now ttl m nodes ex answer g ex')
    have "ni_ip m = ni_ip n \<longrightarrow> node_healthy g n"
      using probe(3,4) by (auto simp: probe_one_eq probed_def node_healthy_def)
    from probe_keeps [OF assms(2) probe(2,4) this] inv probe(1) show ?thesis by (simp add: kept_def)
  next
    case (finish now ttl ex W r g)
    from finish_keeps [OF assms(2) finish(2,4)] inv finish(1) show ?thesis by (simp add: kept_def)
  qed
qed

lemma keep_steps_kept: "(keep_step J (ni_ip n))\<^sup>*\<^sup>* s s' \<Longrightarrow> kept J n s \<Longrightarrow> kept J n s'"
  by (induction rule: rtranclp_induct) (auto intro: keep_step_kept)

text \<open>An acknowledged registration puts the node in that state.\<close>

definition after_register :: "'e world \<Rightarrow> socket_addr \<Rightarrow> bytes \<Rightarrow> 'e sys \<Rightarrow> 'e sys" where
  "after_register W peer out s = s\<lparr>sy_inner := registry_after W peer (sy_inner s) out\<rparr>"

lemma after_register_step:
  assumes "in_world J s W"
  shows "sys_step J s (after_register W peer out s)"
proof -
  obtain r g w where "df_handle_conn W peer (accepted eof out) (sy_inner s) = (r, g, w)" by (metis prod_cases3)
  with sys_step.request [OF assms this] show ?thesis
    by (simp add: after_register_def registry_after_def registry_serve_def)
qed

lemma after_register_kept:
  assumes "in_world J s W" "sys_inv J s" "n = \<lparr>ni_ip = ip_to_string (sa_ip peer), ni_port = port,
      ni_labels = labels, ni_extra = extra\<rparr>"
    and "ni_ip n \<notin> condemned (sy_pc s)"
    and "client_register J C K rng (Inr (registry_conn W peer (sy_inner s))) port labels extra c = (Ok (), c', out)"
  shows "kept J n (after_register W peer out s)"
proof -
  have w: "world_ok W" "server_inv (w_json W) (sy_inner s)" "w_json W = J"
    using assms(1,2) by (simp_all add: in_world_def sys_inv_def)
  note r = register_reaches_registry [OF w(1,2), unfolded w(3), OF assms(5)]
  have "sys_inv J (after_register W peer out s)"
    by (rule sys_step_inv [OF after_register_step [OF assms(1)] assms(2)])
  with r assms(3,4) show ?thesis by (simp add: kept_def after_register_def node_healthy_def)
qed

section \<open>A sample session\<close>

text \<open>
  The sample node registers with a registry that has just restarted; ninety seconds later the
  probe task goes through a whole cycle, in which the node answers, and a client asks for it.
\<close>

lemma sample_cycle:
  assumes "sys_inv sample_json s" "sy_pc s = Idle" "sy_now s \<le> 1090"
    and "store_abs sample_json (in_store (sy_inner s)) = [''10.0.0.1'' \<mapsto> registered_node sample_peer sample_register]"
  obtains s' where "(keep_step sample_json ''10.0.0.1'')\<^sup>*\<^sup>* s s'" "sy_now s' = 1090" "sys_inv sample_json s'"
    "store_abs sample_json (in_store (sy_inner s')) = [''10.0.0.1'' \<mapsto> registered_node sample_peer sample_register]"
proof -
  let ?n = "registered_node sample_peer sample_register" and ?V = "sample_later 1090"
  let ?K = "keep_step sample_json ''10.0.0.1''" and ?ttl = "in_offline_ttl (sy_inner s)"
  have i: "store_inv sample_json (in_store (sy_inner s))" using assms(1) by (simp add: sys_inv_def server_inv_def)
  have e: "engine_ok (w_sql ?V)" by (rule world_okD(2)) simp
  obtain all where all: "store_list_all sample_json (w_sql ?V) (in_store (sy_inner s)) = Ok all"
    using store_list_all_succeeds [OF e i] by auto
  have one: "all = [?n]" by (rule list_single [OF e i assms(4) all])
  let ?s1 = "s\<lparr>sy_now := 1090\<rparr>"
  let ?s2 = "?s1\<lparr>sy_pc := Listed [?n] ?ttl\<rparr>"
  let ?s3 = "?s2\<lparr>sy_pc := Probing 1090 ?ttl [?n] []\<rparr>"
  obtain g ex where p: "probe_one 1090 ?ttl (ni_ip ?n) True (sy_inner s, []) = (g, ex)" by (metis surj_pair)
  then have g: "in_store g = in_store (sy_inner s)" "ex = []"
    by (auto simp: probe_one_eq expires_def)
  let ?s4 = "?s3\<lparr>sy_inner := g, sy_pc := Probing 1090 ?ttl [] ex\<rparr>"
  let ?s5 = "?s4\<lparr>sy_inner := g, sy_pc := Idle\<rparr>"
  have 1: "?K s ?s1" by (rule keep_step.quiet [OF sys_step.tick]) (use assms(3) in simp_all)
  have 2: "?K ?s1 ?s2"
    using keep_step.quiet [OF sys_step.snapshot [of ?s1 sample_json ?V all]] all one assms(2) by (simp add: in_world_def)
  have 3: "?K ?s2 ?s3"
    using keep_step.quiet [OF sys_step.start [of ?s2 "[?n]" ?ttl]] by simp
  have 4: "?K ?s3 ?s4"
    using keep_step.probe [of ?s3 1090 ?ttl ?n "[]" "[]" "''10.0.0.1''" True g ex] p by simp
  have 5: "?K ?s4 ?s5"
    using keep_step.finish [of ?s4 1090 ?ttl "[]" sample_json ?V "Ok ()" g] g(2) by (simp add: in_world_def)
  have steps: "?K\<^sup>*\<^sup>* s ?s5"
    using 1 2 3 4 5 by (meson converse_rtranclp_into_rtranclp rtranclp.rtrancl_refl)
  have "sys_inv sample_json ?s5"
    using assms(1) 1 2 3 4 5 keep_step_sys sys_step_inv by meson
  with steps assms(4) g(1) show thesis by (intro that [of ?s5]) simp_all
qed

lemma sample_session:
  obtains s W out s' nodes c3 out2 where "sys_reach sample_json s" "in_world sample_json s W" "sy_pc s = Idle"
    "client_register sample_json sample_codec None (\<lambda>_. 0) (Inr (registry_conn W sample_peer (sy_inner s))) 3
       [''api''] 7 client_new = (Ok (), snd (next_tx_id client_new), out)"
    "(keep_step sample_json ''10.0.0.1'')\<^sup>*\<^sup>* (after_register W sample_peer out s) s'" "sy_now s' = sy_now s + 90"
    "client_query_healthy sample_json sample_codec None (\<lambda>_. 0)
       (Inr (registry_conn sample_world sample_peer (sy_inner s'))) (\<lambda>_. True) [''api''] client_new =
       (Ok nodes, c3, out2)"
proof -
  let ?n = "registered_node sample_peer sample_register"
  obtain st sv where W: "world_ok (sample_disk st)"
    and sv: "df_server_new (sample_disk st) sample_config = Ok sv"
    and abs: "store_abs sample_json (in_store (sv_inner sv)) = [''10.0.0.1'' \<mapsto> ?n]"
    by (rule sample_restart)
  let ?W = "sample_disk st" and ?s = "\<lparr>sy_inner = sv_inner sv, sy_pc = Idle, sy_now = 1000\<rparr>"
  have r: "sys_reach sample_json ?s" using sys_reach.init [OF W _ sv] by simp
  have iw: "in_world sample_json ?s ?W" using W by (simp add: in_world_def)
  have inv: "server_inv (w_json ?W) (sv_inner sv)" using sys_reach_inv [OF r] by (simp add: sys_inv_def)
  obtain body where b: "register_to_vec sample_json \<lparr>rr_port = 3, rr_labels = [''api''], rr_extra = 7\<rparr> = Inr body"
    "length body \<le> u16_MAX"
    by (simp add: sample_json_def put_list_def put_nat_def put_str_def to_vec_def u16_MAX_def)
  obtain ls ex where l: "labels_to_string sample_json [''api''] = Inr ls" "extra_to_string sample_json 7 = Inr ex"
    by (simp add: sample_json_def)
  obtain out where c: "client_register sample_json sample_codec None (\<lambda>_. 0)
      (Inr (registry_conn ?W sample_peer (sv_inner sv))) 3 [''api''] 7 client_new =
      (Ok (), snd (next_tx_id client_new), out)"
    using client_register_total [OF W inv, simplified, OF _ b l, of sample_codec None "\<lambda>_. 0" sample_peer client_new] by simp
  let ?t = "after_register ?W sample_peer out ?s"
  have rn: "?n = \<lparr>ni_ip = ''10.0.0.1'', ni_port = 3, ni_labels = [''api''], ni_extra = 7\<rparr>"
    by (simp add: registered_node_def sample_peer_def sample_register_def)
  have t: "store_abs sample_json (in_store (sy_inner ?t)) = [''10.0.0.1'' \<mapsto> ?n]" "sy_pc ?t = Idle" "sy_now ?t \<le> 1090"
    using register_reaches_registry [OF W inv, simplified, OF c] abs rn
    by (simp_all add: after_register_def sample_peer_def)
  have ti: "sys_inv sample_json ?t"
    by (rule sys_step_inv [OF after_register_step [OF iw] sys_reach_inv [OF r]])
  obtain s' where s': "(keep_step sample_json ''10.0.0.1'')\<^sup>*\<^sup>* ?t s'" "sy_now s' = 1090" "sys_inv sample_json s'"
    "store_abs sample_json (in_store (sy_inner s')) = [''10.0.0.1'' \<mapsto> ?n]"
    by (rule sample_cycle [OF ti t(2,3,1)])
  have "server_inv sample_json (sy_inner s')" using s'(3) by (simp add: sys_inv_def)
  from sample_query_call [OF this s'(4), of sample_codec None "\<lambda>_. 0" sample_peer "\<lambda>_. True" client_new]
  obtain nodes c3 out2 where "client_query_healthy sample_json sample_codec None (\<lambda>_. 0)
      (Inr (registry_conn sample_world sample_peer (sy_inner s'))) (\<lambda>_. True) [''api''] client_new =
      (Ok nodes, c3, out2)" by blast
  with r iw c s'(1,2) show thesis by (intro that [of ?s ?W out s' nodes c3 out2]) simp_all
qed

section \<open>Properties\<close>

text \<open>
  C3: A node that was told it is registered stays found: from its acknowledgement on, through
  any interleaving of requests, of the critical sections of the probe task and of errors of
  SQLite, any query that is answered, from any client, reports it exactly if it carries the
  labels asked for and the client's own check accepts it, and reports no other node under its
  address; as long as nobody registers under its address, its probes are answered, and it was
  not condemned by the cycle in progress when it registered (what happens then is
  \<open>reregistration_lost\<close>).
\<close>

theorem registered_node_is_found:
  assumes "sys_reach J s" and "in_world J s W"
    and "client_register J C K rng (Inr (registry_conn W peer (sy_inner s))) port labels extra c =
           (Ok (), c1, out1)"
    and "n = \<lparr>ni_ip = ip_to_string (sa_ip peer), ni_port = port, ni_labels = labels, ni_extra = extra\<rparr>"
    and "ni_ip n \<notin> condemned (sy_pc s)"
    and "(keep_step J (ni_ip n))\<^sup>*\<^sup>* (after_register W peer out1 s) s'"
    and "world_ok W2" and "w_json W2 = J"
    and "client_query_healthy J C2 K2 rng2 (Inr (registry_conn W2 peer2 (sy_inner s'))) check wanted c2 =
           (Ok nodes, c3, out2)"
  shows "(n \<in> set nodes \<longleftrightarrow> set wanted \<subseteq> set labels \<and> check n) \<and>
    (\<forall>m \<in> set nodes. ni_ip m = ni_ip n \<longrightarrow> m = n)"
proof -
  have "kept J n (after_register W peer out1 s)"
    by (rule after_register_kept [OF assms(2) sys_reach_inv [OF assms(1)] assms(4,5,3)])
  then have k: "kept J n s'" by (rule keep_steps_kept [OF assms(6)])
  then have "server_inv (w_json W2) (sy_inner s')" using assms(8) by (simp add: kept_def sys_inv_def)
  from query_reads_registry [OF assms(7) this assms(9) [folded assms(8)]] k show ?thesis
    by (auto simp: assms(4,8) kept_def)
qed

theorem registered_node_is_found_witness:
  "\<exists>(s :: nat sys) s' W out1 nodes c3 out2.
     client_register sample_json sample_codec None (\<lambda>_. 0)
       (Inr (registry_conn W sample_peer (sy_inner s))) 3 [''api''] 7 client_new =
       (Ok (), snd (next_tx_id client_new), out1) \<and>
     sys_reach sample_json s \<and> (keep_step sample_json ''10.0.0.1'')\<^sup>*\<^sup>* (after_register W sample_peer out1 s) s' \<and>
     sy_now s' = sy_now s + 90 \<and>
     client_query_healthy sample_json sample_codec None (\<lambda>_. 0)
       (Inr (registry_conn sample_world sample_peer (sy_inner s'))) (\<lambda>_. True) [''api''] client_new =
       (Ok nodes, c3, out2) \<and>
     \<lparr>ni_ip = ''10.0.0.1'', ni_port = 3, ni_labels = [''api''], ni_extra = 7\<rparr> \<in> set nodes"
proof -
  obtain s W out s' nodes c3 out2 where s: "sys_reach sample_json s" "in_world sample_json s W" "sy_pc s = Idle"
    and c: "client_register sample_json sample_codec None (\<lambda>_. 0) (Inr (registry_conn W sample_peer (sy_inner s))) 3
       [''api''] 7 client_new = (Ok (), snd (next_tx_id client_new), out)"
    and k: "(keep_step sample_json ''10.0.0.1'')\<^sup>*\<^sup>* (after_register W sample_peer out s) s'" "sy_now s' = sy_now s + 90"
    and q: "client_query_healthy sample_json sample_codec None (\<lambda>_. 0)
       (Inr (registry_conn sample_world sample_peer (sy_inner s'))) (\<lambda>_. True) [''api''] client_new =
       (Ok nodes, c3, out2)"
    by (rule sample_session)
  let ?n = "\<lparr>ni_ip = ''10.0.0.1'', ni_port = 3, ni_labels = [''api''], ni_extra = 7\<rparr>"
  have n: "?n = \<lparr>ni_ip = ip_to_string (sa_ip sample_peer), ni_port = 3, ni_labels = [''api''], ni_extra = 7\<rparr>"
    by (simp add: sample_peer_def)
  have "?n \<in> set nodes"
    using registered_node_is_found [OF s(1,2) c n _ _ _ _ q] s(3) k(1) by simp
  with s(1) c k q show ?thesis by blast
qed

end
