(* ===== verification/Test_Base.thy ===== *)
theory Test_Base
  imports Prelude
begin

text \<open>
  The vocabulary of the crate's own tests, which the \<open>_Tests\<close> theories transcribe: a test
  returns or panics, and panics where \<open>unwrap\<close> or an assertion fails. That a transcribed test
  returns says that the model has the behaviour the authors of the code expect.
\<close>

datatype 'a test = Done 'a | Failed string

fun tbind :: "'a test \<Rightarrow> ('a \<Rightarrow> 'b test) \<Rightarrow> 'b test" where
  "tbind (Done x) f = f x"
| "tbind (Failed m) f = Failed m"

definition UNWRAP_ERR :: string where
  "UNWRAP_ERR = ''called `Result::unwrap()` on an `Err` value''"

fun unwrap :: "('e, 'a) res \<Rightarrow> 'a test" where
  "unwrap (Ok x) = Done x"
| "unwrap (Err e) = Failed UNWRAP_ERR"
| "unwrap (Panic m) = Failed m"

fun unwrap_err :: "('e, 'a) res \<Rightarrow> 'e test" where
  "unwrap_err (Ok x) = Failed ''called `Result::unwrap_err()` on an `Ok` value''"
| "unwrap_err (Err e) = Done e"
| "unwrap_err (Panic m) = Failed m"

definition assert_that :: "bool \<Rightarrow> unit test" where
  "assert_that b = (if b then Done () else Failed ''assertion failed'')"

definition assert_eq :: "'a \<Rightarrow> 'a \<Rightarrow> unit test" where
  "assert_eq x y = (if x = y then Done () else Failed ''assertion `left == right` failed'')"

text \<open>\<open>let _ = r\<close> and \<open>r.ok()\<close>: an error is dropped, a panic is not.\<close>

fun discard :: "('e, 'a) res \<Rightarrow> unit test" where
  "discard (Panic m) = Failed m"
| "discard _ = Done ()"

text \<open>Tests that work on a state, and what a step on it gives them.\<close>

fun stbind :: "'a test \<times> 's \<Rightarrow> ('a \<Rightarrow> 's \<Rightarrow> 'b test \<times> 's) \<Rightarrow> 'b test \<times> 's" where
  "stbind (Done x, s) f = f x s"
| "stbind (Failed m, s) f = (Failed m, s)"

definition sunwrap :: "('e, 'a) res \<times> 's \<Rightarrow> 'a test \<times> 's" where
  "sunwrap p = (unwrap (fst p), snd p)"

definition sdiscard :: "('e, 'a) res \<times> 's \<Rightarrow> unit test \<times> 's" where
  "sdiscard p = (discard (fst p), snd p)"

lemma stbind_step: "fst p = Done x \<Longrightarrow> stbind p f = f x (snd p)"
  by (cases p) auto

lemma stbind_cong [fundef_cong]:
  "p = p' \<Longrightarrow> (\<And>x s. p' = (Done x, s) \<Longrightarrow> f x s = g x s) \<Longrightarrow> stbind p f = stbind p' g"
  by (cases "(p', g)" rule: stbind.cases) auto

lemma sunwrap_Ok [simp]: "sunwrap (Ok x, s) = (Done x, s)" "sdiscard (Ok x, s) = (Done (), s)"
  by (simp_all add: sunwrap_def sdiscard_def)

lemma tbind_Done [simp]: "tbind t f = Done y \<longleftrightarrow> (\<exists>x. t = Done x \<and> f x = Done y)"
  by (cases t) auto

lemma assert_simps [simp]:
  "assert_that b = Done u \<longleftrightarrow> b" "assert_eq x y = Done u \<longleftrightarrow> x = y"
  by (simp_all add: assert_that_def assert_eq_def)

lemma tbind_cong [fundef_cong]:
  "t = t' \<Longrightarrow> (\<And>x. t' = Done x \<Longrightarrow> f x = g x) \<Longrightarrow> tbind t f = tbind t' g"
  by (cases t') auto

text \<open>A byte string literal.\<close>

definition bstr :: "string \<Rightarrow> bytes" where
  "bstr s = map (\<lambda>c. of_nat (of_char c)) s"

lemma length_bstr [simp]: "length (bstr s) = length s"
  by (simp add: bstr_def)

end
