(* ===== verification/Dfinder_Serve.thy ===== *)
theory Dfinder_Serve
  imports Dfinder_Race
begin

text \<open>
  The registry server fed with a sequence of events, \<open>Server::run_and_notify\<close> of
  \<open>src/dfinder/server.rs\<close>: connections, ticks of the probe interval and failures of
  \<open>accept\<close>, each with the outside world it meets. Its runs are runs of the interleaved system
  of \<open>Dfinder_Race\<close>.
\<close>

section \<open>The server over a sequence of events\<close>

datatype 'e df_event =
  DF_Accepted "'e world" socket_addr stream
| DF_Accept_Failed io_error
| DF_Tick "'e world" "'e node_info \<Rightarrow> bool"

record df_running =
  dr_inner :: inner
  dr_probing :: bool
  dr_replies :: "bytes list"
  dr_result :: "server_error option"

text \<open>
  A task per connection, whose error is printed and whose panic ends only itself. When
  \<open>accept\<close> fails the loop ends with that error and the probe task is aborted.
\<close>

fun df_serve_event :: "'e df_event \<Rightarrow> df_running \<Rightarrow> df_running" where
  "df_serve_event (DF_Accepted W peer c) s =
     (if dr_result s = None
      then let (_, g, w) = df_handle_conn W peer c (dr_inner s) in
        s\<lparr>dr_inner := g, dr_replies := dr_replies s @ [sk_out w]\<rparr>
      else s)"
| "df_serve_event (DF_Accept_Failed e) s =
     (if dr_result s = None then s\<lparr>dr_result := Some (SrvE_Io e), dr_probing := False\<rparr> else s)"
| "df_serve_event (DF_Tick W probe) s =
     (if dr_probing s then s\<lparr>dr_inner := spawn_probe [(W, probe)] (dr_inner s)\<rparr> else s)"

definition df_serve :: "'e df_event list \<Rightarrow> df_running \<Rightarrow> df_running" where
  "df_serve events s = fold df_serve_event events s"

text \<open>The timer of tokio panics on an interval of zero, which ends the probe task at once.\<close>

definition df_started :: "server \<Rightarrow> df_running" where
  "df_started sv = \<lparr>dr_inner = sv_inner sv, dr_probing = (sv_probe_interval sv \<noteq> 0), dr_replies = [],
                   dr_result = None\<rparr>"

definition run_and_notify ::
  "(socket_addr \<Rightarrow> io_error + 'l) \<Rightarrow> ('l \<Rightarrow> io_error + socket_addr) \<Rightarrow> server \<Rightarrow> 'e df_event list \<Rightarrow>
   socket_addr option \<times> df_running" where
  "run_and_notify bind local_addr sv events =
     (let failed = (\<lambda>e. (None, (df_started sv)\<lparr>dr_probing := False, dr_result := Some (SrvE_Io e)\<rparr>)) in
      case bind (sv_listen sv) of
        Inl e \<Rightarrow> failed e
      | Inr listener \<Rightarrow>
          (case local_addr listener of
             Inl e \<Rightarrow> failed e
           | Inr addr \<Rightarrow> (Some addr, df_serve events (df_started sv))))"

text \<open>
  The public ways to start it: \<open>run\<close> and \<open>spawn\<close> drop the receiver of the address,
  \<open>spawn_with_addr\<close> hands it out. A server that shares its port with another protocol is
  given frames that are read already.
\<close>

definition df_run ::
  "(socket_addr \<Rightarrow> io_error + 'l) \<Rightarrow> ('l \<Rightarrow> io_error + socket_addr) \<Rightarrow> server \<Rightarrow> 'e df_event list \<Rightarrow> df_running" where
  "df_run bind local_addr sv events = snd (run_and_notify bind local_addr sv events)"

definition df_spawn ::
  "(socket_addr \<Rightarrow> io_error + 'l) \<Rightarrow> ('l \<Rightarrow> io_error + socket_addr) \<Rightarrow> server \<Rightarrow> 'e df_event list \<Rightarrow> df_running" where
  "df_spawn bind local_addr sv events = df_run bind local_addr sv events"

definition df_spawn_with_addr ::
  "(socket_addr \<Rightarrow> io_error + 'l) \<Rightarrow> ('l \<Rightarrow> io_error + socket_addr) \<Rightarrow> server \<Rightarrow> 'e df_event list \<Rightarrow>
   df_running \<times> socket_addr option" where
  "df_spawn_with_addr bind local_addr sv events =
     (let (addr, running) = run_and_notify bind local_addr sv events in (running, addr))"

definition server_handle_frame ::
  "'e world \<Rightarrow> server \<Rightarrow> socket_addr \<Rightarrow> frame \<Rightarrow> sink \<Rightarrow> (server_error, unit) res \<times> server \<times> sink" where
  "server_handle_frame W sv peer f s =
     (let (r, g, s) = handle_frame W peer f (sv_inner sv) s in (r, sv\<lparr>sv_inner := g\<rparr>, s))"

text \<open>A frame handed over does what the frame does on a connection of its own.\<close>

lemma server_handle_frame_conn:
  assumes "read_frame (w_codec W) (w_key W) (st_rd c) = Ok (f, rest)"
    and "server_handle_frame W sv peer f (st_wr c) = (r, sv', s)"
  shows "df_handle_conn W peer c (sv_inner sv) = (r, sv_inner sv', s)"
  using assms by (auto simp: server_handle_frame_def df_handle_conn_def case_prod_beta)

section \<open>Runs of the server are runs of the interleaved system\<close>

text \<open>Worlds of one serialisation whose monotonic clocks do not go back.\<close>

fun df_clocked :: "'e json \<Rightarrow> nat \<Rightarrow> 'e df_event list \<Rightarrow> bool" where
  "df_clocked J now [] = True"
| "df_clocked J now (DF_Accepted W peer c # events) =
     (world_ok W \<and> w_json W = J \<and> now \<le> w_now W \<and> df_clocked J (w_now W) events)"
| "df_clocked J now (DF_Tick W probe # events) =
     (world_ok W \<and> w_json W = J \<and> now \<le> w_now W \<and> df_clocked J (w_now W) events)"
| "df_clocked J now (DF_Accept_Failed e # events) = df_clocked J now events"

lemma sys_reach_star: "(sys_step J)\<^sup>*\<^sup>* s s' \<Longrightarrow> sys_reach J s \<Longrightarrow> sys_reach J s'"
  by (induction rule: rtranclp_induct) (auto intro: sys_reach.step)

lemma at_time:
  assumes "sys_reach J s" "sy_now s \<le> w_now W" "world_ok W" "w_json W = J"
  shows "sys_reach J (s\<lparr>sy_now := w_now W\<rparr>)" "in_world J (s\<lparr>sy_now := w_now W\<rparr>) W"
  using sys_reach.step [OF assms(1) sys_step.tick [OF assms(2)]] assms(3,4) by (simp_all add: in_world_def)

lemma request_reach:
  assumes "sys_reach J s" "sy_now s \<le> w_now W" "world_ok W" "w_json W = J"
  shows "sys_reach J (s\<lparr>sy_now := w_now W, sy_inner := fst (snd (df_handle_conn W peer c (sy_inner s)))\<rparr>)"
proof -
  let ?t = "s\<lparr>sy_now := w_now W\<rparr>"
  note t = at_time [OF assms]
  obtain r g out where h: "df_handle_conn W peer c (sy_inner ?t) = (r, g, out)" by (metis prod_cases3)
  from sys_reach.step [OF t(1) sys_step.request [OF t(2) h]] h show ?thesis by simp
qed

lemma cycle_reach:
  assumes "sys_reach J s" "sy_now s \<le> w_now W" "world_ok W" "w_json W = J" "sy_pc s = Idle"
  shows "sys_reach J (s\<lparr>sy_now := w_now W, sy_inner := snd (run_probe_cycle W probe (sy_inner s))\<rparr>)"
proof -
  note t = at_time [OF assms(1-4)]
  show ?thesis using sys_reach_star [OF cycle_steps [OF t(2)] t(1)] assms(5) by simp
qed

text \<open>One event: the server's state is reached at the event's time, with the probe task at rest.\<close>

fun event_time :: "nat \<Rightarrow> 'e df_event \<Rightarrow> nat" where
  "event_time now (DF_Accepted W peer c) = w_now W"
| "event_time now (DF_Tick W probe) = w_now W"
| "event_time now (DF_Accept_Failed e) = now"

lemma df_event_reach:
  assumes "df_clocked J (sy_now s) [ev]" "sys_reach J s" "sy_pc s = Idle" "sy_inner s = dr_inner v"
  shows "\<exists>s'. sys_reach J s' \<and> sy_pc s' = Idle \<and> sy_inner s' = dr_inner (df_serve_event ev v) \<and>
    sy_now s' = event_time (sy_now s) ev"
proof (cases ev)
  case (DF_Accepted W peer c)
  with assms(1) have w: "sy_now s \<le> w_now W" "world_ok W" "w_json W = J" by simp_all
  show ?thesis
  proof (cases "dr_result v")
    case None
    with request_reach [OF assms(2) w, of peer c] assms(3,4) DF_Accepted show ?thesis
      by (intro exI conjI) (assumption, simp_all add: case_prod_beta)
  next
    case (Some e)
    with at_time(1) [OF assms(2) w] assms(3,4) DF_Accepted show ?thesis
      by (intro exI conjI) (assumption, simp_all)
  qed
next
  case (DF_Tick W probe)
  with assms(1) have w: "sy_now s \<le> w_now W" "world_ok W" "w_json W = J" by simp_all
  show ?thesis
  proof (cases "dr_probing v")
    case True
    with cycle_reach [OF assms(2) w assms(3), of probe] assms(3,4) DF_Tick show ?thesis
      by (intro exI conjI) (assumption, simp_all)
  next
    case False
    with at_time(1) [OF assms(2) w] assms(3,4) DF_Tick show ?thesis
      by (intro exI conjI) (assumption, simp_all)
  qed
next
  case (DF_Accept_Failed e)
  with assms show ?thesis by (intro exI [of _ s]) simp
qed

lemma df_serve_reach:
  assumes "df_clocked J (sy_now s) events" "sys_reach J s" "sy_pc s = Idle" "sy_inner s = dr_inner v"
  shows "\<exists>s'. sys_reach J s' \<and> sy_pc s' = Idle \<and> sy_inner s' = dr_inner (df_serve events v)"
  using assms
proof (induction events arbitrary: s v)
  case Nil
  then show ?case by (auto simp: df_serve_def)
next
  case (Cons ev events)
  from Cons.prems(1) have c: "df_clocked J (sy_now s) [ev]" "df_clocked J (event_time (sy_now s) ev) events"
    by (cases ev; simp)+
  from df_event_reach [OF c(1) Cons.prems(2-4)] obtain s' where s': "sys_reach J s'" "sy_pc s' = Idle"
    "sy_inner s' = dr_inner (df_serve_event ev v)" "sy_now s' = event_time (sy_now s) ev" by blast
  from Cons.IH [OF _ s'(1-3)] c(2) s'(4) show ?case by (simp add: df_serve_def)
qed

text \<open>The accept loop ends with the first failure of \<open>accept\<close>, and only then.\<close>

fun first_failure :: "'e df_event list \<Rightarrow> io_error option" where
  "first_failure [] = None"
| "first_failure (DF_Accept_Failed e # events) = Some e"
| "first_failure (ev # events) = first_failure events"

lemma df_serve_event_running:
  "dr_result (df_serve_event ev v) = (if dr_result v = None then map_option SrvE_Io (first_failure [ev]) else dr_result v)"
  "dr_probing (df_serve_event ev v) \<longleftrightarrow> dr_probing v \<and> (dr_result v = None \<longrightarrow> first_failure [ev] = None)"
  by (cases ev; simp add: case_prod_beta)+

lemma first_failure_Cons: "first_failure (ev # events) =
    (case first_failure [ev] of None \<Rightarrow> first_failure events | Some e \<Rightarrow> Some e)"
  by (cases ev) simp_all

lemma df_serve_running:
  "dr_result (df_serve events v) =
     (if dr_result v = None then map_option SrvE_Io (first_failure events) else dr_result v)"
  "dr_probing (df_serve events v) \<longleftrightarrow> dr_probing v \<and> (dr_result v = None \<longrightarrow> first_failure events = None)"
proof (induction events arbitrary: v)
  case (Cons ev events)
  have s: "df_serve (ev # events) v = df_serve events (df_serve_event ev v)" for v
    by (simp add: df_serve_def)
  { case 1 show ?case
      by (simp add: s Cons.IH(1) df_serve_event_running first_failure_Cons [of ev events]
          del: df_serve_event.simps split: option.splits) }
  { case 2 show ?case
      by (cases "first_failure [ev]")
         (auto simp add: s Cons.IH(2) df_serve_event_running first_failure_Cons [of ev events]
          simp del: df_serve_event.simps) }
qed (simp_all add: df_serve_def)

section \<open>Properties\<close>

text \<open>
  C9: From its start, any run of the server over connections, probe ticks and failures leads
  to a state of the interleaved system with the probe task at rest, so every property of the
  reachable states holds of the running server; and nothing but a failing \<open>accept\<close>, in
  particular nothing a connection sends, stops the server or its probe task.
\<close>

theorem registry_run_reachable:
  assumes "world_ok W" and "df_server_new W config = Ok sv" and "df_clocked (w_json W) (w_now W) events"
    and "run_and_notify bind local_addr sv events = (Some addr, v)"
  shows "(\<exists>s. sys_reach (w_json W) s \<and> sy_pc s = Idle \<and> sy_inner s = dr_inner v) \<and>
    dr_result v = map_option SrvE_Io (first_failure events) \<and>
    (dr_probing v \<longleftrightarrow> sv_probe_interval sv \<noteq> 0 \<and> first_failure events = None)"
proof -
  from assms(4) have v: "v = df_serve events (df_started sv)"
    by (auto simp: run_and_notify_def Let_def split: sum.splits)
  have r: "sys_reach (w_json W) \<lparr>sy_inner = sv_inner sv, sy_pc = Idle, sy_now = w_now W\<rparr>"
    by (rule sys_reach.init [OF assms(1) refl assms(2)])
  show ?thesis
    using df_serve_reach [OF _ r, of events "df_started sv"] assms(3)
    by (simp add: v df_serve_running df_started_def)
qed

theorem registry_run_reachable_witness:
  "\<exists>st sv v. df_server_new (sample_disk st) sample_config = Ok sv \<and>
     run_and_notify (\<lambda>_. Inr ()) (\<lambda>_. Inr sample_peer) sv
       [DF_Tick (sample_disk st) (\<lambda>_. True), DF_Accepted (sample_disk st) sample_peer
          \<lparr>st_rd = sample_reader [1, 2], st_wr = open_sink eof\<rparr>] = (Some sample_peer, v) \<and>
     dr_result v = None"
proof -
  obtain st sv where W: "world_ok (sample_disk st)" and sv: "df_server_new (sample_disk st) sample_config = Ok sv"
    by (rule sample_restart)
  let ?ev = "[DF_Tick (sample_disk st) (\<lambda>_. True), DF_Accepted (sample_disk st) sample_peer
          \<lparr>st_rd = sample_reader [1, 2], st_wr = open_sink eof\<rparr>]"
  obtain v where v: "run_and_notify (\<lambda>_. Inr ()) (\<lambda>_. Inr sample_peer) sv ?ev = (Some sample_peer, v)"
    by (simp add: run_and_notify_def)
  have "df_clocked (w_json (sample_disk st)) (w_now (sample_disk st)) ?ev" using W by simp
  from registry_run_reachable [OF W sv this v] sv v show ?thesis
    by (intro exI [of _ st] exI [of _ sv] exI [of _ v]) simp
qed

end
