(* ===== verification/Dfinder_Tests.thy ===== *)
theory Dfinder_Tests
  imports Test_Base Dfinder_Serve Dfinder_Client "HOL-Library.Sublist"
begin

text \<open>
  The tests of \<open>src/dfinder/mod.rs\<close>: a registry with an in-memory database, clients that call
  it, and in the second test the passing of time. Every call and every tick finds its own
  world (clocks, random bytes); the calls all come from one address, that of the test.
\<close>

section \<open>The tests\<close>

fun client_error_to_string :: "client_error \<Rightarrow> string" where
  "client_error_to_string (ClE_Io e) = ''io: '' @ io_msg e"
| "client_error_to_string (ClE_Json (Json_Error s)) = ''json: '' @ s"
| "client_error_to_string (ClE_Protocol s) = s"

record 'l df_net =
  dn_bind :: "socket_addr \<Rightarrow> io_error + 'l"
  dn_local_addr :: "'l \<Rightarrow> io_error + socket_addr"
  dn_peer :: socket_addr
  dn_rng :: rng

definition local_port_0 :: socket_addr where
  "local_port_0 = \<lparr>sa_ip = V4 127 0 0 1, sa_port = 0\<rparr>"

text \<open>A call of a client: its connection is one more event of the running server.\<close>

definition call_register ::
  "'l df_net \<Rightarrow> 'e world \<Rightarrow> u16 \<Rightarrow> string list \<Rightarrow> 'e \<Rightarrow> client \<Rightarrow> df_running \<Rightarrow>
   unit test \<times> client \<times> df_running" where
  "call_register T W port labels extra c s =
     (let (r, c, out) = client_register (w_json W) (w_codec W) (w_key W) (dn_rng T)
            (Inr (registry_conn W (dn_peer T) (dr_inner s))) port labels extra c in
      (unwrap r, c, df_serve_event (DF_Accepted W (dn_peer T) (accepted eof out)) s))"

definition call_query ::
  "'l df_net \<Rightarrow> 'e world \<Rightarrow> ('e node_info \<Rightarrow> bool) \<Rightarrow> string list \<Rightarrow> client \<Rightarrow> df_running \<Rightarrow>
   (client_error, 'e node_info list) res \<times> client \<times> df_running" where
  "call_query T W check labels c s =
     (let (r, c, out) = client_query_healthy (w_json W) (w_codec W) (w_key W) (dn_rng T)
            (Inr (registry_conn W (dn_peer T) (dr_inner s))) check labels c in
      (r, c, df_serve_event (DF_Accepted W (dn_peer T) (accepted eof out)) s))"

text \<open>Server start, common to the three tests; the first tick of the probe timer comes at once.\<close>

definition start_server ::
  "'l df_net \<Rightarrow> 'e world \<Rightarrow> nat \<Rightarrow> nat \<Rightarrow> 'e df_event list \<Rightarrow> df_running test" where
  "start_server T W probe_interval offline_ttl events =
     tbind (unwrap (df_server_new W
         \<lparr>cfg_listen = local_port_0, cfg_db_path = None, cfg_probe_interval = probe_interval,
          cfg_offline_ttl = offline_ttl\<rparr>)) (\<lambda>server.
     case df_spawn_with_addr (dn_bind T) (dn_local_addr T) server events of
       (handle, Some addr) \<Rightarrow> Done handle
     | (handle, None) \<Rightarrow> Failed UNWRAP_ERR)"

text \<open>The extra data \<open>extra\<close> of the first two tests is \<open>()\<close>; times are in milliseconds.\<close>

definition register_and_query_with_label_and_local_filter ::
  "'l df_net \<Rightarrow> (nat \<Rightarrow> 'e world) \<Rightarrow> 'e \<Rightarrow> unit test" where
  "register_and_query_with_label_and_local_filter T W extra =
     tbind (start_server T (W 0) 60000 3600000 [DF_Tick (W 1) (\<lambda>_. True)]) (\<lambda>s.
     let client = client_new;
         (r, client, s) = call_register T (W 2) 9001 [''api'', ''v1''] extra client s in
     tbind r (\<lambda>_.
     let (r, client, s) = call_query T (W 3) (\<lambda>_. True) [''api''] client s in
     tbind (unwrap r) (\<lambda>nodes.
     tbind (assert_eq (length nodes) 1) (\<lambda>_.
     tbind (assert_eq (ni_port (nodes ! 0)) 9001) (\<lambda>_.
     tbind (assert_that (''api'' \<in> set (ni_labels (nodes ! 0)))) (\<lambda>_.
     let picky = client_new;
         (r, picky, s) = call_query T (W 4) (\<lambda>_. False) [''api''] picky s in
     tbind (unwrap r) (\<lambda>filtered.
     tbind (assert_that (filtered = [])) (\<lambda>_.
     let (r, client, s) = call_query T (W 5) (\<lambda>_. True) [] client s in
     tbind (unwrap_err r) (\<lambda>err.
     assert_that (sublist ''>= 1 label'' (client_error_to_string err)))))))))))"

text \<open>
  The ticks \<open>ups\<close> come before the flag \<open>alive\<close> is cleared, the ticks \<open>downs\<close> in the sleep.
  \<open>expiry_setup\<close> is the test up to the end of the sleep.
\<close>

definition expiry_setup ::
  "'l df_net \<Rightarrow> (nat \<Rightarrow> 'e world) \<Rightarrow> 'e world list \<Rightarrow> 'e world list \<Rightarrow> 'e \<Rightarrow> (client \<times> df_running) test" where
  "expiry_setup T W ups downs extra =
     tbind (start_server T (W 0) 30 80 [DF_Tick (W 1) (\<lambda>_. True)]) (\<lambda>s.
     let client = client_new;
         (r, client, s) = call_register T (W 2) 9002 [''svc''] extra client s in
     tbind r (\<lambda>_.
     let s = df_serve (map (\<lambda>W. DF_Tick W (\<lambda>_. True)) ups) s;
         (r, client, s) = call_query T (W 3) (\<lambda>_. True) [''svc''] client s in
     tbind (unwrap r) (\<lambda>before.
     tbind (assert_eq (length before) 1) (\<lambda>_.
     Done (client, df_serve (map (\<lambda>W. DF_Tick W (\<lambda>_. False)) downs) s)))))"

definition expires_unhealthy_nodes ::
  "'l df_net \<Rightarrow> (nat \<Rightarrow> 'e world) \<Rightarrow> 'e world list \<Rightarrow> 'e world list \<Rightarrow> 'e \<Rightarrow> unit test" where
  "expires_unhealthy_nodes T W ups downs extra =
     tbind (expiry_setup T W ups downs extra) (\<lambda>(client, s).
     let (r, client, s) = call_query T (W 4) (\<lambda>_. True) [''svc''] client s in
     tbind (unwrap r) (\<lambda>after.
     assert_that (after = [])))"

record meta =
  region :: string
  weight :: "32 word"

definition custom_extra_roundtrip :: "'l df_net \<Rightarrow> (nat \<Rightarrow> meta world) \<Rightarrow> unit test" where
  "custom_extra_roundtrip T W =
     tbind (start_server T (W 0) 60000 3600000 [DF_Tick (W 1) (\<lambda>n. weight (ni_extra n) > 0)]) (\<lambda>s.
     let client = client_new;
         meta = \<lparr>region = ''cn'', weight = 10\<rparr>;
         (r, client, s) = call_register T (W 2) 9003 [''api''] meta client s in
     tbind r (\<lambda>_.
     let (r, client, s) = call_query T (W 3) (\<lambda>n. region (ni_extra n) = ''cn'') [''api''] client s in
     tbind (unwrap r) (\<lambda>nodes.
     tbind (assert_eq (length nodes) 1) (\<lambda>_.
     assert_eq (ni_extra (nodes ! 0)) meta))))"

section \<open>Where the tests run\<close>

text \<open>
  Each world keeps its laws, its SQLite has no faults, and its JSON encodes the small messages
  of the tests, for the node registered under \<open>ip\<close> with the port \<open>port\<close> and the
  extra data \<open>x\<close>, in a frame.
\<close>

definition small_json :: "'e json \<Rightarrow> string \<Rightarrow> u16 \<Rightarrow> 'e \<Rightarrow> bool" where
  "small_json J ip port x \<longleftrightarrow>
     (\<forall>ls. length ls \<le> 2 \<longrightarrow> set ls \<subseteq> {''api'', ''v1'', ''svc''} \<longrightarrow>
        (\<exists>b. register_to_vec J \<lparr>rr_port = port, rr_labels = ls, rr_extra = x\<rparr> = Inr b \<and> length b \<le> u16_MAX) \<and>
        (\<exists>b. query_to_vec J \<lparr>qr_labels = ls\<rparr> = Inr b \<and> length b \<le> u16_MAX) \<and>
        (\<exists>s. labels_to_string J ls = Inr s) \<and>
        (\<exists>b. result_to_vec J \<lparr>qres_nodes = [\<lparr>ni_ip = ip, ni_port = port, ni_labels = ls, ni_extra = x\<rparr>]\<rparr> = Inr b \<and>
           length b \<le> u16_MAX)) \<and>
     (\<exists>s. extra_to_string J x = Inr s) \<and>
     (\<exists>b. result_to_vec J \<lparr>qres_nodes = []\<rparr> = Inr b \<and> length b \<le> u16_MAX)"

lemma small_jsonD:
  assumes "small_json J ip port x" "length ls \<le> 2" "set ls \<subseteq> {''api'', ''v1'', ''svc''}"
  obtains rb qb sb nb where
    "register_to_vec J \<lparr>rr_port = port, rr_labels = ls, rr_extra = x\<rparr> = Inr rb" "length rb \<le> u16_MAX"
    "query_to_vec J \<lparr>qr_labels = ls\<rparr> = Inr qb" "length qb \<le> u16_MAX" "labels_to_string J ls = Inr sb"
    "result_to_vec J \<lparr>qres_nodes = [\<lparr>ni_ip = ip, ni_port = port, ni_labels = ls, ni_extra = x\<rparr>]\<rparr> = Inr nb"
    "length nb \<le> u16_MAX"
  using assms unfolding small_json_def by blast

definition world_up :: "'e json \<Rightarrow> 'e world \<Rightarrow> bool" where
  "world_up J W \<longleftrightarrow>
     world_ok W \<and> w_json W = J \<and> (\<forall>q. eng_fault (w_sql W) q = None) \<and> eng_open_memory (w_sql W) = Inr ()"

lemma world_upD:
  assumes "world_up J W"
  shows "world_ok W" "w_json W = J" "eng_fault (w_sql W) q = None" "eng_open_memory (w_sql W) = Inr ()"
  using assms by (auto simp: world_up_def)

section \<open>States of the tests\<close>

text \<open>
  A running registry that knows at most the node \<open>n\<close>, with \<open>healthy\<close> and the last success
  \<open>t\<close> if it does.
\<close>

definition running_with :: "'e json \<Rightarrow> nat \<Rightarrow> df_running \<Rightarrow> ('e node_info \<times> bool \<times> nat) option \<Rightarrow> bool" where
  "running_with J ttl s nh \<longleftrightarrow>
     dr_result s = None \<and> dr_probing s \<and> server_inv J (dr_inner s) \<and> in_offline_ttl (dr_inner s) = ttl \<and>
     (case nh of
        None \<Rightarrow> store_abs J (in_store (dr_inner s)) = Map.empty
      | Some (n, healthy, t) \<Rightarrow> store_abs J (in_store (dr_inner s)) = [ni_ip n \<mapsto> n] \<and>
          in_health (dr_inner s) (ni_ip n) = Some \<lparr>hs_healthy = healthy, hs_last_ok = t\<rparr>)"

lemma running_with_cong:
  "running_with J ttl s nh \<Longrightarrow> dr_inner s' = dr_inner s \<Longrightarrow> dr_result s' = dr_result s \<Longrightarrow>
     dr_probing s' = dr_probing s \<Longrightarrow> running_with J ttl s' nh"
  by (simp only: running_with_def)

lemma start_up:
  assumes "world_up J W" "dn_bind T local_port_0 = Inr l" "dn_local_addr T l = Inr a" "0 < interval"
  shows "\<exists>s. start_server T W interval ttl events = Done (df_serve events s) \<and> running_with J ttl s None"
proof -
  note w = world_upD [OF assms(1)]
  let ?cfg = "\<lparr>cfg_listen = local_port_0, cfg_db_path = None, cfg_probe_interval = interval, cfg_offline_ttl = ttl\<rparr>"
  let ?st = "\<lparr>ns_conn = Some [], ns_poisoned = False\<rparr>"
  have o: "store_open_in_memory (w_sql W) = Ok ?st"
    by (simp add: store_open_in_memory_Ok_iff w(3,4))
  have i: "store_inv J ?st" "store_abs J ?st = Map.empty"
    by (simp_all add: store_inv_def store_abs_def store_rows_def)
  obtain ns where ns: "store_list_all J (w_sql W) ?st = Ok ns"
    using store_list_all_succeeds [OF _ i(1) w(3)] w(1) by (auto simp: world_ok_def)
  then obtain sv where sv: "df_server_new W ?cfg = Ok sv" "in_store (sv_inner sv) = ?st"
    "sv_listen sv = local_port_0" "sv_probe_interval sv = interval"
    by (simp add: df_server_new_def o w(2) Let_def)
  with df_server_new_Ok [OF w(1) sv(1)] i(2) w(2) assms(4) have "running_with J ttl (df_started sv) None"
    by (simp add: running_with_def df_started_def)
  moreover have "start_server T W interval ttl events = Done (df_serve events (df_started sv))"
    by (simp add: start_server_def sv df_spawn_with_addr_def run_and_notify_def Let_def assms(2,3))
  ultimately show ?thesis by blast
qed

text \<open>One cycle over a registry with one node.\<close>

lemma cycle_one:
  assumes "world_ok W" "server_inv (w_json W) g" "run_probe_cycle W probe g = (Ok (), g')"
    and "store_abs (w_json W) (in_store g) = [ni_ip n \<mapsto> n]"
  shows "store_abs (w_json W) (in_store g') =
      (if expires (w_now W) (in_offline_ttl g) (probe n) (in_health g (ni_ip n)) then Map.empty else [ni_ip n \<mapsto> n])"
    and "\<not> expires (w_now W) (in_offline_ttl g) (probe n) (in_health g (ni_ip n)) \<Longrightarrow>
      in_health g' (ni_ip n) = Some (probed (w_now W) (probe n) (in_health g (ni_ip n)))"
    and "in_offline_ttl g' = in_offline_ttl g"
proof -
  from assms(1-3) obtain ips where c: "in_offline_ttl g' = in_offline_ttl g"
    "store_abs (w_json W) (in_store g') = store_abs (w_json W) (in_store g) |` (- ips)"
    "in_health g' = in_health (after_probes W probe g) |` (- ips)"
    "ips = {ip. \<exists>n. store_abs (w_json W) (in_store g) ip = Some n \<and>
        expires (w_now W) (in_offline_ttl g) (probe n) (in_health g ip)}"
    by (cases rule: run_probe_cycle_cases) auto
  have mem: "ni_ip n \<in> ips \<longleftrightarrow> expires (w_now W) (in_offline_ttl g) (probe n) (in_health g (ni_ip n))"
    by (simp add: c(4) assms(4))
  have h: "in_health (after_probes W probe g) (ni_ip n) =
      Some (probed (w_now W) (probe n) (in_health g (ni_ip n)))"
    by (simp add: after_probes_def assms(4))
  show "in_offline_ttl g' = in_offline_ttl g" by (rule c(1))
  show "store_abs (w_json W) (in_store g') =
      (if expires (w_now W) (in_offline_ttl g) (probe n) (in_health g (ni_ip n)) then Map.empty else [ni_ip n \<mapsto> n])"
    unfolding c(2) assms(4) mem [symmetric] by (auto simp: restrict_map_def fun_eq_iff)
  show "in_health g' (ni_ip n) = Some (probed (w_now W) (probe n) (in_health g (ni_ip n)))"
    if "\<not> expires (w_now W) (in_offline_ttl g) (probe n) (in_health g (ni_ip n))"
    using that c(3) h mem by (simp add: restrict_map_def)
qed

lemma cycle_none:
  assumes "world_ok W" "server_inv (w_json W) g" "run_probe_cycle W probe g = (Ok (), g')"
    and "store_abs (w_json W) (in_store g) = Map.empty"
  shows "store_abs (w_json W) (in_store g') = Map.empty" "in_offline_ttl g' = in_offline_ttl g"
  using assms(1-3) by (cases rule: run_probe_cycle_cases; simp add: assms(4))+

text \<open>A tick of the probe timer, and what becomes of the node.\<close>

fun ticked :: "nat \<Rightarrow> nat \<Rightarrow> ('e node_info \<Rightarrow> bool) \<Rightarrow> ('e node_info \<times> bool \<times> nat) option \<Rightarrow>
    ('e node_info \<times> bool \<times> nat) option" where
  "ticked ttl now probe None = None"
| "ticked ttl now probe (Some (n, b, t)) =
     (if probe n then Some (n, True, now) else if ttl \<le> now - t then None else Some (n, False, t))"

lemma tick_up:
  assumes "running_with J ttl s nh" "world_up J W"
  shows "running_with J ttl (df_serve_event (DF_Tick W probe) s) (ticked ttl (w_now W) probe nh)"
proof -
  note w = world_upD [OF assms(2)]
  let ?g = "dr_inner s"
  have i: "server_inv (w_json W) ?g" and alive: "dr_result s = None" "dr_probing s" "in_offline_ttl ?g = ttl"
    using assms(1) w(2) by (simp_all add: running_with_def)
  have t: "df_serve_event (DF_Tick W probe) s = s\<lparr>dr_inner := snd (run_probe_cycle W probe ?g)\<rparr>"
    using alive by simp
  obtain g' where c: "run_probe_cycle W probe ?g = (Ok (), g')"
    using run_probe_cycle_succeeds [OF w(1) i w(3)] by blast
  have i': "server_inv J g'" using run_probe_cycle_inv [OF w(1) i, of probe] c w(2) by simp
  show ?thesis
  proof (cases nh)
    case None
    with cycle_none [OF w(1) i c] assms(1) w(2) t c i' alive show ?thesis by (simp add: running_with_def)
  next
    case (Some x)
    obtain n b u where nh: "nh = Some (n, b, u)" using Some by (cases x) simp
    have n: "store_abs J (in_store ?g) = [ni_ip n \<mapsto> n]"
      "in_health ?g (ni_ip n) = Some \<lparr>hs_healthy = b, hs_last_ok = u\<rparr>"
      using assms(1) by (simp_all add: running_with_def nh)
    have n': "store_abs (w_json W) (in_store ?g) = [ni_ip n \<mapsto> n]" using n(1) w(2) by simp
    note one = cycle_one [OF w(1) i c n', unfolded w(2) n(2) expires_def probed_def alive(3), simplified]
    show ?thesis
      using one t c i' alive by (auto simp: running_with_def nh)
  qed
qed

text \<open>The calls.\<close>

lemma request_ttl:
  assumes "world_ok W" "server_inv (w_json W) g"
  shows "in_offline_ttl (fst (snd (df_handle_conn W peer c g))) = in_offline_ttl g"
proof -
  obtain r g' out where h: "df_handle_conn W peer c g = (r, g', out)" by (metis prod_cases3)
  from request_inner [OF assms h] h show ?thesis by auto
qed

lemma register_up:
  assumes "running_with J ttl s None" "world_up J W" "small_json J (ip_to_string (sa_ip (dn_peer T))) port x"
    and "ls \<noteq> []" "length ls \<le> 2" "set ls \<subseteq> {''api'', ''v1'', ''svc''}"
  shows "\<exists>c' s'. call_register T W port ls x c s = (Done (), c', s') \<and>
    running_with J ttl s' (Some (\<lparr>ni_ip = ip_to_string (sa_ip (dn_peer T)), ni_port = port, ni_labels = ls, ni_extra = x\<rparr>, True, w_now W))"
proof -
  note w = world_upD [OF assms(2)]
  let ?g = "dr_inner s" and ?conn = "registry_conn W (dn_peer T) (dr_inner s)"
  have i: "server_inv (w_json W) ?g" using assms(1) w(2) by (simp add: running_with_def)
  obtain rb sb where b: "register_to_vec J \<lparr>rr_port = port, rr_labels = ls, rr_extra = x\<rparr> = Inr rb" "length rb \<le> u16_MAX"
    "labels_to_string J ls = Inr sb"
    by (rule small_jsonD [OF assms(3,5,6)])
  obtain es where e: "extra_to_string J x = Inr es" using assms(3) by (auto simp: small_json_def)
  let ?out = "wire (push_bit 3 MSG_REGISTER) (cl_next_tx c) rb"
  have c: "client_register (w_json W) (w_codec W) (w_key W) (dn_rng T) (Inr ?conn) port ls x c =
      (Ok (), snd (next_tx_id c), ?out)"
    by (rule client_register_total [OF w(1) i]) (simp_all add: w(2,3) assms(4) b e)
  note r = register_reaches_registry [OF w(1) i c]
  have "dr_inner (df_serve_event (DF_Accepted W (dn_peer T) (accepted eof ?out)) s) =
      registry_after W (dn_peer T) ?g ?out"
    using assms(1) by (simp add: running_with_def registry_after_def registry_serve_eq case_prod_beta)
  moreover have "dr_result (df_serve_event (DF_Accepted W (dn_peer T) (accepted eof ?out)) s) = None"
    "dr_probing (df_serve_event (DF_Accepted W (dn_peer T) (accepted eof ?out)) s)"
    using assms(1) by (simp_all add: running_with_def case_prod_beta)
  moreover have "in_offline_ttl (registry_after W (dn_peer T) ?g ?out) = ttl"
    using request_ttl [OF w(1) i] assms(1) by (simp add: running_with_def registry_after_def registry_serve_eq)
  ultimately show ?thesis
    using c r assms(1) w(2) by (simp add: call_register_def running_with_def)
qed

lemma distinct_subset_single: "distinct ns \<Longrightarrow> set ns \<subseteq> {n} \<Longrightarrow> ns = [] \<or> ns = [n]"
  by (cases ns; cases "tl ns") auto

lemma answer_small:
  assumes "running_with J ttl s nh" "small_json J (ip_to_string (sa_ip (dn_peer T))) port x"
    and "fst ` set_option nh \<subseteq> {\<lparr>ni_ip = ip_to_string (sa_ip (dn_peer T)), ni_port = port, ni_labels = nls, ni_extra = x\<rparr>}"
    and "length nls \<le> 2" "set nls \<subseteq> {''api'', ''v1'', ''svc''}"
    and "distinct ns \<and> set ns \<subseteq> ran (store_abs J (in_store (dr_inner s)))"
  shows "\<exists>b. result_to_vec J \<lparr>qres_nodes = ns\<rparr> = Inr b \<and> length b \<le> u16_MAX"
proof -
  let ?n = "\<lparr>ni_ip = ip_to_string (sa_ip (dn_peer T)), ni_port = port, ni_labels = nls, ni_extra = x\<rparr>"
  have "m = ?n" if "store_abs J (in_store (dr_inner s)) ip = Some m" for ip m
    using that assms(1,3) by (auto simp: running_with_def split: option.splits prod.splits if_splits)
  with assms(6) have "ns = [] \<or> ns = [?n]"
    by (intro distinct_subset_single) (auto simp: ran_def)
  moreover obtain b where "result_to_vec J \<lparr>qres_nodes = [?n]\<rparr> = Inr b" "length b \<le> u16_MAX"
    by (rule small_jsonD [OF assms(2,4,5)])
  ultimately show ?thesis using assms(2) by (auto simp: small_json_def)
qed

lemma query_up:
  assumes "running_with J ttl s nh" "world_up J W" "small_json J (ip_to_string (sa_ip (dn_peer T))) port x"
    and "ls \<noteq> []" "length ls \<le> 2" "set ls \<subseteq> {''api'', ''v1'', ''svc''}"
    and "fst ` set_option nh \<subseteq> {\<lparr>ni_ip = ip_to_string (sa_ip (dn_peer T)), ni_port = port, ni_labels = nls, ni_extra = x\<rparr>}"
    and "length nls \<le> 2" "set nls \<subseteq> {''api'', ''v1'', ''svc''}"
  shows "\<exists>c' s'. call_query T W check ls c s =
      (Ok (case nh of Some (n, True, _) \<Rightarrow> if set ls \<subseteq> set (ni_labels n) \<and> check n then [n] else [] | _ \<Rightarrow> []), c', s') \<and>
    running_with J ttl s' nh"
proof -
  note w = world_upD [OF assms(2)]
  let ?g = "dr_inner s" and ?conn = "registry_conn W (dn_peer T) (dr_inner s)"
  have i: "server_inv (w_json W) ?g" using assms(1) w(2) by (simp add: running_with_def)
  obtain qb where q: "query_to_vec J \<lparr>qr_labels = ls\<rparr> = Inr qb" "length qb \<le> u16_MAX"
    by (rule small_jsonD [OF assms(3,5,6)])
  note small = answer_small [OF assms(1,3,7-9)]
  obtain nodes c' out where c: "client_query_healthy (w_json W) (w_codec W) (w_key W) (dn_rng T) (Inr ?conn) check ls c =
      (Ok nodes, c', out)"
    using client_query_total [OF w(1) i, of ls qb] q assms(4) small w(2,3) by metis
  note r = query_reads_registry [OF w(1) i c]
  have mem: "n \<in> set nodes \<longleftrightarrow> (\<exists>t. nh = Some (n, True, t)) \<and> set ls \<subseteq> set (ni_labels n) \<and> check n" for n
    using r assms(1) w(2)
    by (auto simp: running_with_def node_healthy_def split: option.splits prod.splits if_splits)
  have d: "distinct nodes" using r by (simp add: distinct_map)
  have nodes: "nodes = (case nh of Some (n, True, _) \<Rightarrow> if set ls \<subseteq> set (ni_labels n) \<and> check n then [n] else [] | _ \<Rightarrow> [])"
  proof (cases "\<exists>n t. nh = Some (n, True, t)")
    case True
    then obtain n t where n: "nh = Some (n, True, t)" by blast
    with mem have "set nodes \<subseteq> {n}" by auto
    from distinct_subset_single [OF d this] mem [of n] n show ?thesis by auto
  next
    case False
    with mem have "nodes = []" by (cases nodes) auto
    with False show ?thesis by (auto split: option.splits prod.splits bool.splits)
  qed
  have "dr_inner (df_serve_event (DF_Accepted W (dn_peer T) (accepted eof out)) s) = ?g"
    using assms(1) r by (simp add: running_with_def registry_after_def registry_serve_eq case_prod_beta)
  moreover have "dr_result (df_serve_event (DF_Accepted W (dn_peer T) (accepted eof out)) s) = None"
    "dr_probing (df_serve_event (DF_Accepted W (dn_peer T) (accepted eof out)) s)"
    using assms(1) by (simp_all add: running_with_def case_prod_beta)
  ultimately have "running_with J ttl (df_serve_event (DF_Accepted W (dn_peer T) (accepted eof out)) s) nh"
    using assms(1) by (intro running_with_cong [OF assms(1)]) (simp_all add: running_with_def)
  then show ?thesis using c nodes by (simp add: call_query_def)
qed

text \<open>Runs of ticks in which the node answers, and in which it does not.\<close>

lemma ups:
  "running_with J ttl s (Some (n, True, t)) \<Longrightarrow> \<forall>W \<in> set Ws. world_up J W \<Longrightarrow>
     running_with J ttl (df_serve (map (\<lambda>W. DF_Tick W (\<lambda>_. True)) Ws) s) (Some (n, True, last (t # map w_now Ws)))"
proof (induction Ws arbitrary: s t)
  case (Cons W Ws)
  from Cons.prems(2) have W: "world_up J W" "\<forall>W \<in> set Ws. world_up J W" by simp_all
  from Cons.IH [OF tick_up [OF Cons.prems(1) W(1), of "\<lambda>_. True", simplified ticked.simps if_True] W(2)] show ?case
    by (simp add: df_serve_def del: df_serve_event.simps)
qed (simp add: df_serve_def)

lemma down_none:
  "running_with J ttl s None \<Longrightarrow> \<forall>W \<in> set Ws. world_up J W \<Longrightarrow>
     running_with J ttl (df_serve (map (\<lambda>W. DF_Tick W (\<lambda>_. False)) Ws) s) None"
proof (induction Ws arbitrary: s)
  case (Cons W Ws)
  from Cons.prems(2) have W: "world_up J W" "\<forall>W \<in> set Ws. world_up J W" by simp_all
  from Cons.IH [OF tick_up [OF Cons.prems(1) W(1), of "\<lambda>_. False", simplified ticked.simps] W(2)] show ?case
    by (simp add: df_serve_def del: df_serve_event.simps)
qed (simp add: df_serve_def)

lemma downs:
  "running_with J ttl s (Some (n, b, t)) \<Longrightarrow> \<forall>W \<in> set Ws. world_up J W \<Longrightarrow>
     running_with J ttl (df_serve (map (\<lambda>W. DF_Tick W (\<lambda>_. False)) Ws) s)
       (if \<exists>W \<in> set Ws. ttl \<le> w_now W - t then None else Some (n, b \<and> Ws = [], t))"
proof (induction Ws arbitrary: s b)
  case (Cons W Ws)
  from Cons.prems(2) have W: "world_up J W" "\<forall>W \<in> set Ws. world_up J W" by simp_all
  note tick = tick_up [OF Cons.prems(1) W(1), of "\<lambda>_. False", simplified ticked.simps if_False]
  show ?case
  proof (cases "ttl \<le> w_now W - t")
    case True
    with down_none [OF _ W(2)] tick show ?thesis
      by (simp add: df_serve_def del: df_serve_event.simps)
  next
    case False
    with Cons.IH [OF _ W(2), of "df_serve_event (DF_Tick W (\<lambda>_. False)) s" False] tick show ?thesis
      by (cases "\<exists>W \<in> set Ws. ttl \<le> w_now W - t") (simp_all add: df_serve_def del: df_serve_event.simps)
  qed
qed (simp add: df_serve_def)

definition net_up :: "'l df_net \<Rightarrow> bool" where
  "net_up T \<longleftrightarrow> (\<exists>l a. dn_bind T local_port_0 = Inr l \<and> dn_local_addr T l = Inr a)"

text \<open>Start, first tick and registration, which all three tests begin with.\<close>

lemma begin_up:
  assumes "net_up T" "\<forall>i. world_up J (W i)" "small_json J (ip_to_string (sa_ip (dn_peer T))) port x" "0 < interval"
    and "ls \<noteq> []" "length ls \<le> 2" "set ls \<subseteq> {''api'', ''v1'', ''svc''}"
  shows "\<exists>s c' s'. start_server T (W 0) interval ttl [DF_Tick (W 1) probe] = Done s \<and>
    call_register T (W 2) port ls x client_new s = (Done (), c', s') \<and>
    running_with J ttl s' (Some (\<lparr>ni_ip = ip_to_string (sa_ip (dn_peer T)), ni_port = port, ni_labels = ls, ni_extra = x\<rparr>, True, w_now (W 2)))"
proof -
  obtain l a where l: "dn_bind T local_port_0 = Inr l" "dn_local_addr T l = Inr a"
    using assms(1) by (auto simp: net_up_def)
  have W: "world_up J (W i)" for i using assms(2) by blast
  from start_up [where W = "W 0" and ttl = ttl and events = "[DF_Tick (W 1) probe]", OF W l assms(4)] obtain s0 where
    s0: "start_server T (W 0) interval ttl [DF_Tick (W 1) probe] = Done (df_serve [DF_Tick (W 1) probe] s0)"
      "running_with J ttl s0 None" by blast
  have "running_with J ttl (df_serve [DF_Tick (W 1) probe] s0) None"
    using tick_up [where W = "W 1" and probe = probe, OF s0(2) W] by (simp add: df_serve_def del: df_serve_event.simps)
  from register_up [where W = "W 2" and port = port and c = client_new, OF this W assms(3,5-7)] s0(1) show ?thesis by blast
qed

lemma contains_1_label: "sublist ''>= 1 label'' (client_error_to_string (ClE_Protocol ''query requires >= 1 label''))"
  using sublist_appendI [of "''>= 1 label''" "''query requires ''" "[]"] by simp

lemma label_test_passes:
  assumes "net_up T" and "\<forall>i. world_up J (W i)" and "small_json J (ip_to_string (sa_ip (dn_peer T))) 9001 extra"
  shows "register_and_query_with_label_and_local_filter T W extra = Done ()"
proof -
  let ?n = "\<lparr>ni_ip = ip_to_string (sa_ip (dn_peer T)), ni_port = 9001, ni_labels = [''api'', ''v1''], ni_extra = extra\<rparr>"
  have W: "world_up J (W i)" for i using assms(2) by blast
  have ls: "[''api'', ''v1''] \<noteq> []" "length [''api'', ''v1''] \<le> 2" "set [''api'', ''v1''] \<subseteq> {''api'', ''v1'', ''svc''}"
    and api: "[''api''] \<noteq> []" "length [''api''] \<le> 2" "set [''api''] \<subseteq> {''api'', ''v1'', ''svc''}" by simp_all
  obtain s c1 s1 where 1: "start_server T (W 0) 60000 3600000 [DF_Tick (W 1) (\<lambda>_. True)] = Done s"
    "call_register T (W 2) 9001 [''api'', ''v1''] extra client_new s = (Done (), c1, s1)"
    and r1: "running_with J 3600000 s1 (Some (?n, True, w_now (W 2)))"
    using begin_up [where interval = 60000 and ttl = 3600000 and probe = "\<lambda>_. True" and port = 9001, OF assms _ ls] by auto
  have n: "fst ` set_option (Some (?n, True, w_now (W 2))) \<subseteq> {?n}" by simp
  obtain c2 s2 where 2: "call_query T (W 3) (\<lambda>_. True) [''api''] c1 s1 = (Ok [?n], c2, s2)"
    and r2: "running_with J 3600000 s2 (Some (?n, True, w_now (W 2)))"
    using query_up [where W = "W 3" and check = "\<lambda>_. True" and c = c1, OF r1 W assms(3) api n ls(2,3)] by auto
  obtain c3 s3 where 3: "call_query T (W 4) (\<lambda>_. False) [''api''] client_new s2 = (Ok [], c3, s3)"
    using query_up [where W = "W 4" and check = "\<lambda>_. False" and c = client_new, OF r2 W assms(3) api n ls(2,3)] by auto
  have 4: "fst (call_query T (W 5) (\<lambda>_. True) [] c2 s3) = Err (ClE_Protocol ''query requires >= 1 label'')"
    by (simp add: call_query_def client_query_healthy_def)
  show ?thesis
    using contains_1_label 4
    by (simp add: register_and_query_with_label_and_local_filter_def 1 2 3 case_prod_beta
        del: client_error_to_string.simps One_nat_def)
qed

lemma expiry_setup_passes:
  assumes "net_up T" and "\<forall>i. world_up J (W i)" and "small_json J (ip_to_string (sa_ip (dn_peer T))) 9002 extra"
    and "\<forall>W \<in> set (ups @ downs). world_up J W"
    and "n = \<lparr>ni_ip = ip_to_string (sa_ip (dn_peer T)), ni_port = 9002, ni_labels = [''svc''], ni_extra = extra\<rparr>"
  shows "\<exists>c s. expiry_setup T W ups downs extra = Done (c, s) \<and>
    running_with J 80 s (if \<exists>D \<in> set downs. 80 \<le> w_now D - w_now (last (W 2 # ups)) then None
      else Some (n, downs = [], w_now (last (W 2 # ups))))"
proof -
  have W: "world_up J (W i)" for i using assms(2) by blast
  have ls: "[''svc''] \<noteq> []" "length [''svc''] \<le> 2" "set [''svc''] \<subseteq> {''api'', ''v1'', ''svc''}" by simp_all
  obtain s c1 s1 where 1: "start_server T (W 0) 30 80 [DF_Tick (W 1) (\<lambda>_. True)] = Done s"
    "call_register T (W 2) 9002 [''svc''] extra client_new s = (Done (), c1, s1)"
    and r1: "running_with J 80 s1 (Some (n, True, w_now (W 2)))"
    using begin_up [where interval = 30 and ttl = 80 and probe = "\<lambda>_. True" and port = 9002, OF assms(1-3) _ ls] assms(5) by auto
  let ?s2 = "df_serve (map (\<lambda>W. DF_Tick W (\<lambda>_. True)) ups) s1" and ?t = "w_now (last (W 2 # ups))"
  have t: "last (w_now (W 2) # map w_now ups) = ?t" by (simp add: last_map)
  have "running_with J 80 ?s2 (Some (n, True, last (w_now (W 2) # map w_now ups)))"
    by (rule ups [OF r1]) (use assms(4) in simp)
  then have r2: "running_with J 80 ?s2 (Some (n, True, ?t))" by (simp only: t)
  have n: "fst ` set_option (Some (n, True, ?t)) \<subseteq>
      {\<lparr>ni_ip = ip_to_string (sa_ip (dn_peer T)), ni_port = 9002, ni_labels = [''svc''], ni_extra = extra\<rparr>}"
    by (simp add: assms(5))
  obtain c3 s3 where 3: "call_query T (W 3) (\<lambda>_. True) [''svc''] c1 ?s2 = (Ok [n], c3, s3)"
    and r3: "running_with J 80 s3 (Some (n, True, ?t))"
    using query_up [where W = "W 3" and check = "\<lambda>_. True" and c = c1, OF r2 W assms(3) ls n ls(2,3)] assms(5) by auto
  have "\<forall>W \<in> set downs. world_up J W" using assms(4) by simp
  note d = downs [OF r3 this, unfolded simp_thms]
  have "expiry_setup T W ups downs extra = Done (c3, df_serve (map (\<lambda>W. DF_Tick W (\<lambda>_. False)) downs) s3)"
    using 1 3 by (simp add: expiry_setup_def Let_def del: One_nat_def)
  with d show ?thesis by blast
qed

lemma expiry_test_passes:
  assumes "net_up T" and "\<forall>i. world_up J (W i)" and "small_json J (ip_to_string (sa_ip (dn_peer T))) 9002 extra"
    and "\<forall>W \<in> set (ups @ downs). world_up J W" and "downs \<noteq> []"
  shows "expires_unhealthy_nodes T W ups downs extra = Done ()"
proof -
  let ?n = "\<lparr>ni_ip = ip_to_string (sa_ip (dn_peer T)), ni_port = 9002, ni_labels = [''svc''], ni_extra = extra\<rparr>"
  let ?nh = "if \<exists>D \<in> set downs. 80 \<le> w_now D - w_now (last (W 2 # ups)) then None
      else Some (?n, False, w_now (last (W 2 # ups)))"
  have W: "world_up J (W 4)" using assms(2) by blast
  have ls: "[''svc''] \<noteq> []" "length [''svc''] \<le> 2" "set [''svc''] \<subseteq> {''api'', ''v1'', ''svc''}" by simp_all
  have d: "(downs = []) = False" using assms(5) by simp
  obtain c s where 1: "expiry_setup T W ups downs extra = Done (c, s)" and r: "running_with J 80 s ?nh"
    using expiry_setup_passes [OF assms(1-4) refl] unfolding d by blast
  have n: "fst ` set_option ?nh \<subseteq> {?n}" by simp
  obtain c5 s5 where "call_query T (W 4) (\<lambda>_. True) [''svc''] c s = (Ok [], c5, s5)"
    using query_up [where W = "W 4" and check = "\<lambda>_. True" and c = c, OF r W assms(3) ls n ls(2,3)]
    by (auto split: if_splits)
  then show ?thesis by (simp add: expires_unhealthy_nodes_def 1 del: One_nat_def)
qed

lemma extra_test_passes:
  assumes "net_up T" and "\<forall>i. world_up J (W i)"
    and "small_json J (ip_to_string (sa_ip (dn_peer T))) 9003 \<lparr>region = ''cn'', weight = 10\<rparr>"
  shows "custom_extra_roundtrip T W = Done ()"
proof -
  let ?m = "\<lparr>region = ''cn'', weight = 10\<rparr>"
  let ?n = "\<lparr>ni_ip = ip_to_string (sa_ip (dn_peer T)), ni_port = 9003, ni_labels = [''api''], ni_extra = ?m\<rparr>"
  have W: "world_up J (W i)" for i using assms(2) by blast
  have ls: "[''api''] \<noteq> []" "length [''api''] \<le> 2" "set [''api''] \<subseteq> {''api'', ''v1'', ''svc''}" by simp_all
  obtain s c1 s1 where 1: "start_server T (W 0) 60000 3600000 [DF_Tick (W 1) (\<lambda>n. weight (ni_extra n) > 0)] = Done s"
    "call_register T (W 2) 9003 [''api''] ?m client_new s = (Done (), c1, s1)"
    and r1: "running_with J 3600000 s1 (Some (?n, True, w_now (W 2)))"
    using begin_up [where interval = 60000 and ttl = 3600000 and probe = "\<lambda>n. weight (ni_extra n) > 0" and port = 9003, OF assms _ ls] by auto
  have n: "fst ` set_option (Some (?n, True, w_now (W 2))) \<subseteq> {?n}" by simp
  obtain c2 s2 where 2: "call_query T (W 3) (\<lambda>n. region (ni_extra n) = ''cn'') [''api''] c1 s1 = (Ok [?n], c2, s2)"
    using query_up [where W = "W 3" and check = "\<lambda>n. region (ni_extra n) = ''cn''" and c = c1, OF r1 W assms(3) ls n ls(2,3)] by auto
  show ?thesis by (simp add: custom_extra_roundtrip_def 1 2 Let_def del: One_nat_def)
qed

section \<open>Properties\<close>

text \<open>
  C36: The tests of the registry pass in the model, with a working SQLite and network. The
  first: a node is found under its label, with its port and labels, a client that accepts no
  node is told of none, and a query without labels is refused. The second, in which time
  passes: a node that answered its probes is found, and after any number of probes it did not
  answer, at least one, it is not found any more; and, what the test cannot see, it is then
  removed from the registry if one of these probes came 80 ms or more after its last success
  (the last answered probe or its registration), and still there, unhealthy, if none did.
\<close>

theorem registry_tests_pass:
  assumes "net_up T" and "\<forall>i. world_up J (W i)"
    and "\<forall>port \<in> {9001, 9002}. small_json J (ip_to_string (sa_ip (dn_peer T))) port extra"
    and "\<forall>W \<in> set (ups @ downs). world_up J W" and "downs \<noteq> []"
    and "n = \<lparr>ni_ip = ip_to_string (sa_ip (dn_peer T)), ni_port = 9002, ni_labels = [''svc''], ni_extra = extra\<rparr>"
  shows "register_and_query_with_label_and_local_filter T W extra = Done () \<and>
    expires_unhealthy_nodes T W ups downs extra = Done () \<and>
    (\<exists>client s. expiry_setup T W ups downs extra = Done (client, s) \<and>
       store_abs J (in_store (dr_inner s)) =
         (if \<exists>D \<in> set downs. 80 \<le> w_now D - w_now (last (W 2 # ups)) then Map.empty else [ni_ip n \<mapsto> n]))"
proof (intro conjI)
  show "register_and_query_with_label_and_local_filter T W extra = Done ()"
    using label_test_passes [OF assms(1,2)] assms(3) by simp
  show "expires_unhealthy_nodes T W ups downs extra = Done ()"
    using expiry_test_passes [OF assms(1,2) _ assms(4,5)] assms(3) by simp
  have "small_json J (ip_to_string (sa_ip (dn_peer T))) 9002 extra" using assms(3) by simp
  from expiry_setup_passes [OF assms(1,2) this assms(4,6)] obtain client s where
    1: "expiry_setup T W ups downs extra = Done (client, s)" and
    r: "running_with J 80 s (if \<exists>D \<in> set downs. 80 \<le> w_now D - w_now (last (W 2 # ups)) then None
      else Some (n, downs = [], w_now (last (W 2 # ups))))" by blast
  have "store_abs J (in_store (dr_inner s)) =
      (if \<exists>D \<in> set downs. 80 \<le> w_now D - w_now (last (W 2 # ups)) then Map.empty else [ni_ip n \<mapsto> n])"
  proof (cases "\<exists>D \<in> set downs. 80 \<le> w_now D - w_now (last (W 2 # ups))")
    case True
    with r have "running_with J 80 s None" by (simp only: if_True)
    with True show ?thesis by (simp only: running_with_def option.case if_True)
  next
    case False
    with r have "running_with J 80 s (Some (n, downs = [], w_now (last (W 2 # ups))))" by (simp only: if_False)
    with False show ?thesis by (simp only: running_with_def option.case prod.case if_False)
  qed
  with 1 show "\<exists>client s. expiry_setup T W ups downs extra = Done (client, s) \<and>
      store_abs J (in_store (dr_inner s)) =
        (if \<exists>D \<in> set downs. 80 \<le> w_now D - w_now (last (W 2 # ups)) then Map.empty else [ni_ip n \<mapsto> n])"
    by blast
qed

definition sample_df_net :: "nat df_net" where
  "sample_df_net = \<lparr>dn_bind = (\<lambda>_. Inr 0), dn_local_addr = (\<lambda>_. Inr (local_port_0\<lparr>sa_port := 40000\<rparr>)),
     dn_peer = local_port_0\<lparr>sa_port := 40001\<rparr>, dn_rng = (\<lambda>_. 0)\<rparr>"

lemma sample_world_up: "world_up sample_json (sample_later now)"
  by (simp add: world_up_def) (simp add: sample_engine_def)

lemma length_put_labels:
  assumes "length ls \<le> 2" "set ls \<subseteq> {''api'', ''v1'', ''svc''}"
  shows "length (put_list put_str ls) \<le> 17"
proof -
  have "length (put_str l) \<le> 7" if "l \<in> set ls" for l
    using that assms(2) by (auto simp: put_str_def put_nat_def)
  then have "length (concat (map put_str ls)) \<le> 7 * length ls"
    by (induction ls) fastforce+
  then show ?thesis using assms(1) by (simp add: put_list_def put_nat_def)
qed

lemma sample_small_json:
  assumes "unat port \<le> 10000" "x \<le> 100"
  shows "small_json sample_json ''127.0.0.1'' port x"
proof -
  have node: "length (put_list put_node [\<lparr>ni_ip = ''127.0.0.1'', ni_port = port, ni_labels = ls, ni_extra = x\<rparr>]) \<le> 20000"
    if "length ls \<le> 2" "set ls \<subseteq> {''api'', ''v1'', ''svc''}" for ls
    using length_put_labels [OF that] assms
    by (simp add: put_list_def [of put_node] put_node_def put_nat_def put_str_def [of "''127.0.0.1''"])
  have none: "length (put_list put_node []) \<le> 20000" by (simp add: put_list_def put_nat_def)
  have reg: "length (put_nat (unat port) @ put_list put_str ls @ put_nat x) \<le> 20000"
    if "length ls \<le> 2" "set ls \<subseteq> {''api'', ''v1'', ''svc''}" for ls
    using length_put_labels [OF that] assms by (simp add: put_nat_def)
  have le: "n \<le> u16_MAX" if "n \<le> 20000" for n using that by (simp add: u16_MAX_def)
  have labels: "length (put_list put_str ls) \<le> 20000"
    if "length ls \<le> 2" "set ls \<subseteq> {''api'', ''v1'', ''svc''}" for ls
    using length_put_labels [OF that] by simp
  show ?thesis
    unfolding small_json_def sample_json_def
    using node reg none labels le by (simp add: to_vec_def)
qed

theorem registry_tests_pass_witness:
  "\<exists>client s. expiry_setup sample_df_net (\<lambda>i. sample_later (1000 + i)) [sample_later 1020]
     [sample_later 1050, sample_later 1100] 7 = Done (client, s) \<and>
     store_abs sample_json (in_store (dr_inner s)) = Map.empty"
proof -
  have a: "net_up sample_df_net" by (simp add: net_up_def sample_df_net_def)
  have ip: "ip_to_string (sa_ip (dn_peer sample_df_net)) = ''127.0.0.1''"
    by (simp add: sample_df_net_def local_port_0_def, code_simp)
  have b: "\<forall>i. world_up sample_json (sample_later (1000 + i))"
    "\<forall>port \<in> {9001, 9002}. small_json sample_json (ip_to_string (sa_ip (dn_peer sample_df_net))) port 7"
    "\<forall>W \<in> set ([sample_later 1020] @ [sample_later 1050, sample_later 1100]). world_up sample_json W"
    "[sample_later 1050, sample_later 1100] \<noteq> []"
    by (simp_all add: sample_world_up sample_small_json ip)
  from registry_tests_pass [OF a b refl] show ?thesis by simp
qed

end
