(* ===== verification/Prom_Protocol.thy ===== *)
theory Prom_Protocol
  imports Sample_Parsers
begin

text \<open>
  The messages of the Prometheus proxy, \<open>src/prom_proxy/protocol.rs\<close>. serde_json is the
  record \<open>pjson\<close> with its round-trip law \<open>pjson_ok\<close>; the Snappy encoder of the crate
  \<open>snap\<close> is a function argument.
\<close>

definition MSG_REMOTE_WRITE :: u8 where "MSG_REMOTE_WRITE = 10"
definition MSG_REMOTE_WRITE_ACK :: u8 where "MSG_REMOTE_WRITE_ACK = 11"
definition PROM_MSG_ERROR :: u8 where "PROM_MSG_ERROR = 12"

lemmas prom_msgs = MSG_REMOTE_WRITE_def MSG_REMOTE_WRITE_ACK_def PROM_MSG_ERROR_def

record remote_write_ack =
  ack_status :: u16

record prom_error_body =
  pe_message :: string

datatype prom_json_error = Prom_Json_Error string

record pjson =
  ack_to_vec :: "remote_write_ack \<Rightarrow> prom_json_error + bytes"
  ack_from_slice :: "bytes \<Rightarrow> prom_json_error + remote_write_ack"
  perr_to_vec :: "prom_error_body \<Rightarrow> prom_json_error + bytes"
  perr_from_slice :: "bytes \<Rightarrow> prom_json_error + prom_error_body"

definition pjson_ok :: "pjson \<Rightarrow> bool" where
  "pjson_ok J \<longleftrightarrow>
     (\<forall>x b. ack_to_vec J x = Inr b \<longrightarrow> ack_from_slice J b = Inr x) \<and>
     (\<forall>x b. perr_to_vec J x = Inr b \<longrightarrow> perr_from_slice J b = Inr x)"

lemma pjson_okD:
  assumes "pjson_ok J"
  shows "ack_to_vec J x = Inr b \<Longrightarrow> ack_from_slice J b = Inr x"
    and "perr_to_vec J y = Inr b \<Longrightarrow> perr_from_slice J b = Inr y"
  using assms unfolding pjson_ok_def by blast+

type_synonym snap = "bytes \<Rightarrow> string + bytes" \<comment> \<open>\<open>compress_vec\<close>; an error shown with Debug\<close>

definition prepare_remote_write_body :: "snap \<Rightarrow> bytes \<Rightarrow> ('e, bytes) res" where
  "prepare_remote_write_body compress_vec protobuf_write_request =
     (case compress_vec protobuf_write_request of
        Inl e \<Rightarrow> Panic (''snappy compress: '' @ e)
      | Inr b \<Rightarrow> Ok b)"

lemma prepare_Ok_iff [simp]:
  "prepare_remote_write_body c p = Ok b \<longleftrightarrow> c p = Inr b"
  by (auto simp: prepare_remote_write_body_def split: sum.splits)

lemma prepare_not_Err [simp]: "prepare_remote_write_body c p \<noteq> Err e"
  by (simp add: prepare_remote_write_body_def split: sum.splits)

section \<open>A sample serialisation\<close>

definition sample_pjson :: pjson where
  "sample_pjson =
     \<lparr>ack_to_vec = (\<lambda>a. Inr (to_be 2 (ack_status a))),
      ack_from_slice = (\<lambda>b. Inr \<lparr>ack_status = from_be b\<rparr>),
      perr_to_vec = (\<lambda>e. Inr (to_vec (pe_message e))),
      perr_from_slice = (\<lambda>b. Inr \<lparr>pe_message = of_vec b\<rparr>)\<rparr>"

lemma sample_pjson_ok [simp]: "pjson_ok sample_pjson"
  by (auto simp: pjson_ok_def sample_pjson_def)

end
