(* ===== verification/Prom_Encode.thy ===== *)
theory Prom_Encode
  imports Prom_Protocol
begin

text \<open>
  Metrics to remote-write requests, \<open>src/prom_proxy/encode.rs\<close>. The metric families are
  data of the crate \<open>prometheus\<close>, read through getters: the records have one field per
  getter the source calls. The encoder and decoder that \<open>prost\<close> derives are the record
  \<open>prost\<close>, with the round trip as its law. A \<open>f64\<close> is its IEEE bits; the shortest decimal
  that \<open>Display\<close> prints for one is the function \<open>f64_display\<close>, an argument.
\<close>

section \<open>Numbers\<close>

type_synonym f64 = "64 word"

text \<open>
  \<open>n as f64\<close> for a \<open>u64\<close>: round to nearest, ties to even. With \<open>e\<close> the position of the
  leading one, the significand has 53 bits; the implicit bit of \<open>q\<close> carries into the
  exponent field.
\<close>

fun log2 :: "nat \<Rightarrow> nat" where
  "log2 n = (if n < 2 then 0 else Suc (log2 (n div 2)))"

declare log2.simps [simp del]

definition round_div :: "nat \<Rightarrow> nat \<Rightarrow> nat" where
  "round_div n d =
     (let q = n div d; r = n mod d in
      if 2 * r > d \<or> (2 * r = d \<and> odd q) then q + 1 else q)"

definition u64_to_f64 :: "u64 \<Rightarrow> f64" where
  "u64_to_f64 w =
     (let n = unat w; e = log2 n in
      if n = 0 then 0
      else let q = (if e \<le> 52 then n * 2 ^ (52 - e) else round_div n (2 ^ (e - 52))) in
        of_nat ((e + 1022) * 2 ^ 52 + q))"

text \<open>Milliseconds since the epoch, from a clock in nanoseconds; 0 for a clock before it.\<close>

definition chrono_now_ms :: "int \<Rightarrow> i64" where
  "chrono_now_ms wall = (if wall < 0 then 0 else word_of_int (wall div 1000000))"

section \<open>Series\<close>

record label =
  l_name :: string
  l_value :: string

record sample =
  s_value :: f64
  s_timestamp_ms :: i64

record time_series =
  ts_labels :: "label list"
  ts_samples :: "sample list"

datatype prost_error = Prost_Error string

datatype encode_error = EncE_Prost prost_error | EncE_Msg string

record pb_label =
  pbl_name :: string
  pbl_value :: string

record pb_sample =
  pbs_value :: f64
  pbs_timestamp :: i64

record pb_time_series =
  pbt_labels :: "pb_label list"
  pbt_samples :: "pb_sample list"

record pb_write_request =
  pb_timeseries :: "pb_time_series list"

record prost =
  pb_encode :: "pb_write_request \<Rightarrow> prost_error + bytes"
  pb_decode :: "bytes \<Rightarrow> prost_error + pb_write_request"

definition prost_ok :: "prost \<Rightarrow> bool" where
  "prost_ok P \<longleftrightarrow> (\<forall>q b. pb_encode P q = Inr b \<longrightarrow> pb_decode P b = Inr q)"

definition pb_series :: "time_series \<Rightarrow> pb_time_series" where
  "pb_series ts =
     \<lparr>pbt_labels = map (\<lambda>l. \<lparr>pbl_name = l_name l, pbl_value = l_value l\<rparr>) (ts_labels ts),
      pbt_samples = map (\<lambda>s. \<lparr>pbs_value = s_value s, pbs_timestamp = s_timestamp_ms s\<rparr>) (ts_samples ts)\<rparr>"

definition encode_write_request :: "prost \<Rightarrow> time_series list \<Rightarrow> (encode_error, bytes) res" where
  "encode_write_request P series =
     (let req = \<lparr>pb_timeseries = map pb_series series\<rparr> in
      map_err EncE_Prost (of_sum (pb_encode P req)))"

section \<open>Metric families\<close>

record label_pair =
  lp_name :: string
  lp_value :: string

record bucket =
  b_upper_bound :: f64
  b_cumulative_count :: u64

record histogram =
  h_sample_sum :: f64
  h_sample_count :: u64
  h_bucket :: "bucket list"

record quantile =
  q_quantile :: f64
  q_value :: f64

record summary =
  sm_sample_sum :: f64
  sm_sample_count :: u64
  sm_quantile :: "quantile list"

datatype metric_type = COUNTER | GAUGE | SUMMARY | UNTYPED | HISTOGRAM

record metric =
  m_label :: "label_pair list"
  m_timestamp_ms :: i64
  m_counter_value :: f64
  m_gauge_value :: f64
  m_histogram :: histogram
  m_summary :: summary

record metric_family =
  mf_name :: string
  mf_field_type :: metric_type
  mf_metric :: "metric list"

definition labels_from_metric :: "string \<Rightarrow> metric \<Rightarrow> label list" where
  "labels_from_metric name m =
     \<lparr>l_name = ''__name__'', l_value = name\<rparr> #
     map (\<lambda>lp. \<lparr>l_name = lp_name lp, l_value = lp_value lp\<rparr>) (m_label m)"

text \<open>The first \<open>__name__\<close> label gets the name; without one it is put in front.\<close>

fun set_first_name :: "string \<Rightarrow> label list \<Rightarrow> label list option" where
  "set_first_name name [] = None"
| "set_first_name name (l # ls) =
     (if l_name l = ''__name__'' then Some (l\<lparr>l_value := name\<rparr> # ls)
      else (case set_first_name name ls of None \<Rightarrow> None | Some ls' \<Rightarrow> Some (l # ls')))"

definition with_name :: "label list \<Rightarrow> string \<Rightarrow> label list" where
  "with_name labels name =
     (case set_first_name name labels of
        Some out \<Rightarrow> out
      | None \<Rightarrow> \<lparr>l_name = ''__name__'', l_value = name\<rparr> # labels)"

definition ts_one :: "label list \<Rightarrow> f64 \<Rightarrow> i64 \<Rightarrow> time_series" where
  "ts_one labels value timestamp_ms =
     \<lparr>ts_labels = labels, ts_samples = [\<lparr>s_value = value, s_timestamp_ms = timestamp_ms\<rparr>]\<rparr>"

definition trim_end_matches :: "char \<Rightarrow> string \<Rightarrow> string" where
  "trim_end_matches c s = rev (dropWhile (\<lambda>x. x = c) (rev s))"

definition float_label :: "(f64 \<Rightarrow> string) \<Rightarrow> f64 \<Rightarrow> string" where
  "float_label f64_display v =
     (let s = f64_display v in
      if CHR ''.'' \<in> set s then trim_end_matches CHR ''.'' (trim_end_matches CHR ''0'' s)
      else s)"

text \<open>One metric: the series it pushes onto those collected so far.\<close>

definition push_metric ::
  "(f64 \<Rightarrow> string) \<Rightarrow> i64 \<Rightarrow> string \<Rightarrow> metric_type \<Rightarrow> metric \<Rightarrow> time_series list \<Rightarrow> time_series list" where
  "push_metric f64_display now name mtype m series =
     (let base = labels_from_metric name m;
          ts = (if m_timestamp_ms m \<noteq> 0 then m_timestamp_ms m else now) in
      case mtype of
        COUNTER \<Rightarrow> series @ [ts_one base (m_counter_value m) ts]
      | GAUGE \<Rightarrow> series @ [ts_one base (m_gauge_value m) ts]
      | HISTOGRAM \<Rightarrow>
          let h = m_histogram m;
              series = series @ [ts_one (with_name base (name @ ''_sum'')) (h_sample_sum h) ts];
              series = series @ [ts_one (with_name base (name @ ''_count''))
                                   (u64_to_f64 (h_sample_count h)) ts];
              series = fold (\<lambda>b series.
                let lbs = with_name base (name @ ''_bucket'') @
                      [\<lparr>l_name = ''le'', l_value = float_label f64_display (b_upper_bound b)\<rparr>] in
                series @ [ts_one lbs (u64_to_f64 (b_cumulative_count b)) ts]) (h_bucket h) series;
              inf = with_name base (name @ ''_bucket'') @ [\<lparr>l_name = ''le'', l_value = ''+Inf''\<rparr>] in
          series @ [ts_one inf (u64_to_f64 (h_sample_count h)) ts]
      | SUMMARY \<Rightarrow>
          let s = m_summary m;
              series = series @ [ts_one (with_name base (name @ ''_sum'')) (sm_sample_sum s) ts];
              series = series @ [ts_one (with_name base (name @ ''_count''))
                                   (u64_to_f64 (sm_sample_count s)) ts] in
          fold (\<lambda>q series.
            let lbs = with_name base name @
                  [\<lparr>l_name = ''quantile'', l_value = float_label f64_display (q_quantile q)\<rparr>] in
            series @ [ts_one lbs (q_value q) ts]) (sm_quantile s) series
      | _ \<Rightarrow> series)"

definition encode_metric_families ::
  "prost \<Rightarrow> (f64 \<Rightarrow> string) \<Rightarrow> int \<Rightarrow> metric_family list \<Rightarrow> (encode_error, bytes) res" where
  "encode_metric_families P f64_display wall mfs =
     (let now = chrono_now_ms wall;
          series = fold (\<lambda>mf series.
            let name = mf_name mf; mtype = mf_field_type mf in
            fold (push_metric f64_display now name mtype) (mf_metric mf) series) mfs [] in
      encode_write_request P series)"

section \<open>Conversion of counts\<close>

lemma log2_bounds: "0 < n \<Longrightarrow> 2 ^ log2 n \<le> n \<and> n < 2 ^ (log2 n + 1)"
proof (induction n rule: log2.induct)
  case (1 n)
  show ?case
  proof (cases "n < 2")
    case True
    with 1 show ?thesis by (simp add: log2.simps)
  next
    case False
    with 1 have "2 ^ log2 (n div 2) \<le> n div 2 \<and> n div 2 < 2 ^ (log2 (n div 2) + 1)" by simp
    with False show ?thesis by (subst (1 2) log2.simps) auto
  qed
qed

lemma log2_less: "0 < n \<Longrightarrow> n < 2 ^ k \<Longrightarrow> log2 n < k"
  using log2_bounds [of n] by (meson le_less_trans power_less_imp_less_exp one_less_numeral_iff semiring_norm(76))

lemma log2_ge: "2 ^ k \<le> n \<Longrightarrow> k \<le> log2 n"
proof -
  assume k: "2 ^ k \<le> n"
  then have "0 < n" by (metis le_zero_eq neq0_conv power_not_zero zero_neq_numeral)
  then have "n < 2 ^ (log2 n + 1)" using log2_bounds by blast
  with k have "(2::nat) ^ k < 2 ^ (log2 n + 1)" by linarith
  then have "k < log2 n + 1" by (rule power_less_imp_less_exp [rotated]) simp
  then show ?thesis by simp
qed

lemma round_div_bound:
  assumes "0 < d"
  shows "2 * (round_div n d * d) \<le> 2 * n + d" "2 * n \<le> 2 * (round_div n d * d) + d"
    "n div d \<le> round_div n d" "round_div n d \<le> n div d + 1"
proof -
  define a r where ar: "a = n div d" "r = n mod d"
  have n: "n = a * d + r" by (simp add: ar)
  have r: "r < d" using assms by (simp add: ar)
  have rd: "round_div n d = (if 2 * r > d \<or> (2 * r = d \<and> odd a) then a + 1 else a)"
    by (simp add: round_div_def ar Let_def)
  show "2 * (round_div n d * d) \<le> 2 * n + d" "2 * n \<le> 2 * (round_div n d * d) + d"
    unfolding rd using n r by (auto simp: algebra_simps)
  show "n div d \<le> round_div n d" "round_div n d \<le> n div d + 1"
    unfolding rd by (simp_all add: ar)
qed

lemma round_div_exact: "0 < d \<Longrightarrow> d dvd n \<Longrightarrow> round_div n d * d = n"
  by (auto simp: round_div_def Let_def)

text \<open>The number a non-negative \<open>f64\<close> stands for, rounded down to an integer.\<close>

definition f64_nat :: "f64 \<Rightarrow> nat" where
  "f64_nat b =
     (let n = unat b; ex = n div 2 ^ 52; m = 2 ^ 52 + n mod 2 ^ 52 in
      if n = 0 then 0
      else if ex \<ge> 1075 then m * 2 ^ (ex - 1075) else m div 2 ^ (1075 - ex))"

lemma unat_of_nat_u64: "n < 2 ^ 64 \<Longrightarrow> unat (of_nat n :: u64) = n"
  by (simp add: unat_of_nat take_bit_nat_eq_self)

lemma f64_nat_bits:
  assumes "e \<le> 63" "2 ^ 52 \<le> q" "q \<le> 2 ^ 53"
  shows "f64_nat (of_nat ((e + 1022) * 2 ^ 52 + q)) =
    (if 52 \<le> e then q * 2 ^ (e - 52) else q div 2 ^ (52 - e))"
proof -
  let ?n = "(e + 1022) * 2 ^ 52 + q"
  have "(e + 1022) * 2 ^ 52 \<le> 1085 * 2 ^ 52" using assms(1) by (intro mult_right_mono) simp_all
  then have lt: "?n < 2 ^ 64" using assms(3) by simp
  note u = unat_of_nat_u64 [OF lt]
  have val: "f64_nat (of_nat ?n) =
      (if ?n div 2 ^ 52 \<ge> 1075 then (2 ^ 52 + ?n mod 2 ^ 52) * 2 ^ (?n div 2 ^ 52 - 1075)
       else (2 ^ 52 + ?n mod 2 ^ 52) div 2 ^ (1075 - ?n div 2 ^ 52))"
    unfolding f64_nat_def Let_def u using assms(2) by simp
  show ?thesis
  proof (cases "q = 2 ^ 53")
    case False
    obtain m where m: "q = 2 ^ 52 + m" using assms(2) le_Suc_ex by blast
    with False assms(3) have lm: "m < 2 ^ 52" by simp
    have n: "?n = m + (e + 1023) * 2 ^ 52" by (simp add: m algebra_simps)
    have "?n div 2 ^ 52 = e + 1023"
      unfolding n div_mult_self1 [OF power_not_zero [OF zero_neq_numeral [symmetric]]]
      using lm by (simp only: div_less add_0)
    moreover have "?n mod 2 ^ 52 = m" unfolding n mod_mult_self1 using lm by (simp only: mod_less)
    ultimately show ?thesis unfolding val by (auto simp: m)
  next
    case True
    have n: "?n = 0 + (e + 1024) * 2 ^ 52" by (simp add: True algebra_simps)
    have d: "?n div 2 ^ 52 = e + 1024"
      unfolding n div_mult_self1 [OF power_not_zero [OF zero_neq_numeral [symmetric]]] by simp
    have m: "?n mod 2 ^ 52 = 0" unfolding n mod_mult_self1 by simp
    show ?thesis
    proof (cases "52 \<le> e")
      case c: True
      then obtain k where "e = 52 + k" using le_Suc_ex by blast
      then show ?thesis unfolding val d m by (simp add: True)
    next
      case c: False
      then have "(2::nat) ^ (52 - e) * 2 ^ (e + 1) = 2 ^ 53" by (simp flip: power_add)
      moreover have "(2::nat) ^ (1075 - (e + 1024)) * 2 ^ (e + 1) = 2 ^ 52"
        using c by (simp flip: power_add)
      ultimately have "(2::nat) ^ 53 div 2 ^ (52 - e) = 2 ^ (e + 1)" "(2::nat) ^ 52 div 2 ^ (1075 - (e + 1024)) = 2 ^ (e + 1)"
        by (metis nonzero_mult_div_cancel_left power_not_zero zero_neq_numeral)+
      then show ?thesis unfolding val d m using c by (cases "e = 51") (simp_all add: True)
    qed
  qed
qed

lemma f64_nat_u64_to_f64:
  fixes w :: u64
  defines "n \<equiv> unat w" and "e \<equiv> log2 (unat w)"
  assumes "0 < unat w"
  shows "f64_nat (u64_to_f64 w) = (if e \<le> 52 then n else round_div n (2 ^ (e - 52)) * 2 ^ (e - 52))"
proof -
  have b: "2 ^ e \<le> n" "n < 2 ^ (e + 1)" using log2_bounds [OF assms(3)] by (simp_all add: n_def e_def)
  have "n < 2 ^ 64" using unsigned_less [of w] by (simp add: n_def)
  then have e63: "e \<le> 63" using log2_less [OF assms(3), of 64] by (simp add: n_def e_def)
  let ?q = "if e \<le> 52 then n * 2 ^ (52 - e) else round_div n (2 ^ (e - 52))"
  have u: "u64_to_f64 w = of_nat ((e + 1022) * 2 ^ 52 + ?q)"
    using assms(3) by (simp add: u64_to_f64_def Let_def n_def e_def)
  have q: "2 ^ 52 \<le> ?q \<and> ?q \<le> 2 ^ 53"
  proof (cases "e \<le> 52")
    case True
    then have p: "(2::nat) ^ e * 2 ^ (52 - e) = 2 ^ 52" "(2::nat) ^ (e + 1) * 2 ^ (52 - e) = 2 ^ 53"
      by (simp_all flip: power_add)
    show ?thesis
      using True mult_le_mono1 [OF b(1), of "2 ^ (52 - e)", unfolded p]
        mult_le_mono1 [OF less_imp_le [OF b(2)], of "2 ^ (52 - e)", unfolded p] by simp
  next
    case False
    then have "52 + (e - 52) = e" "53 + (e - 52) = e + 1" by simp_all
    then have p: "(2::nat) ^ 52 * 2 ^ (e - 52) = 2 ^ e" "(2::nat) ^ 53 * 2 ^ (e - 52) = 2 ^ (e + 1)"
      by (simp_all only: power_add [symmetric])
    have "2 ^ 52 \<le> n div 2 ^ (e - 52)"
      using less_eq_div_iff_mult_less_eq [of "2 ^ (e - 52)" "2 ^ 52" n] p(1) b(1) by simp
    moreover have "n div 2 ^ (e - 52) < 2 ^ 53"
      using div_less_iff_less_mult [of "2 ^ (e - 52)" n "2 ^ 53"] p(2) b(2) by simp
    ultimately show ?thesis
      using False round_div_bound(3,4) [of "2 ^ (e - 52)" n] by simp
  qed
  show ?thesis
  proof (cases "e \<le> 52")
    case True
    then show ?thesis
      unfolding u f64_nat_bits [OF e63 q [THEN conjunct1] q [THEN conjunct2]]
      by (cases "e = 52") simp_all
  next
    case False
    then show ?thesis
      unfolding u f64_nat_bits [OF e63 q [THEN conjunct1] q [THEN conjunct2]] by simp
  qed
qed

text \<open>Rounding keeps the order of counts.\<close>

lemma round_div_mono:
  assumes "0 < d" "n \<le> m"
  shows "round_div n d \<le> round_div m d"
proof (cases "n div d = m div d")
  case True
  have "n mod d \<le> m mod d"
    using assms(2) True by (metis add_le_cancel_left mult_div_mod_eq)
  then show ?thesis by (auto simp: round_div_def Let_def True)
next
  case False
  with div_le_mono [OF assms(2), of d] have "n div d + 1 \<le> m div d" by simp
  with round_div_bound(4) [OF assms(1), of n] round_div_bound(3) [OF assms(1), of m] show ?thesis by simp
qed

lemma f64_nat_range:
  assumes "0 < unat w"
  shows "2 ^ log2 (unat w) \<le> f64_nat (u64_to_f64 w) \<and> f64_nat (u64_to_f64 w) \<le> 2 ^ (log2 (unat w) + 1)"
proof (cases "log2 (unat w) \<le> 52")
  case True
  then show ?thesis using f64_nat_u64_to_f64 [OF assms] log2_bounds [OF assms] by simp
next
  case False
  let ?e = "log2 (unat w)"
  have "52 + (?e - 52) = ?e" "53 + (?e - 52) = ?e + 1" using False by simp_all
  then have p: "(2::nat) ^ 52 * 2 ^ (?e - 52) = 2 ^ ?e" "(2::nat) ^ 53 * 2 ^ (?e - 52) = 2 ^ (?e + 1)"
    by (simp_all only: power_add [symmetric])
  have exact: "round_div (k * 2 ^ (?e - 52)) (2 ^ (?e - 52)) * 2 ^ (?e - 52) = k * 2 ^ (?e - 52)" for k :: nat
    by (rule round_div_exact) simp_all
  have "round_div (2 ^ ?e) (2 ^ (?e - 52)) \<le> round_div (unat w) (2 ^ (?e - 52))"
    "round_div (unat w) (2 ^ (?e - 52)) \<le> round_div (2 ^ (?e + 1)) (2 ^ (?e - 52))"
    using log2_bounds [OF assms] by (simp_all add: round_div_mono)
  then have "2 ^ ?e \<le> round_div (unat w) (2 ^ (?e - 52)) * 2 ^ (?e - 52)"
    "round_div (unat w) (2 ^ (?e - 52)) * 2 ^ (?e - 52) \<le> 2 ^ (?e + 1)"
    using exact [of "2 ^ 52"] exact [of "2 ^ 53"] unfolding p by (metis mult_le_mono1)+
  with f64_nat_u64_to_f64 [OF assms] False show ?thesis by simp
qed

lemma u64_to_f64_mono:
  assumes "v \<le> w"
  shows "f64_nat (u64_to_f64 v) \<le> f64_nat (u64_to_f64 w)"
proof (cases "unat v = 0")
  case True
  then show ?thesis by (simp add: u64_to_f64_def f64_nat_def)
next
  case False
  have vw: "unat v \<le> unat w" using assms by (simp add: word_le_nat_alt)
  with False have pos: "0 < unat v" "0 < unat w" by simp_all
  have "2 ^ log2 (unat v) \<le> unat w" using log2_bounds [OF pos(1)] vw by simp
  from log2_ge [OF this] consider "log2 (unat v) = log2 (unat w)" | "log2 (unat v) + 1 \<le> log2 (unat w)" by linarith
  then show ?thesis
  proof cases
    case 1
    then show ?thesis
      using vw f64_nat_u64_to_f64 [OF pos(1)] f64_nat_u64_to_f64 [OF pos(2)] by (simp add: round_div_mono)
  next
    case 2
    then have "(2::nat) ^ (log2 (unat v) + 1) \<le> 2 ^ log2 (unat w)" by (rule power_increasing) simp
    with f64_nat_range [OF pos(1)] f64_nat_range [OF pos(2)] show ?thesis by linarith
  qed
qed

text \<open>
  Counts are converted to floating point exactly up to 2^53, and beyond that to a
  multiple of the spacing of doubles at most half a spacing away: the nearest double.
\<close>

theorem u64_to_f64_nearest:
  "(unat w \<le> 2 ^ 53 \<longrightarrow> f64_nat (u64_to_f64 w) = unat w) \<and>
   (2 ^ 53 \<le> unat w \<longrightarrow>
      2 ^ (log2 (unat w) - 52) dvd f64_nat (u64_to_f64 w) \<and>
      2 * f64_nat (u64_to_f64 w) \<le> 2 * unat w + 2 ^ (log2 (unat w) - 52) \<and>
      2 * unat w \<le> 2 * f64_nat (u64_to_f64 w) + 2 ^ (log2 (unat w) - 52))"
proof (cases "unat w = 0")
  case True
  then show ?thesis by (simp add: u64_to_f64_def f64_nat_def)
next
  case False
  then have pos: "0 < unat w" by simp
  note v = f64_nat_u64_to_f64 [OF pos]
  show ?thesis
  proof (intro conjI impI)
    assume "unat w \<le> 2 ^ 53"
    show "f64_nat (u64_to_f64 w) = unat w"
    proof (cases "unat w = 2 ^ 53")
      case True
      have "log2 (2 ^ 53) = 53" using log2_less [of "2 ^ 53" 54] log2_ge [of 53 "2 ^ 53"] by simp
      then show ?thesis unfolding v True by (simp add: round_div_exact)
    next
      case False
      with \<open>unat w \<le> 2 ^ 53\<close> have "log2 (unat w) < 53" by (intro log2_less [OF pos]) simp
      then show ?thesis unfolding v by simp
    qed
  next
    assume "2 ^ 53 \<le> unat w"
    then have "\<not> log2 (unat w) \<le> 52" using log2_ge [of 53 "unat w"] by simp
    then have e: "f64_nat (u64_to_f64 w) = round_div (unat w) (2 ^ (log2 (unat w) - 52)) * 2 ^ (log2 (unat w) - 52)"
      unfolding v by simp
    note bounds = round_div_bound(1,2) [of "2 ^ (log2 (unat w) - 52)" "unat w", simplified]
    show "2 ^ (log2 (unat w) - 52) dvd f64_nat (u64_to_f64 w)" unfolding e by simp
    show "2 * f64_nat (u64_to_f64 w) \<le> 2 * unat w + 2 ^ (log2 (unat w) - 52)"
      "2 * unat w \<le> 2 * f64_nat (u64_to_f64 w) + 2 ^ (log2 (unat w) - 52)"
      unfolding e using bounds by (simp_all add: mult.commute)
  qed
qed

theorem u64_to_f64_nearest_witness:
  "f64_nat (u64_to_f64 1000) = 1000 \<and> 4 dvd f64_nat (u64_to_f64 (2 ^ 54 + 2))"
proof -
  have "unat (2 ^ 54 + 2 :: u64) = 2 ^ 54 + 2" by simp
  moreover have "log2 (2 ^ 54 + 2) = 54"
    using log2_less [of "2 ^ 54 + 2" 55] log2_ge [of 54 "2 ^ 54 + 2"] by simp
  ultimately have "4 dvd f64_nat (u64_to_f64 (2 ^ 54 + 2))"
    using u64_to_f64_nearest [of "2 ^ 54 + 2"] by simp
  then show ?thesis using u64_to_f64_nearest [of 1000] by simp
qed

section \<open>Series of a metric\<close>

text \<open>
  The same series without accumulators, for the four types the code has a branch for: every
  one has one sample and the labels \<open>__name__\<close>, those of the metric, and at most one more.
  The code skips the fifth type, Untyped.
\<close>

definition series_of :: "metric \<Rightarrow> i64 \<Rightarrow> string \<Rightarrow> label list \<Rightarrow> f64 \<Rightarrow> time_series" where
  "series_of m now name extra v =
     \<lparr>ts_labels = \<lparr>l_name = ''__name__'', l_value = name\<rparr> #
        map (\<lambda>lp. \<lparr>l_name = lp_name lp, l_value = lp_value lp\<rparr>) (m_label m) @ extra,
      ts_samples = [\<lparr>s_value = v,
        s_timestamp_ms = (if m_timestamp_ms m \<noteq> 0 then m_timestamp_ms m else now)\<rparr>]\<rparr>"

definition le_label :: "string \<Rightarrow> label list" where
  "le_label v = [\<lparr>l_name = ''le'', l_value = v\<rparr>]"

fun metric_series :: "(f64 \<Rightarrow> string) \<Rightarrow> i64 \<Rightarrow> string \<Rightarrow> metric_type \<Rightarrow> metric \<Rightarrow> time_series list" where
  "metric_series fmt now name COUNTER m = [series_of m now name [] (m_counter_value m)]"
| "metric_series fmt now name GAUGE m = [series_of m now name [] (m_gauge_value m)]"
| "metric_series fmt now name HISTOGRAM m =
     (let h = m_histogram m; count = u64_to_f64 (h_sample_count h) in
      [series_of m now (name @ ''_sum'') [] (h_sample_sum h),
       series_of m now (name @ ''_count'') [] count] @
      map (\<lambda>b. series_of m now (name @ ''_bucket'') (le_label (float_label fmt (b_upper_bound b)))
                (u64_to_f64 (b_cumulative_count b))) (h_bucket h) @
      [series_of m now (name @ ''_bucket'') (le_label ''+Inf'') count])"
| "metric_series fmt now name SUMMARY m =
     (let s = m_summary m in
      [series_of m now (name @ ''_sum'') [] (sm_sample_sum s),
       series_of m now (name @ ''_count'') [] (u64_to_f64 (sm_sample_count s))] @
      map (\<lambda>q. series_of m now name
                [\<lparr>l_name = ''quantile'', l_value = float_label fmt (q_quantile q)\<rparr>] (q_value q))
        (sm_quantile s))"

definition typed :: "metric_family \<Rightarrow> bool" where
  "typed mf \<longleftrightarrow> mf_field_type mf \<noteq> UNTYPED"

definition family_series :: "(f64 \<Rightarrow> string) \<Rightarrow> i64 \<Rightarrow> metric_family \<Rightarrow> time_series list" where
  "family_series fmt now mf =
     concat (map (metric_series fmt now (mf_name mf) (mf_field_type mf)) (mf_metric mf))"

lemma with_name_Cons [simp]:
  "with_name (\<lparr>l_name = ''__name__'', l_value = v\<rparr> # ls) name = \<lparr>l_name = ''__name__'', l_value = name\<rparr> # ls"
  by (simp add: with_name_def)

lemma fold_snoc: "fold (\<lambda>x acc. acc @ [f x]) xs acc = acc @ map f xs"
  by (induction xs arbitrary: acc) auto

lemma fold_append: "(\<And>x acc. g x acc = acc @ f x) \<Longrightarrow> fold g xs acc = acc @ concat (map f xs)"
  by (induction xs arbitrary: acc) auto

lemma push_metric_eq:
  "push_metric fmt now name mtype m series =
     (if mtype = UNTYPED then series else series @ metric_series fmt now name mtype m)"
  by (cases mtype)
     (simp_all add: push_metric_def Let_def fold_snoc series_of_def ts_one_def
        le_label_def labels_from_metric_def)

lemma push_family_eq:
  "fold (push_metric fmt now (mf_name mf) (mf_field_type mf)) (mf_metric mf) series =
     series @ (if typed mf then family_series fmt now mf else [])"
proof (cases "typed mf")
  case True
  then have "push_metric fmt now (mf_name mf) (mf_field_type mf) m series =
      series @ metric_series fmt now (mf_name mf) (mf_field_type mf) m" for m series
    by (simp add: push_metric_eq typed_def)
  from fold_append [OF this] True show ?thesis by (simp add: family_series_def)
next
  case False
  then have "fold (push_metric fmt now (mf_name mf) (mf_field_type mf)) ms series = series" for ms
    by (induction ms) (simp_all add: push_metric_eq typed_def)
  with False show ?thesis by simp
qed

lemma encode_metric_families_eq:
  "encode_metric_families P fmt wall mfs =
     encode_write_request P (concat (map (family_series fmt (chrono_now_ms wall)) (filter typed mfs)))"
proof -
  have "fold (\<lambda>mf series. fold (push_metric fmt now (mf_name mf) (mf_field_type mf)) (mf_metric mf) series) mfs acc =
      acc @ concat (map (family_series fmt now) (filter typed mfs))" for now acc
    by (induction mfs arbitrary: acc) (simp_all add: push_family_eq)
  then show ?thesis by (simp add: encode_metric_families_def Let_def)
qed

lemma encode_write_request_Ok:
  "prost_ok P \<Longrightarrow> encode_write_request P series = Ok b \<Longrightarrow>
     pb_decode P b = Inr \<lparr>pb_timeseries = map pb_series series\<rparr>"
  by (auto simp: encode_write_request_def prost_ok_def)

section \<open>A sample encoder and family\<close>

definition put_pb_series :: "pb_time_series \<Rightarrow> string" where
  "put_pb_series ts =
     put_list (\<lambda>l. put_str (pbl_name l) @ put_str (pbl_value l)) (pbt_labels ts) @
     put_list (\<lambda>s. put_nat (unat (pbs_value s)) @ put_nat (unat (pbs_timestamp s))) (pbt_samples ts)"

definition get_pb_label :: "string \<Rightarrow> (pb_label \<times> string) option" where
  "get_pb_label s = (case get_str s of None \<Rightarrow> None | Some (n, s) \<Rightarrow>
     (case get_str s of None \<Rightarrow> None | Some (v, s) \<Rightarrow> Some (\<lparr>pbl_name = n, pbl_value = v\<rparr>, s)))"

definition get_pb_sample :: "string \<Rightarrow> (pb_sample \<times> string) option" where
  "get_pb_sample s = (case get_nat s of None \<Rightarrow> None | Some (v, s) \<Rightarrow>
     (case get_nat s of None \<Rightarrow> None | Some (t, s) \<Rightarrow>
        Some (\<lparr>pbs_value = of_nat v, pbs_timestamp = of_nat t\<rparr>, s)))"

definition get_pb_series :: "string \<Rightarrow> (pb_time_series \<times> string) option" where
  "get_pb_series s = (case get_list get_pb_label s of None \<Rightarrow> None | Some (ls, s) \<Rightarrow>
     (case get_list get_pb_sample s of None \<Rightarrow> None | Some (xs, s) \<Rightarrow>
        Some (\<lparr>pbt_labels = ls, pbt_samples = xs\<rparr>, s)))"

lemma get_put_pb_series: "get_pb_series (put_pb_series ts @ rest) = Some (ts, rest)"
proof -
  have "get_list get_pb_label (put_list (\<lambda>l. put_str (pbl_name l) @ put_str (pbl_value l)) ls @ r) = Some (ls, r)"
    for ls r by (rule get_put_list) (simp add: get_pb_label_def)
  moreover have "get_list get_pb_sample (put_list (\<lambda>s. put_nat (unat (pbs_value s)) @
      put_nat (unat (pbs_timestamp s))) xs @ r) = Some (xs, r)"
    for xs r by (rule get_put_list) (simp add: get_pb_sample_def)
  ultimately show ?thesis by (simp add: get_pb_series_def put_pb_series_def)
qed

definition sample_prost :: prost where
  "sample_prost =
     \<lparr>pb_encode = (\<lambda>q. Inr (to_vec (put_list put_pb_series (pb_timeseries q)))),
      pb_decode = (\<lambda>b. case read_all (Prost_Error ''decode'') (get_list get_pb_series) (of_vec b) of
         Inl e \<Rightarrow> Inl e | Inr ts \<Rightarrow> Inr \<lparr>pb_timeseries = ts\<rparr>)\<rparr>"

lemma sample_prost_ok: "prost_ok sample_prost"
proof -
  have "read_all e (get_list get_pb_series) (put_list put_pb_series ts) = Inr ts" for e :: prost_error and ts
    by (rule read_all_put, rule get_put_list) (rule get_put_pb_series)
  then show ?thesis by (auto simp: prost_ok_def sample_prost_def)
qed

text \<open>A histogram with one bucket of two observations.\<close>

definition sample_family :: metric_family where
  "sample_family =
     \<lparr>mf_name = ''d'', mf_field_type = HISTOGRAM,
      mf_metric = [\<lparr>m_label = [\<lparr>lp_name = ''job'', lp_value = ''x''\<rparr>], m_timestamp_ms = 9,
        m_counter_value = 0, m_gauge_value = 0,
        m_histogram = \<lparr>h_sample_sum = 0, h_sample_count = 2,
          h_bucket = [\<lparr>b_upper_bound = 0, b_cumulative_count = 2\<rparr>]\<rparr>,
        m_summary = \<lparr>sm_sample_sum = 0, sm_sample_count = 0, sm_quantile = []\<rparr>\<rparr>]\<rparr>"

section \<open>Decoded requests\<close>

text \<open>The labels of a decoded series, and the number it carries.\<close>

definition pb_labels :: "metric \<Rightarrow> string \<Rightarrow> pb_label list \<Rightarrow> pb_label list" where
  "pb_labels m name extra =
     \<lparr>pbl_name = ''__name__'', pbl_value = name\<rparr> #
     map (\<lambda>lp. \<lparr>pbl_name = lp_name lp, pbl_value = lp_value lp\<rparr>) (m_label m) @ extra"

definition pb_number :: "pb_time_series \<Rightarrow> nat" where
  "pb_number ts = f64_nat (pbs_value (hd (pbt_samples ts)))"

lemma pb_series_of:
  "pb_series (series_of m now name extra v) =
     \<lparr>pbt_labels = pb_labels m name (map (\<lambda>l. \<lparr>pbl_name = l_name l, pbl_value = l_value l\<rparr>) extra),
      pbt_samples = [\<lparr>pbs_value = v,
        pbs_timestamp = (if m_timestamp_ms m \<noteq> 0 then m_timestamp_ms m else now)\<rparr>]\<rparr>"
  by (simp add: pb_series_def series_of_def pb_labels_def comp_def)

lemma families_decoded:
  assumes "prost_ok P" "encode_metric_families P fmt wall mfs = Ok b"
  shows "pb_decode P b =
    Inr \<lparr>pb_timeseries = map pb_series (concat (map (family_series fmt (chrono_now_ms wall)) (filter typed mfs)))\<rparr>"
  using assms by (intro encode_write_request_Ok) (simp_all add: encode_metric_families_eq)

lemma metric_decoded:
  assumes "prost_ok P" "encode_metric_families P fmt wall mfs = Ok b"
    and "mf \<in> set mfs" "typed mf" "m \<in> set (mf_metric mf)"
  shows "\<exists>pre post. pb_decode P b = Inr \<lparr>pb_timeseries =
    pre @ map pb_series (metric_series fmt (chrono_now_ms wall) (mf_name mf) (mf_field_type mf) m) @ post\<rparr>"
proof -
  have "mf \<in> set (filter typed mfs)" using assms(3,4) by simp
  then obtain fs fs' where f: "filter typed mfs = fs @ mf # fs'" by (meson split_list)
  obtain ms ms' where "mf_metric mf = ms @ m # ms'" using assms(5) by (meson split_list)
  with f families_decoded [OF assms(1,2)] show ?thesis
    by (intro exI) (simp add: family_series_def, rule append.assoc [symmetric])
qed

section \<open>Properties\<close>



text \<open>
  Families of type Untyped leave no trace in the request, although the documentation of
  the encoder lists the type as supported.
\<close>

theorem untyped_dropped:
  "encode_metric_families P fmt wall mfs =
     encode_metric_families P fmt wall (filter (\<lambda>mf. mf_field_type mf \<noteq> UNTYPED) mfs)"
  by (simp add: encode_metric_families_eq typed_def cong: filter_cong)

end
