(* ===== verification/Prom_Edge.thy ===== *)
theory Prom_Edge
  imports Prelude "HOL-Library.Multiset"
begin

text \<open>
  The edge counters, \<open>src/prom_proxy/edge.rs\<close>: the async and the blocking store over a
  Redis hash. Redis is the record \<open>redis\<close> over a database state \<open>'r\<close>, with the documented
  behaviour of HINCRBY, HGETALL and DEL as its laws \<open>redis_ok\<close>. The locale \<open>edge_counter\<close> is what
  a user of a store relies on; both stores are interpretations.
\<close>

section \<open>Redis\<close>

datatype redis_error = Redis_Error string

text \<open>
  \<open>rs_view\<close> is what the database holds: hash key, field, value. HINCRBY adds a signed 64-bit
  number, creating a missing field at 0, and refuses to overflow. HGETALL returns every field
  once, in any order, if all values are integers. DEL removes the hash with all its fields. A
  command that fails has changed nothing or, when only its reply was lost on the way back, has
  been carried out.
\<close>

record 'r redis =
  rs_open :: "string \<Rightarrow> redis_error option"
  rs_connect :: "'r \<Rightarrow> redis_error option"
  rs_hincr :: "string \<Rightarrow> string \<Rightarrow> i64 \<Rightarrow> 'r \<Rightarrow> (redis_error, i64) res \<times> 'r"
  rs_hgetall :: "string \<Rightarrow> 'r \<Rightarrow> (redis_error, (string \<times> i64) list) res"
  rs_del :: "string \<Rightarrow> 'r \<Rightarrow> (redis_error, unit) res \<times> 'r"
  rs_view :: "'r \<Rightarrow> string \<Rightarrow> string \<Rightarrow> i64 option"

definition old_value :: "i64 option \<Rightarrow> int" where
  "old_value v = (case v of None \<Rightarrow> 0 | Some w \<Rightarrow> sint w)"

definition redis_ok :: "'r redis \<Rightarrow> bool" where
  "redis_ok R \<longleftrightarrow>
     (\<forall>h f d r v r'. rs_hincr R h f d r = (Ok v, r') \<longrightarrow>
        sint v = old_value (rs_view R r h f) + sint d \<and>
        rs_view R r' = (rs_view R r)(h := (rs_view R r h)(f \<mapsto> v))) \<and>
     (\<forall>h f d r e r'. rs_hincr R h f d r = (Err e, r') \<longrightarrow> rs_view R r' = rs_view R r \<or>
        (\<exists>v. sint v = old_value (rs_view R r h f) + sint d \<and>
           rs_view R r' = (rs_view R r)(h := (rs_view R r h)(f \<mapsto> v)))) \<and>
     (\<forall>h f d r p. fst (rs_hincr R h f d r) \<noteq> Panic p) \<and>
     (\<forall>h r kvs. rs_hgetall R h r = Ok kvs \<longrightarrow>
        distinct (map fst kvs) \<and> (\<forall>k v. (k, v) \<in> set kvs \<longleftrightarrow> rs_view R r h k = Some v)) \<and>
     (\<forall>h r p. rs_hgetall R h r \<noteq> Panic p) \<and>
     (\<forall>h r u r'. rs_del R h r = (Ok u, r') \<longrightarrow> rs_view R r' = (rs_view R r)(h := Map.empty)) \<and>
     (\<forall>h r e r'. rs_del R h r = (Err e, r') \<longrightarrow>
        rs_view R r' = rs_view R r \<or> rs_view R r' = (rs_view R r)(h := Map.empty)) \<and>
     (\<forall>h r p. fst (rs_del R h r) \<noteq> Panic p)"

lemma redis_okD:
  assumes "redis_ok R"
  shows "rs_hincr R h f d r = (Ok v, r') \<Longrightarrow> sint v = old_value (rs_view R r h f) + sint d"
    and "rs_hincr R h f d r = (Ok v, r') \<Longrightarrow>
      rs_view R r' = (rs_view R r)(h := (rs_view R r h)(f \<mapsto> v))"
    and "rs_hincr R h f d r = (Err e, r') \<Longrightarrow> rs_view R r' = rs_view R r \<or>
      (\<exists>v. sint v = old_value (rs_view R r h f) + sint d \<and>
         rs_view R r' = (rs_view R r)(h := (rs_view R r h)(f \<mapsto> v)))"
    and "rs_hincr R h f d r \<noteq> (Panic p, r')" "rs_hgetall R h r \<noteq> Panic p"
    and "rs_hgetall R h r = Ok kvs \<Longrightarrow> distinct (map fst kvs)"
    and "rs_hgetall R h r = Ok kvs \<Longrightarrow> (k, x) \<in> set kvs \<longleftrightarrow> rs_view R r h k = Some x"
    and "rs_del R h r = (Ok u, r') \<Longrightarrow> rs_view R r' = (rs_view R r)(h := Map.empty)"
    and "rs_del R h r = (Err e, r') \<Longrightarrow>
      rs_view R r' = rs_view R r \<or> rs_view R r' = (rs_view R r)(h := Map.empty)"
    and "rs_del R h r \<noteq> (Panic p, r')"
  using assms unfolding redis_ok_def by (simp_all del: fun_upd_apply) (metis fst_conv)+

text \<open>A Redis whose replies are never lost: a failed increment has changed nothing.\<close>

definition replies_arrive :: "'r redis \<Rightarrow> bool" where
  "replies_arrive R \<longleftrightarrow> (\<forall>h f d r e r'. rs_hincr R h f d r = (Err e, r') \<longrightarrow> rs_view R r' = rs_view R r)"

section \<open>The stores\<close>

definition DEFAULT_EDGE_HASH_KEY :: string where
  "DEFAULT_EDGE_HASH_KEY = ''prom_proxy:edges''"

datatype edge_error = EdgeE_Redis redis_error

record edge_store =
  es_hash_key :: string

text \<open>The async store opens its connection once, when it is made.\<close>

definition edge_connect :: "'r redis \<Rightarrow> string \<Rightarrow> string \<Rightarrow> 'r \<Rightarrow> (edge_error, edge_store) res" where
  "edge_connect R redis_url hash_key r =
     (case rs_open R redis_url of
        Some e \<Rightarrow> Err (EdgeE_Redis e)
      | None \<Rightarrow> (case rs_connect R r of
          Some e \<Rightarrow> Err (EdgeE_Redis e)
        | None \<Rightarrow> Ok \<lparr>es_hash_key = hash_key\<rparr>))"

text \<open>\<open>delta as i64\<close> keeps the bits of the \<open>u64\<close>.\<close>

definition edge_incr :: "'r redis \<Rightarrow> edge_store \<Rightarrow> string \<Rightarrow> u64 \<Rightarrow> 'r \<Rightarrow> (edge_error, unit) res \<times> 'r" where
  "edge_incr R st key delta r =
     (if delta = 0 then (Ok (), r)
      else sbind (smap_err EdgeE_Redis (rs_hincr R (es_hash_key st) key delta r)) (\<lambda>_ r. (Ok (), r)))"

definition keep_total :: "string \<times> i64 \<Rightarrow> (string \<times> u64) option" where
  "keep_total kv = (case kv of (k, v) \<Rightarrow> if sint v \<ge> 0 then Some (k, v) else None)"

definition edge_totals :: "'r redis \<Rightarrow> edge_store \<Rightarrow> 'r \<Rightarrow> (edge_error, (string \<times> u64) list) res" where
  "edge_totals R st r =
     rbind (map_err EdgeE_Redis (rs_hgetall R (es_hash_key st) r)) (\<lambda>kvs.
     Ok (List.map_filter keep_total kvs))"

definition edge_clear :: "'r redis \<Rightarrow> edge_store \<Rightarrow> 'r \<Rightarrow> (edge_error, unit) res \<times> 'r" where
  "edge_clear R st r = sbind (smap_err EdgeE_Redis (rs_del R (es_hash_key st) r)) (\<lambda>_ r. (Ok (), r))"

text \<open>The blocking store only parses the URL; every call opens a connection.\<close>

definition edge_connect_blocking :: "'r redis \<Rightarrow> string \<Rightarrow> string \<Rightarrow> (edge_error, edge_store) res" where
  "edge_connect_blocking R redis_url hash_key =
     (case rs_open R redis_url of
        Some e \<Rightarrow> Err (EdgeE_Redis e)
      | None \<Rightarrow> Ok \<lparr>es_hash_key = hash_key\<rparr>)"

definition edge_incr_blocking ::
  "'r redis \<Rightarrow> edge_store \<Rightarrow> string \<Rightarrow> u64 \<Rightarrow> 'r \<Rightarrow> (edge_error, unit) res \<times> 'r" where
  "edge_incr_blocking R st key delta r =
     (if delta = 0 then (Ok (), r)
      else case rs_connect R r of
        Some e \<Rightarrow> (Err (EdgeE_Redis e), r)
      | None \<Rightarrow>
          sbind (smap_err EdgeE_Redis (rs_hincr R (es_hash_key st) key delta r)) (\<lambda>_ r. (Ok (), r)))"

definition edge_totals_blocking :: "'r redis \<Rightarrow> edge_store \<Rightarrow> 'r \<Rightarrow> (edge_error, (string \<times> u64) list) res" where
  "edge_totals_blocking R st r =
     (case rs_connect R r of
        Some e \<Rightarrow> Err (EdgeE_Redis e)
      | None \<Rightarrow>
          rbind (map_err EdgeE_Redis (rs_hgetall R (es_hash_key st) r)) (\<lambda>kvs.
          Ok (List.map_filter keep_total kvs)))"

definition edge_clear_blocking :: "'r redis \<Rightarrow> edge_store \<Rightarrow> 'r \<Rightarrow> (edge_error, unit) res \<times> 'r" where
  "edge_clear_blocking R st r =
     (case rs_connect R r of
        Some e \<Rightarrow> (Err (EdgeE_Redis e), r)
      | None \<Rightarrow> sbind (smap_err EdgeE_Redis (rs_del R (es_hash_key st) r)) (\<lambda>_ r. (Ok (), r)))"

section \<open>The interface of a counter store\<close>

text \<open>Increments one after the other, stopping at the first failure.\<close>

fun incr_all :: "(string \<Rightarrow> u64 \<Rightarrow> 'r \<Rightarrow> ('x, unit) res \<times> 'r) \<Rightarrow> (string \<times> u64) list \<Rightarrow> 'r \<Rightarrow>
    ('x, unit) res \<times> 'r" where
  "incr_all incr [] r = (Ok (), r)"
| "incr_all incr ((k, d) # kds) r = sbind (incr k d r) (\<lambda>_. incr_all incr kds)"

text \<open>What a sequence of increments adds to a key, and whether it mentions it.\<close>

definition added :: "string \<Rightarrow> (string \<times> u64) list \<Rightarrow> int" where
  "added k kds = sum_list (map (\<lambda>(k', d). if k' = k then sint d else 0) kds)"

lemma added_simps [simp]:
  "added k [] = 0" "added k ((k', d) # kds) = (if k' = k then sint d else 0) + added k kds"
  by (simp_all add: added_def)

text \<open>The effect of one increment on what a store shows.\<close>

definition incremented :: "('r \<Rightarrow> string \<Rightarrow> i64 option) \<Rightarrow> string \<Rightarrow> u64 \<Rightarrow> 'r \<Rightarrow> 'r \<Rightarrow> bool" where
  "incremented view k d r r' \<longleftrightarrow>
     old_value (view r' k) = old_value (view r k) + sint d \<and>
     (d \<noteq> 0 \<longrightarrow> view r' k \<noteq> None) \<and> (\<forall>k'. k' \<noteq> k \<or> d = 0 \<longrightarrow> view r' k' = view r k')"

locale edge_counter =
  fixes ok :: "'env \<Rightarrow> bool"
    and clear :: "'env \<Rightarrow> 'r \<Rightarrow> (edge_error, unit) res \<times> 'r"
    and incr :: "'env \<Rightarrow> string \<Rightarrow> u64 \<Rightarrow> 'r \<Rightarrow> (edge_error, unit) res \<times> 'r"
    and totals :: "'env \<Rightarrow> 'r \<Rightarrow> (edge_error, (string \<times> u64) list) res"
    and view :: "'env \<Rightarrow> 'r \<Rightarrow> string \<Rightarrow> i64 option"
  assumes clear_law: "ok e \<Longrightarrow> clear e r = (Ok (), r') \<Longrightarrow> view e r' = Map.empty"
    and incr_law: "ok e \<Longrightarrow> incr e k d r = (Ok (), r') \<Longrightarrow> incremented (view e) k d r r'"
    and incr_fail: "ok e \<Longrightarrow> incr e k d r = (Err x, r') \<Longrightarrow>
       view e r' = view e r \<or> incremented (view e) k d r r'"
    and totals_law: "ok e \<Longrightarrow> totals e r = Ok kvs \<Longrightarrow>
       distinct (map fst kvs) \<and> (\<forall>k v. (k, v) \<in> set kvs \<longleftrightarrow> view e r k = Some v \<and> 0 \<le> sint v)"
begin

lemma incr_all_law:
  "ok e \<Longrightarrow> incr_all (incr e) kds r = (Ok (), r') \<Longrightarrow>
     old_value (view e r' k) = old_value (view e r k) + added k kds \<and>
     (view e r k \<noteq> None \<or> (\<exists>d. d \<noteq> 0 \<and> (k, d) \<in> set kds) \<longrightarrow> view e r' k \<noteq> None)"
proof (induction kds arbitrary: r)
  case Nil
  then show ?case by simp
next
  case (Cons kd kds)
  obtain k1 d1 where kd: "kd = (k1, d1)" by (cases kd)
  with Cons.prems obtain r1 where 1: "incr e k1 d1 r = (Ok (), r1)"
    and 2: "incr_all (incr e) kds r1 = (Ok (), r')" by auto
  note law = incr_law [OF Cons.prems(1) 1, unfolded incremented_def]
  have v: "old_value (view e r1 k) = old_value (view e r k) + (if k1 = k then sint d1 else 0)"
    using law by (cases "k1 = k") auto
  have n: "view e r1 k \<noteq> None" if "view e r k \<noteq> None \<or> (k1 = k \<and> d1 \<noteq> 0)"
    using law that by (cases "k1 = k"; cases "d1 = 0") auto
  from Cons.IH [OF Cons.prems(1) 2] v n show ?case by (auto simp: kd)
qed

text \<open>What is in the database is what the totals list, when no counter is negative.\<close>

lemma totals_graph:
  assumes "ok e" "totals e r = Ok kvs" "\<forall>k v. view e r k = Some v \<longrightarrow> 0 \<le> sint v"
  shows "set kvs = Map.graph (view e r)" "distinct kvs"
  using totals_law [OF assms(1,2)] assms(3) by (auto simp: Map.graph_def distinct_map)

text \<open>The totals after a run of increments: old value plus the sum, if that is not negative.\<close>

lemma totals_after:
  assumes "ok e" "incr_all (incr e) kds r = (Ok (), r')" "totals e r' = Ok kvs"
    and "d \<noteq> 0" "(k, d) \<in> set kds" "0 \<le> old_value (view e r k) + added k kds"
  shows "\<exists>v. (k, v) \<in> set kvs \<and> sint v = old_value (view e r k) + added k kds"
proof -
  from incr_all_law [OF assms(1,2), of k] assms(4,5)
  obtain v where "view e r' k = Some v" "sint v = old_value (view e r k) + added k kds"
    by (auto simp: old_value_def)
  with totals_law [OF assms(1,3)] assms(6) show ?thesis by auto
qed

end

section \<open>Both stores are counters\<close>

type_synonym 'r edge_env = "'r redis \<times> edge_store"

definition edge_view :: "'r edge_env \<Rightarrow> 'r \<Rightarrow> string \<Rightarrow> i64 option" where
  "edge_view e r = rs_view (fst e) r (es_hash_key (snd e))"

lemma edge_incr_Ok:
  assumes "redis_ok R" "edge_incr R st k d r = (Ok (), r')"
  shows "incremented (edge_view (R, st)) k d r r'"
proof (cases "d = 0")
  case True
  with assms(2) show ?thesis by (simp add: edge_incr_def incremented_def)
next
  case False
  with assms(2) obtain v where "rs_hincr R (es_hash_key st) k d r = (Ok v, r')"
    by (cases "rs_hincr R (es_hash_key st) k d r"; cases "fst (rs_hincr R (es_hash_key st) k d r)")
       (auto simp: edge_incr_def)
  note redis_okD(1,2) [OF assms(1) this]
  with False show ?thesis by (simp add: edge_view_def old_value_def incremented_def)
qed

lemma edge_incr_Err:
  assumes "redis_ok R" "edge_incr R st k d r = (Err x, r')"
  shows "edge_view (R, st) r' = edge_view (R, st) r \<or> incremented (edge_view (R, st)) k d r r'"
    and "replies_arrive R \<Longrightarrow> edge_view (R, st) r' = edge_view (R, st) r"
proof -
  from assms obtain e where d: "d \<noteq> 0" and h: "rs_hincr R (es_hash_key st) k d r = (Err e, r')"
    by (cases "rs_hincr R (es_hash_key st) k d r"; cases "fst (rs_hincr R (es_hash_key st) k d r)")
       (auto simp: edge_incr_def redis_okD(4) split: if_splits)
  from redis_okD(3) [OF assms(1) h] d
  show "edge_view (R, st) r' = edge_view (R, st) r \<or> incremented (edge_view (R, st)) k d r r'"
    by (elim disjE exE conjE) (simp_all add: edge_view_def incremented_def old_value_def)
  show "replies_arrive R \<Longrightarrow> edge_view (R, st) r' = edge_view (R, st) r"
    using h by (simp add: replies_arrive_def edge_view_def)
qed

lemma keep_total_set:
  "(k, v) \<in> set (List.map_filter keep_total kvs) \<longleftrightarrow> (k, v) \<in> set kvs \<and> 0 \<le> sint v"
  by (induction kvs) (auto simp: List.map_filter_simps keep_total_def split: if_splits)

lemma keep_total_distinct:
  "distinct (map fst kvs) \<Longrightarrow> distinct (map fst (List.map_filter keep_total kvs))"
proof (induction kvs)
  case (Cons kv kvs)
  obtain k v where kv: "kv = (k, v)" by (cases kv)
  have "k \<notin> fst ` set (List.map_filter keep_total kvs)"
    using Cons.prems by (force simp: kv keep_total_set)
  moreover have "List.map_filter keep_total (kv # kvs) =
      (if 0 \<le> sint v then (k, v) # List.map_filter keep_total kvs else List.map_filter keep_total kvs)"
    by (simp add: kv List.map_filter_simps keep_total_def)
  ultimately show ?case using Cons by simp
qed (simp add: List.map_filter_simps)

lemma edge_totals_Ok:
  assumes "redis_ok R" "edge_totals R st r = Ok kvs"
  shows "distinct (map fst kvs) \<and>
    (\<forall>k v. (k, v) \<in> set kvs \<longleftrightarrow> edge_view (R, st) r k = Some v \<and> 0 \<le> sint v)"
proof -
  from assms(2) obtain all where a: "rs_hgetall R (es_hash_key st) r = Ok all"
    and k: "kvs = List.map_filter keep_total all" by (auto simp: edge_totals_def)
  note redis_okD(6,7) [OF assms(1) a]
  with keep_total_distinct [of all] show ?thesis by (simp add: k keep_total_set edge_view_def)
qed

lemma edge_clear_Ok:
  "redis_ok R \<Longrightarrow> edge_clear R st r = (Ok (), r') \<Longrightarrow> edge_view (R, st) r' = Map.empty"
  by (cases "rs_del R (es_hash_key st) r"; cases "fst (rs_del R (es_hash_key st) r)")
     (auto simp: edge_clear_def edge_view_def redis_okD(8))

interpretation edge: edge_counter "\<lambda>e. redis_ok (fst e)" "\<lambda>e. edge_clear (fst e) (snd e)"
  "\<lambda>e. edge_incr (fst e) (snd e)"
  "\<lambda>e. edge_totals (fst e) (snd e)" edge_view
  using edge_clear_Ok edge_incr_Ok edge_incr_Err(1) edge_totals_Ok by unfold_locales (fastforce simp: split_paired_all)+

text \<open>A blocking call that connects is the async call.\<close>

lemma edge_incr_blocking_eq:
  "edge_incr_blocking R st k d r =
     (if d = 0 then (Ok (), r) else case rs_connect R r of
        Some e \<Rightarrow> (Err (EdgeE_Redis e), r) | None \<Rightarrow> edge_incr R st k d r)"
  by (simp add: edge_incr_blocking_def edge_incr_def split: option.splits)

lemma edge_totals_blocking_eq:
  "edge_totals_blocking R st r =
     (case rs_connect R r of Some e \<Rightarrow> Err (EdgeE_Redis e) | None \<Rightarrow> edge_totals R st r)"
  by (simp add: edge_totals_blocking_def edge_totals_def split: option.splits)

lemma edge_incr_blocking_Ok:
  "edge_incr_blocking R st k d r = (Ok (), r') \<Longrightarrow> edge_incr R st k d r = (Ok (), r')"
  by (auto simp: edge_incr_blocking_eq edge_incr_def [of R st k 0] split: if_splits option.splits)

lemma edge_incr_blocking_Err:
  "edge_incr_blocking R st k d r = (Err x, r') \<Longrightarrow> r' = r \<or> edge_incr R st k d r = (Err x, r')"
  by (auto simp: edge_incr_blocking_eq split: if_splits option.splits)

lemma edge_totals_blocking_Ok:
  "edge_totals_blocking R st r = Ok kvs \<Longrightarrow> edge_totals R st r = Ok kvs"
  by (auto simp: edge_totals_blocking_eq split: option.splits)

lemma edge_clear_blocking_Ok:
  "edge_clear_blocking R st r = (Ok (), r') \<Longrightarrow> edge_clear R st r = (Ok (), r')"
  by (auto simp: edge_clear_blocking_def edge_clear_def split: option.splits)

interpretation edge_blocking: edge_counter "\<lambda>e. redis_ok (fst e)"
  "\<lambda>e. edge_clear_blocking (fst e) (snd e)"
  "\<lambda>e. edge_incr_blocking (fst e) (snd e)" "\<lambda>e. edge_totals_blocking (fst e) (snd e)" edge_view
proof
  fix e r r' assume "redis_ok (fst e)" "edge_clear_blocking (fst e) (snd e) r = (Ok (), r')"
  then show "edge_view e r' = Map.empty" by (intro edge.clear_law edge_clear_blocking_Ok)
next
  fix e k d r r' assume "redis_ok (fst e)" "edge_incr_blocking (fst e) (snd e) k d r = (Ok (), r')"
  then show "incremented (edge_view e) k d r r'"
    by (intro edge.incr_law edge_incr_blocking_Ok)
next
  fix e k d r x r' assume "redis_ok (fst e)" "edge_incr_blocking (fst e) (snd e) k d r = (Err x, r')"
  then show "edge_view e r' = edge_view e r \<or> incremented (edge_view e) k d r r'"
    by (auto dest!: edge_incr_blocking_Err dest: edge.incr_fail)
next
  fix e r kvs assume "redis_ok (fst e)" "edge_totals_blocking (fst e) (snd e) r = Ok kvs"
  then show "distinct (map fst kvs) \<and>
      (\<forall>k v. (k, v) \<in> set kvs \<longleftrightarrow> edge_view e r k = Some v \<and> 0 \<le> sint v)"
    by (intro edge.totals_law edge_totals_blocking_Ok)
qed

section \<open>Signed and unsigned\<close>

lemma sint_i64: "sint (w :: i64) = (if uint w < 2 ^ 63 then uint w else uint w - 2 ^ 64)"
proof -
  have u: "uint w = sint w mod 2 ^ 64" using uint_sint [of w] by (simp add: take_bit_eq_mod)
  have r: "- (2 ^ 63) \<le> sint w" "sint w < 2 ^ 63" using sint_ge [of w] sint_lt [of w] by simp_all
  show ?thesis
  proof (cases "0 \<le> sint w")
    case True
    then show ?thesis using u r by simp
  next
    case False
    then have "sint w mod 2 ^ 64 = (sint w + 2 ^ 64) mod 2 ^ 64" by simp
    also have "\<dots> = sint w + 2 ^ 64" using False r by (intro mod_pos_pos_trivial) simp_all
    finally show ?thesis using u r False by simp
  qed
qed

lemma sint_nonneg: "0 \<le> sint (w :: i64) \<longleftrightarrow> uint w < 2 ^ 63" "0 \<le> sint w \<Longrightarrow> sint w = uint w"
  using unsigned_less [of w, where 'a = int] by (auto simp: sint_i64 split: if_splits)

lemma added_unsigned:
  "\<forall>(k, d) \<in> set kds. uint d < 2 ^ 63 \<Longrightarrow>
     added k kds = sum_list (map (\<lambda>(k', d). if k' = k then uint d else 0) kds) \<and> 0 \<le> added k kds"
proof (induction kds)
  case (Cons kd kds)
  obtain k1 d1 where "kd = (k1, d1)" by (cases kd)
  with Cons show ?case by (fastforce simp: sint_i64)
qed simp

section \<open>A sample database\<close>

text \<open>One list of values per hash key and field, the newest first.\<close>

definition sample_fields :: "string \<Rightarrow> ((string \<times> string) \<times> i64) list \<Rightarrow> string list" where
  "sample_fields h r = remdups (map (\<lambda>x. snd (fst x)) (filter (\<lambda>x. fst (fst x) = h) r))"

lemma sample_fields: "f \<in> set (sample_fields h r) \<longleftrightarrow> (\<exists>v. map_of r (h, f) = Some v)"
  "distinct (sample_fields h r)"
  by (induction r) (auto simp: sample_fields_def)

definition sample_redis :: "((string \<times> string) \<times> i64) list redis" where
  "sample_redis =
     \<lparr>rs_open = (\<lambda>_. None), rs_connect = (\<lambda>_. None),
      rs_hincr = (\<lambda>h f d r.
        let s = old_value (map_of r (h, f)) + sint d in
        if - (2 ^ 63) \<le> s \<and> s < 2 ^ 63
        then (Ok (word_of_int s), ((h, f), word_of_int s) # r)
        else (Err (Redis_Error ''ERR increment or decrement would overflow''), r)),
      rs_hgetall = (\<lambda>h r. Ok (map (\<lambda>f. (f, the (map_of r (h, f)))) (sample_fields h r))),
      rs_del = (\<lambda>h r. (Ok (), filter (\<lambda>x. fst (fst x) \<noteq> h) r)),
      rs_view = (\<lambda>r h f. map_of r (h, f))\<rparr>"

lemma sint_word_of_int_i64: "- (2 ^ 63) \<le> s \<Longrightarrow> s < 2 ^ 63 \<Longrightarrow> sint (word_of_int s :: i64) = s"
  by (simp add: sint_sbintrunc' signed_take_bit_int_eq_self)

lemma sint_plus_i64:
  "- (2 ^ 63) \<le> s + sint d \<Longrightarrow> s + sint d < 2 ^ 63 \<Longrightarrow> sint (word_of_int s + d :: i64) = s + sint d"
  using sint_word_of_int_i64 [of "s + sint d"] by simp

lemma map_of_del: "map_of (filter (\<lambda>x. fst (fst x) \<noteq> h) r) (h', f) =
    (if h' = h then None else map_of r (h', f))"
  by (induction r) auto

lemma sample_redis_ok: "redis_ok sample_redis"
  unfolding redis_ok_def sample_redis_def
  by (auto simp: map_of_del Let_def sint_plus_i64 comp_def fun_eq_iff sample_fields image_iff split: if_splits)

section \<open>Properties\<close>



text \<open>
  C39: The counters are documented to only grow, but a delta of 2^63 or more wraps to a
  negative number on its way to Redis: a successful increment then lowers the counter, by
  2^64 minus the delta.
\<close>

theorem edge_incr_can_decrease:
  assumes "redis_ok R" and "2 ^ 63 \<le> uint d" and "edge_incr R st k d r = (Ok (), r')"
  shows "old_value (rs_view R r' (es_hash_key st) k) =
      old_value (rs_view R r (es_hash_key st) k) - (2 ^ 64 - uint d) \<and>
    old_value (rs_view R r' (es_hash_key st) k) < old_value (rs_view R r (es_hash_key st) k)"
  using edge.incr_law [of "(R, st)" k d r r'] assms unsigned_less [of d, where 'a = int]
  by (simp add: edge_view_def sint_i64 incremented_def)

theorem edge_incr_can_decrease_witness:
  "\<exists>r'. edge_incr sample_redis \<lparr>es_hash_key = ''h''\<rparr> ''a'' (- 1) [] = (Ok (), r') \<and>
     old_value (rs_view sample_redis r' ''h'' ''a'') = - 1"
proof -
  obtain r' where r: "edge_incr sample_redis \<lparr>es_hash_key = ''h''\<rparr> ''a'' (- 1) [] = (Ok (), r')"
    by (simp add: edge_incr_def sample_redis_def old_value_def)
  have m: "uint (- 1 :: u64) = 2 ^ 64 - 1"
    unfolding unsigned_minus_1_eq_mask by (simp add: mask_eq_exp_minus_1)
  then have u: "2 ^ 63 \<le> uint (- 1 :: u64)" by simp
  have "old_value (rs_view sample_redis [] ''h'' ''a'') = 0" by (simp add: sample_redis_def old_value_def)
  with edge_incr_can_decrease [OF sample_redis_ok u r] r m show ?thesis by simp
qed

end
