(* ===== verification/Prom_Server.thy ===== *)
theory Prom_Server
  imports Frame_Channel Net_Addr Prom_Encode Prom_Edge
begin

text \<open>
  The proxy, \<open>src/prom_proxy/server.rs\<close>: the connection handler, forwarding to the upstream
  and the flush of the edge counters. What a call gets from outside is the record
  \<open>prom_world\<close>: codec, key, random bytes, serialisation, Snappy, prost, the wall clock, Redis
  and the upstream as a function of the HTTP request. The state a call changes is
  \<open>proxy_state\<close>: the Redis database and the log of requests posted upstream.
\<close>

section \<open>State\<close>

datatype http_error = Http_Error string

record http_request =
  hq_url :: string
  hq_headers :: "(string \<times> string) list"
  hq_body :: bytes

record http_response =
  hr_status :: u16
  hr_text :: "http_error + string"

datatype prom_server_error =
  PSrvE_Io io_error | PSrvE_Http http_error | PSrvE_Json prom_json_error
| PSrvE_Encode encode_error | PSrvE_Redis edge_error | PSrvE_Msg string

text \<open>\<open>Display\<close> of the errors; an external error carries its own rendering.\<close>

fun encode_error_to_string :: "encode_error \<Rightarrow> string" where
  "encode_error_to_string (EncE_Prost (Prost_Error s)) = ''encode protobuf: '' @ s"
| "encode_error_to_string (EncE_Msg s) = s"

fun edge_error_to_string :: "edge_error \<Rightarrow> string" where
  "edge_error_to_string (EdgeE_Redis (Redis_Error s)) = ''redis: '' @ s"

fun prom_error_to_string :: "prom_server_error \<Rightarrow> string" where
  "prom_error_to_string (PSrvE_Io e) = ''io: '' @ io_msg e"
| "prom_error_to_string (PSrvE_Http (Http_Error s)) = ''http: '' @ s"
| "prom_error_to_string (PSrvE_Json (Prom_Json_Error s)) = ''json: '' @ s"
| "prom_error_to_string (PSrvE_Encode e) = ''encode: '' @ encode_error_to_string e"
| "prom_error_to_string (PSrvE_Redis e) = ''redis: '' @ edge_error_to_string e"
| "prom_error_to_string (PSrvE_Msg s) = s"

record prom_config =
  pc_listen :: socket_addr
  pc_prometheus_url :: string
  pc_redis_url :: string
  pc_edge_hash_key :: string
  pc_message_type :: u8

definition prom_config_new :: "socket_addr \<Rightarrow> string \<Rightarrow> string \<Rightarrow> prom_config" where
  "prom_config_new listen prometheus_url redis_url =
     \<lparr>pc_listen = listen, pc_prometheus_url = prometheus_url, pc_redis_url = redis_url,
      pc_edge_hash_key = DEFAULT_EDGE_HASH_KEY, pc_message_type = MSG_REMOTE_WRITE\<rparr>"

definition with_edge_hash_key :: "string \<Rightarrow> prom_config \<Rightarrow> prom_config" where
  "with_edge_hash_key key c = c\<lparr>pc_edge_hash_key := key\<rparr>"

record prom_inner =
  pi_config :: prom_config
  pi_edges :: edge_store

record 'r proxy_state =
  px_redis :: 'r
  px_posted :: "http_request list"

record 'r prom_world =
  pw_codec :: codec
  pw_key :: key_cell
  pw_rng :: rng
  pw_json :: pjson
  pw_snap :: snap
  pw_prost :: prost
  pw_wall :: int
  pw_redis :: "'r redis"
  pw_http :: "http_request \<Rightarrow> http_error + http_response"

definition EDGE_METRIC_NAME :: string where
  "EDGE_METRIC_NAME = ''prom_proxy_edge_total''"

definition prom_server_new :: "'r prom_world \<Rightarrow> prom_config \<Rightarrow> 'r \<Rightarrow> (prom_server_error, prom_inner) res" where
  "prom_server_new W config r =
     rbind (map_err PSrvE_Redis
       (edge_connect (pw_redis W) (pc_redis_url config) (pc_edge_hash_key config) r)) (\<lambda>edges.
     Ok \<lparr>pi_config = config, pi_edges = edges\<rparr>)"

definition incr_edge ::
  "'r prom_world \<Rightarrow> prom_inner \<Rightarrow> string \<Rightarrow> 'r proxy_state \<Rightarrow> (prom_server_error, unit) res \<times> 'r proxy_state" where
  "incr_edge W inn key px =
     (let (r, db) = edge_incr (pw_redis W) (pi_edges inn) key 1 (px_redis px) in
      (map_err PSrvE_Redis r, px\<lparr>px_redis := db\<rparr>))"

section \<open>Forwarding\<close>

definition remote_write_request :: "prom_inner \<Rightarrow> bytes \<Rightarrow> http_request" where
  "remote_write_request inn body =
     \<lparr>hq_url = pc_prometheus_url (pi_config inn),
      hq_headers = [(''Content-Encoding'', ''snappy''), (''Content-Type'', ''application/x-protobuf''),
        (''X-Prometheus-Remote-Write-Version'', ''0.1.0''), (''User-Agent'', ''proto4-prom-proxy/0.1.0'')],
      hq_body = body\<rparr>"

definition is_success :: "u16 \<Rightarrow> bool" where
  "is_success status \<longleftrightarrow> 200 \<le> unat status \<and> unat status < 300"

definition post_remote_write ::
  "'r prom_world \<Rightarrow> prom_inner \<Rightarrow> bytes \<Rightarrow> 'r proxy_state \<Rightarrow> (prom_server_error, u16) res \<times> 'r proxy_state" where
  "post_remote_write W inn body px =
     (let req = remote_write_request inn body;
          px = px\<lparr>px_posted := px_posted px @ [req]\<rparr> in
      sbind (map_err PSrvE_Http (of_sum (pw_http W req)), px) (\<lambda>resp px.
      let status = hr_status resp in
      if is_success status \<or> status = 204 then (Ok status, px)
      else
        let text = (case hr_text resp of Inl _ \<Rightarrow> [] | Inr t \<Rightarrow> t) in
        (Err (PSrvE_Msg (''upstream HTTP '' @ show_dec (unat status) @ '': '' @ text)), px)))"

definition forward_frame ::
  "'r prom_world \<Rightarrow> prom_inner \<Rightarrow> frame \<Rightarrow> 'r proxy_state \<Rightarrow> (prom_server_error, u16) res \<times> 'r proxy_state" where
  "forward_frame W inn f px = post_remote_write W inn (f_data f) px"

definition prom_write_error ::
  "'r prom_world \<Rightarrow> sink \<Rightarrow> u64 \<Rightarrow> string \<Rightarrow> (prom_server_error, unit) res \<times> sink" where
  "prom_write_error W s tx_id message =
     (case perr_to_vec (pw_json W) \<lparr>pe_message = message\<rparr> of
        Inl e \<Rightarrow> (Err (PSrvE_Json e), s)
      | Inr body \<Rightarrow>
          sbind (smap_err PSrvE_Io (write_frame (pw_codec W) (pw_key W) (pw_rng W) s PROM_MSG_ERROR
                   tx_id body CHACHA20POLY1305)) (\<lambda>_ s. (Ok (), s)))"

text \<open>
  A connection. An error of the counter is only printed; the result of a handler is its
  result, the proxy state and the connection's writer.
\<close>

definition with_px :: "'p \<Rightarrow> ('x, 'a) res \<times> sink \<Rightarrow> ('x, 'a) res \<times> 'p \<times> sink" where
  "with_px px p = (fst p, px, snd p)"

definition prom_handle_conn ::
  "'r prom_world \<Rightarrow> prom_inner \<Rightarrow> stream \<Rightarrow> 'r proxy_state \<Rightarrow>
   (prom_server_error, unit) res \<times> 'r proxy_state \<times> sink" where
  "prom_handle_conn W inn c px =
     sbind (map_err PSrvE_Io (read_frame (pw_codec W) (pw_key W) (st_rd c)), px, st_wr c)
       (\<lambda>(f, _) (px, s).
     if f_message_type f \<noteq> pc_message_type (pi_config inn)
     then with_px px (prom_write_error W s (f_tx_id f)
            (''unexpected message_type '' @ show_dec (unat (f_message_type f))))
     else
       let (r, px) = forward_frame W inn f px in
       case r of
         Ok status \<Rightarrow>
           (case incr_edge W inn ''remote_write_ok'' px of
              (Panic p, px) \<Rightarrow> (Panic p, px, s)
            | (_, px) \<Rightarrow>
                (case ack_to_vec (pw_json W) \<lparr>ack_status = status\<rparr> of
                   Inl e \<Rightarrow> (Err (PSrvE_Json e), px, s)
                 | Inr body \<Rightarrow> with_px px (sbind (smap_err PSrvE_Io
                     (write_frame (pw_codec W) (pw_key W) (pw_rng W) s MSG_REMOTE_WRITE_ACK
                        (f_tx_id f) body CHACHA20POLY1305)) (\<lambda>_ s. (Ok (), s)))))
       | Err e \<Rightarrow>
           (case incr_edge W inn ''remote_write_err'' px of
              (Panic p, px) \<Rightarrow> (Panic p, px, s)
            | (_, px) \<Rightarrow> with_px px (prom_write_error W s (f_tx_id f) (prom_error_to_string e)))
       | Panic p \<Rightarrow> (Panic p, px, s))"

section \<open>Flushing the counters\<close>

text \<open>Milliseconds since the epoch; the server has its own copy of the function.\<close>

definition server_now_ms :: "int \<Rightarrow> i64" where
  "server_now_ms wall = (if wall < 0 then 0 else word_of_int (wall div 1000000))"

definition edge_series :: "i64 \<Rightarrow> string \<times> u64 \<Rightarrow> time_series" where
  "edge_series now kt = (case kt of (key, tot) \<Rightarrow>
     \<lparr>ts_labels = [\<lparr>l_name = ''__name__'', l_value = EDGE_METRIC_NAME\<rparr>,
                   \<lparr>l_name = ''key'', l_value = key\<rparr>],
      ts_samples = [\<lparr>s_value = u64_to_f64 tot, s_timestamp_ms = now\<rparr>]\<rparr>)"

definition flush_edges ::
  "'r prom_world \<Rightarrow> prom_inner \<Rightarrow> 'r proxy_state \<Rightarrow> (prom_server_error, unit) res \<times> 'r proxy_state" where
  "flush_edges W inn px =
     sbind (map_err PSrvE_Redis (edge_totals (pw_redis W) (pi_edges inn) (px_redis px)), px)
       (\<lambda>totals px.
     if totals = [] then (Ok (), px)
     else
       let now = server_now_ms (pw_wall W);
           series = map (edge_series now) totals in
       sbind (map_err PSrvE_Encode (encode_write_request (pw_prost W) series), px) (\<lambda>protobuf px.
       sbind (prepare_remote_write_body (pw_snap W) protobuf, px) (\<lambda>body px.
       sbind (post_remote_write W inn body px) (\<lambda>_ px.
       (Ok (), px)))))"

text \<open>The flush task: one flush per tick, errors only printed, a panic ends the task.\<close>

fun flush_task :: "'r prom_world list \<Rightarrow> prom_inner \<Rightarrow> 'r proxy_state \<Rightarrow> 'r proxy_state" where
  "flush_task [] inn px = px"
| "flush_task (W # ticks) inn px =
     (case flush_edges W inn px of
        (Panic p, px) \<Rightarrow> px
      | (_, px) \<Rightarrow> flush_task ticks inn px)"

section \<open>Lemmas\<close>

text \<open>What the upstream answers to a body.\<close>

definition upstream :: "'r prom_world \<Rightarrow> prom_inner \<Rightarrow> bytes \<Rightarrow> (prom_server_error, u16) res" where
  "upstream W inn body =
     (case pw_http W (remote_write_request inn body) of
        Inl e \<Rightarrow> Err (PSrvE_Http e)
      | Inr resp \<Rightarrow>
          if is_success (hr_status resp) then Ok (hr_status resp)
          else Err (PSrvE_Msg (''upstream HTTP '' @ show_dec (unat (hr_status resp)) @ '': '' @
                 (case hr_text resp of Inl _ \<Rightarrow> [] | Inr t \<Rightarrow> t))))"

lemma post_remote_write_eq:
  "post_remote_write W inn body px =
     (upstream W inn body, px\<lparr>px_posted := px_posted px @ [remote_write_request inn body]\<rparr>)"
  by (cases "pw_http W (remote_write_request inn body)")
     (auto simp: post_remote_write_def upstream_def Let_def is_success_def)

lemma upstream_not_Panic [simp]: "upstream W inn body \<noteq> Panic p"
  by (simp add: upstream_def split: sum.splits)

lemma with_px_simps [simp]: "with_px px (r, s) = (r, px, s)"
  by (simp add: with_px_def)

lemma write_error_good:
  assumes "sink_good s"
  shows "prom_write_error W s tx m =
     (case perr_to_vec (pw_json W) \<lparr>pe_message = m\<rparr> of
        Inl e \<Rightarrow> (Err (PSrvE_Json e), s)
      | Inr body \<Rightarrow>
          (case build_wire_frame (pw_codec W) (pw_key W) (pw_rng W) PROM_MSG_ERROR tx body CHACHA20POLY1305 of
             Ok buf \<Rightarrow> (Ok (), s\<lparr>sk_out := sk_out s @ buf\<rparr>)
           | Err e \<Rightarrow> (Err (PSrvE_Io e), s) | Panic p \<Rightarrow> (Panic p, s)))"
  by (simp add: prom_write_error_def write_frame_good [OF assms] split: sum.splits res.splits)

text \<open>The counter and the reply that go with the upstream's answer.\<close>

definition outcome_key :: "(prom_server_error, u16) res \<Rightarrow> string" where
  "outcome_key u = (if is_ok u then ''remote_write_ok'' else ''remote_write_err'')"

definition outcome_reply :: "pjson \<Rightarrow> (prom_server_error, u16) res \<Rightarrow> u8 \<times> (prom_json_error + bytes)" where
  "outcome_reply J u =
     (case u of
        Ok status \<Rightarrow> (MSG_REMOTE_WRITE_ACK, ack_to_vec J \<lparr>ack_status = status\<rparr>)
      | Err e \<Rightarrow> (PROM_MSG_ERROR, perr_to_vec J \<lparr>pe_message = prom_error_to_string e\<rparr>)
      | Panic p \<Rightarrow> (PROM_MSG_ERROR, Inr []))"

lemma edge_incr_not_Panic: "redis_ok R \<Longrightarrow> fst (edge_incr R st k d r) \<noteq> Panic p"
  by (cases "rs_hincr R (es_hash_key st) k d r"; cases "fst (rs_hincr R (es_hash_key st) k d r)")
     (auto simp: edge_incr_def dest: redis_okD(4))

lemma incr_edge_redis:
  "px_redis (snd (incr_edge W inn k px)) =
     snd (rs_hincr (pw_redis W) (es_hash_key (pi_edges inn)) k 1 (px_redis px))"
  by (cases "rs_hincr (pw_redis W) (es_hash_key (pi_edges inn)) k 1 (px_redis px)";
      cases "fst (rs_hincr (pw_redis W) (es_hash_key (pi_edges inn)) k 1 (px_redis px))")
     (auto simp: incr_edge_def edge_incr_def)

lemma incr_edge_view:
  assumes "redis_ok (pw_redis W)" "incr_edge W inn k px = (r, px')"
  shows "px_posted px' = px_posted px" "r \<noteq> Panic p"
    and "is_ok r \<longleftrightarrow> is_ok (fst (rs_hincr (pw_redis W) (es_hash_key (pi_edges inn)) k 1 (px_redis px)))"
    and "is_ok r \<Longrightarrow> incremented (edge_view (pw_redis W, pi_edges inn)) k 1 (px_redis px) (px_redis px')"
    and "edge_view (pw_redis W, pi_edges inn) (px_redis px') = edge_view (pw_redis W, pi_edges inn) (px_redis px) \<or>
      incremented (edge_view (pw_redis W, pi_edges inn)) k 1 (px_redis px) (px_redis px')"
    and "replies_arrive (pw_redis W) \<Longrightarrow> \<not> is_ok r \<Longrightarrow>
      edge_view (pw_redis W, pi_edges inn) (px_redis px') = edge_view (pw_redis W, pi_edges inn) (px_redis px)"
proof -
  obtain q db where q: "edge_incr (pw_redis W) (pi_edges inn) k 1 (px_redis px) = (q, db)"
    by (cases "edge_incr (pw_redis W) (pi_edges inn) k 1 (px_redis px)")
  with assms(2) have px': "px' = px\<lparr>px_redis := db\<rparr>" "r = map_err PSrvE_Redis q"
    by (auto simp: incr_edge_def)
  have np: "q \<noteq> Panic p" for p
    using edge_incr_not_Panic [OF assms(1), of "pi_edges inn" k 1 "px_redis px"] q by auto
  then show "px_posted px' = px_posted px" "r \<noteq> Panic p" using px' by auto
  show "is_ok r \<longleftrightarrow> is_ok (fst (rs_hincr (pw_redis W) (es_hash_key (pi_edges inn)) k 1 (px_redis px)))"
    using q px'(2)
    by (cases "rs_hincr (pw_redis W) (es_hash_key (pi_edges inn)) k 1 (px_redis px)";
        cases "fst (rs_hincr (pw_redis W) (es_hash_key (pi_edges inn)) k 1 (px_redis px))")
       (auto simp: edge_incr_def)
  show ok: "incremented (edge_view (pw_redis W, pi_edges inn)) k 1 (px_redis px) (px_redis px')" if "is_ok r"
  proof -
    from that px'(2) have "q = Ok ()" by (cases q) auto
    with edge_incr_Ok [OF assms(1)] q show ?thesis by (simp add: px')
  qed
  show "edge_view (pw_redis W, pi_edges inn) (px_redis px') = edge_view (pw_redis W, pi_edges inn) (px_redis px) \<or>
      incremented (edge_view (pw_redis W, pi_edges inn)) k 1 (px_redis px) (px_redis px')"
  proof (cases q)
    case (Panic p)
    with np show ?thesis by blast
  qed (use ok edge_incr_Err(1) [OF assms(1), of "pi_edges inn" k 1 "px_redis px"] q in \<open>simp_all add: px'\<close>)
  show "edge_view (pw_redis W, pi_edges inn) (px_redis px') = edge_view (pw_redis W, pi_edges inn) (px_redis px)"
    if "replies_arrive (pw_redis W)" "\<not> is_ok r"
  proof (cases q)
    case (Panic p)
    with np show ?thesis by blast
  qed (use that edge_incr_Err(2) [OF assms(1), of "pi_edges inn" k 1 "px_redis px"] q in \<open>simp_all add: px'\<close>)
qed

text \<open>A frame of the right type, by the upstream's answer.\<close>

lemma prom_handle_conn_forward:
  fixes px :: "'r proxy_state" and inn :: prom_inner and W :: "'r prom_world"
  assumes "redis_ok (pw_redis W)" "sink_good (st_wr c)"
    and "read_frame (pw_codec W) (pw_key W) (st_rd c) = Ok (f, rest)"
    and "f_message_type f = pc_message_type (pi_config inn)"
  defines "u \<equiv> upstream W inn (f_data f)"
  defines "px1 \<equiv> snd (incr_edge W inn (outcome_key u)
      (px\<lparr>px_posted := px_posted px @ [remote_write_request inn (f_data f)]\<rparr>))"
  shows "prom_handle_conn W inn c px =
    (case snd (outcome_reply (pw_json W) u) of
       Inl e \<Rightarrow> (Err (PSrvE_Json e), px1, st_wr c)
     | Inr body \<Rightarrow>
         (case build_wire_frame (pw_codec W) (pw_key W) (pw_rng W) (fst (outcome_reply (pw_json W) u))
                 (f_tx_id f) body CHACHA20POLY1305 of
            Ok buf \<Rightarrow> (Ok (), px1, (st_wr c)\<lparr>sk_out := sk_out (st_wr c) @ buf\<rparr>)
          | Err e \<Rightarrow> (Err (PSrvE_Io e), px1, st_wr c)
          | Panic p \<Rightarrow> (Panic p, px1, st_wr c)))"
proof -
  let ?px = "px\<lparr>px_posted := px_posted px @ [remote_write_request inn (f_data f)]\<rparr>"
  obtain ir ipx where i: "incr_edge W inn (outcome_key u) ?px = (ir, ipx)"
    by (cases "incr_edge W inn (outcome_key u) ?px")
  with incr_edge_view(2) [OF assms(1)] have np: "\<forall>p. ir \<noteq> Panic p" by blast
  have px1: "px1 = ipx" by (simp add: px1_def i)
  have fwd: "forward_frame W inn f px = (u, ?px)"
    by (simp add: forward_frame_def post_remote_write_eq u_def)
  show ?thesis
  proof (cases u)
    case (Ok status)
    then have "incr_edge W inn ''remote_write_ok'' ?px = (ir, ipx)" using i by (simp add: outcome_key_def)
    then show ?thesis
      using np unfolding prom_handle_conn_def Ok outcome_reply_def px1
      by (cases ir) (simp_all add: assms(3,4) fwd Ok write_frame_good [OF assms(2)] split: sum.splits res.splits)
  next
    case (Err e)
    then have "incr_edge W inn ''remote_write_err'' ?px = (ir, ipx)" using i by (simp add: outcome_key_def)
    then show ?thesis
      using np unfolding prom_handle_conn_def Err outcome_reply_def px1
      by (cases ir) (simp_all add: assms(3,4) fwd Err write_error_good [OF assms(2)] split: sum.splits res.splits)
  next
    case (Panic p)
    then show ?thesis by (simp add: u_def)
  qed
qed

section \<open>A sample proxy\<close>

definition sample_proxy :: "(http_request \<Rightarrow> http_error + http_response) \<Rightarrow>
    ((string \<times> string) \<times> i64) list prom_world" where
  "sample_proxy http =
     \<lparr>pw_codec = sample_codec, pw_key = sample_key, pw_rng = (\<lambda>_. 7), pw_json = sample_pjson,
      pw_snap = Inr, pw_prost = sample_prost, pw_wall = 5000000, pw_redis = sample_redis,
      pw_http = http\<rparr>"

lemma sample_proxy_simps [simp]:
  "pw_codec (sample_proxy h) = sample_codec" "pw_key (sample_proxy h) = sample_key"
  "pw_json (sample_proxy h) = sample_pjson" "pw_redis (sample_proxy h) = sample_redis"
  "pw_prost (sample_proxy h) = sample_prost" "pw_snap (sample_proxy h) = Inr" "pw_http (sample_proxy h) = h"
  "pw_wall (sample_proxy h) = 5000000"
  by (simp_all add: sample_proxy_def)

definition sample_prom_inner :: prom_inner where
  "sample_prom_inner =
     \<lparr>pi_config = prom_config_new \<lparr>sa_ip = V4 0 0 0 0, sa_port = 9100\<rparr> ''http://p'' ''redis://r'',
      pi_edges = \<lparr>es_hash_key = DEFAULT_EDGE_HASH_KEY\<rparr>\<rparr>"

lemma sample_prom_inner_simps [simp]:
  "pc_message_type (pi_config sample_prom_inner) = MSG_REMOTE_WRITE"
  "es_hash_key (pi_edges sample_prom_inner) = DEFAULT_EDGE_HASH_KEY"
  by (simp_all add: sample_prom_inner_def prom_config_new_def)

definition no_content :: "http_request \<Rightarrow> http_error + http_response" where
  "no_content _ = Inr \<lparr>hr_status = 204, hr_text = Inr []\<rparr>"

lemma upstream_no_content [simp]: "upstream (sample_proxy no_content) inn b = Ok 204"
  by (simp add: upstream_def no_content_def is_success_def)

lemma sample_encrypted_build:
  assumes "unat mt \<le> 31" "length d \<le> 65507"
  shows "\<exists>buf. build_wire_frame sample_codec sample_key rng mt tx d CHACHA20POLY1305 = Ok buf"
  using assms
  by (simp add: build_wire_frame_Ok_iff header_ok_def frame_payload_def compress_payload_Ok_iff
      encrypt_payload_Ok_iff sample_codec_def sample_key_def sample_tag_def NONCE_LEN_def u16_MAX_def
      CHACHA20POLY1305_def)

text \<open>A connection that delivers one plain frame.\<close>

definition plain_conn :: "u8 \<Rightarrow> u64 \<Rightarrow> bytes \<Rightarrow> stream" where
  "plain_conn mt tx d = \<lparr>st_rd = sample_reader (wire (push_bit 3 mt) tx d), st_wr = open_sink eof\<rparr>"

lemma plain_conn_read:
  assumes "unat mt \<le> 31" "length d \<le> u16_MAX"
  shows "read_frame C K (st_rd (plain_conn mt tx d)) = Ok (plain_frame mt tx d, sample_reader [])"
  using read_plain_frame [OF assms, of "st_rd (plain_conn mt tx d)" tx "[]" C K]
  by (simp add: plain_conn_def)

lemma plain_conn_wr [simp]: "st_wr (plain_conn mt tx d) = open_sink eof"
  by (simp add: plain_conn_def)

section \<open>Properties\<close>

text \<open>
  C13: A frame of the accepted type, encrypted or not, is forwarded once and byte for byte to
  the configured URL; its outcome is counted: Redis is asked to add one to the counter that
  belongs to it, and when Redis confirms, that counter is one higher and no other has changed
  (when it reports an error, the counter is the old one or, if only the reply was lost, one
  higher); and the reply, if one goes out, is an encrypted frame with the
  transaction id of the request that carries the upstream's status or its error.
\<close>

theorem proxy_forwards:
  assumes "redis_ok (pw_redis W)" and "sink_good (st_wr c)"
    and "read_frame (pw_codec W) (pw_key W) (st_rd c) = Ok (f, rest)"
    and "f_message_type f = pc_message_type (pi_config inn)"
    and "prom_handle_conn W inn c px = (r, px', s')"
    and "u = upstream W inn (f_data f)" and "R = (pw_redis W, pi_edges inn)"
    and "key = (if is_ok u then ''remote_write_ok'' else ''remote_write_err'')"
  shows "px_posted px' = px_posted px @ [remote_write_request inn (f_data f)] \<and>
    px_redis px' = snd (rs_hincr (pw_redis W) (es_hash_key (pi_edges inn)) key 1 (px_redis px)) \<and>
    (let counted = (old_value (edge_view R (px_redis px') key) = old_value (edge_view R (px_redis px) key) + 1 \<and>
           (\<forall>k. k \<noteq> key \<longrightarrow> edge_view R (px_redis px') k = edge_view R (px_redis px) k)) in
     if is_ok (fst (rs_hincr (pw_redis W) (es_hash_key (pi_edges inn)) key 1 (px_redis px))) then counted
     else edge_view R (px_redis px') = edge_view R (px_redis px) \<or> counted) \<and>
    (r \<noteq> Ok () \<longrightarrow> s' = st_wr c) \<and>
    (r = Ok () \<longrightarrow> (\<exists>mt body buf. s' = (st_wr c)\<lparr>sk_out := sk_out (st_wr c) @ buf\<rparr> \<and>
       build_wire_frame (pw_codec W) (pw_key W) (pw_rng W) mt (f_tx_id f) body CHACHA20POLY1305 = Ok buf \<and>
       (case u of
          Ok status \<Rightarrow> mt = MSG_REMOTE_WRITE_ACK \<and> ack_to_vec (pw_json W) \<lparr>ack_status = status\<rparr> = Inr body
        | Err e \<Rightarrow> mt = PROM_MSG_ERROR \<and>
            perr_to_vec (pw_json W) \<lparr>pe_message = prom_error_to_string e\<rparr> = Inr body
        | Panic p \<Rightarrow> False)))"
proof -
  let ?px = "px\<lparr>px_posted := px_posted px @ [remote_write_request inn (f_data f)]\<rparr>"
  note eq = prom_handle_conn_forward [OF assms(1-4), of px, folded assms(6), unfolded assms(5)]
  have px': "px' = snd (incr_edge W inn (outcome_key u) ?px)"
    using eq by (auto split: sum.splits res.splits)
  have key: "outcome_key u = key" by (simp add: outcome_key_def assms(8))
  have i: "incr_edge W inn key ?px = (fst (incr_edge W inn key ?px), px')" by (simp add: px' key)
  have a: "px_posted px' = px_posted px @ [remote_write_request inn (f_data f)]"
    using incr_edge_view(1) [OF assms(1) i] by simp
  have b: "r \<noteq> Ok () \<longrightarrow> s' = st_wr c" using eq by (auto split: sum.splits res.splits)
  have c: "r = Ok () \<longrightarrow> (\<exists>body buf. s' = (st_wr c)\<lparr>sk_out := sk_out (st_wr c) @ buf\<rparr> \<and>
      build_wire_frame (pw_codec W) (pw_key W) (pw_rng W) (fst (outcome_reply (pw_json W) u)) (f_tx_id f) body
        CHACHA20POLY1305 = Ok buf \<and> snd (outcome_reply (pw_json W) u) = Inr body)"
    using eq by (auto split: sum.splits res.splits)
  have d: "(case u of
        Ok status \<Rightarrow> fst (outcome_reply (pw_json W) u) = MSG_REMOTE_WRITE_ACK \<and>
          ack_to_vec (pw_json W) \<lparr>ack_status = status\<rparr> = Inr body
      | Err e \<Rightarrow> fst (outcome_reply (pw_json W) u) = PROM_MSG_ERROR \<and>
          perr_to_vec (pw_json W) \<lparr>pe_message = prom_error_to_string e\<rparr> = Inr body
      | Panic p \<Rightarrow> False)" if "snd (outcome_reply (pw_json W) u) = Inr body" for body
    using that by (cases u) (simp_all add: outcome_reply_def assms(6))
  have e: "px_redis px' = snd (rs_hincr (pw_redis W) (es_hash_key (pi_edges inn)) key 1 (px_redis px))"
    using px' key by (simp add: incr_edge_redis)
  note v = incr_edge_view(3-5) [OF assms(1) i, unfolded incremented_def]
  show ?thesis
    using a b e v c d unfolding assms(7) Let_def by fastforce
qed

theorem proxy_forwards_witness:
  "\<exists>px' s'. prom_handle_conn (sample_proxy no_content) sample_prom_inner (plain_conn MSG_REMOTE_WRITE 7 [1, 2, 3])
       \<lparr>px_redis = [], px_posted = []\<rparr> = (Ok (), px', s') \<and>
     map hq_body (px_posted px') = [[1, 2, 3]] \<and> sk_out s' \<noteq> []"
proof -
  let ?W = "sample_proxy no_content" and ?c = "plain_conn MSG_REMOTE_WRITE 7 [1, 2, 3]"
  let ?px = "\<lparr>px_redis = [], px_posted = []\<rparr>"
  have c: "read_frame (pw_codec ?W) (pw_key ?W) (st_rd ?c) = Ok (plain_frame MSG_REMOTE_WRITE 7 [1, 2, 3], sample_reader [])"
    by (rule plain_conn_read) (simp_all add: prom_msgs u16_MAX_def)
  have a: "redis_ok (pw_redis ?W)" "sink_good (st_wr ?c)"
    "f_message_type (plain_frame MSG_REMOTE_WRITE 7 [1, 2, 3]) = pc_message_type (pi_config sample_prom_inner)"
    by (simp_all add: sample_redis_ok)
  obtain buf where "build_wire_frame sample_codec sample_key (pw_rng ?W) MSG_REMOTE_WRITE_ACK 7 (to_be 2 (204 :: u16))
      CHACHA20POLY1305 = Ok buf"
    using sample_encrypted_build [of MSG_REMOTE_WRITE_ACK "to_be 2 (204 :: u16)"] by (auto simp: prom_msgs)
  with prom_handle_conn_forward [OF a(1,2) c a(3), of ?px]
  obtain px' s' where h: "prom_handle_conn ?W sample_prom_inner ?c ?px = (Ok (), px', s')"
    by (simp add: outcome_reply_def sample_pjson_def)
  from proxy_forwards [OF a(1,2) c a(3) h refl refl refl]
  have "px_posted px' = [remote_write_request sample_prom_inner [1, 2, 3]]"
    "\<exists>mt body buf. s' = (st_wr ?c)\<lparr>sk_out := sk_out (st_wr ?c) @ buf\<rparr> \<and>
       build_wire_frame sample_codec sample_key (pw_rng ?W) mt 7 body CHACHA20POLY1305 = Ok buf"
    by auto
  then have "map hq_body (px_posted px') = [[1, 2, 3]]" "sk_out s' \<noteq> []"
    by (auto simp: remote_write_request_def build_wire_frame_Ok_iff wire_def)
  with h show ?thesis by (intro exI [of _ px'] exI [of _ s'] conjI)
qed

text \<open>
  A frame of another type posts nothing, counts nothing and is answered with an error
  message that names its type.
\<close>

theorem proxy_rejects_other_types:
  assumes "sink_good (st_wr c)"
    and "read_frame (pw_codec W) (pw_key W) (st_rd c) = Ok (f, rest)"
    and "f_message_type f \<noteq> pc_message_type (pi_config inn)"
    and "prom_handle_conn W inn c px = (r, px', s')"
  shows "px' = px \<and>
    (r = Ok () \<longrightarrow> (\<exists>body buf. s' = (st_wr c)\<lparr>sk_out := sk_out (st_wr c) @ buf\<rparr> \<and>
       perr_to_vec (pw_json W) \<lparr>pe_message =
         ''unexpected message_type '' @ show_dec (unat (f_message_type f))\<rparr> = Inr body \<and>
       build_wire_frame (pw_codec W) (pw_key W) (pw_rng W) PROM_MSG_ERROR (f_tx_id f) body
         CHACHA20POLY1305 = Ok buf))"
  using assms(2-4) write_error_good [OF assms(1), of W "f_tx_id f"]
  by (auto simp: prom_handle_conn_def with_px_def split: sum.splits res.splits)

theorem proxy_rejects_other_types_witness:
  "\<exists>r s'. prom_handle_conn (sample_proxy no_content) sample_prom_inner (plain_conn 9 7 [1]) 
     \<lparr>px_redis = [], px_posted = []\<rparr> = (r, \<lparr>px_redis = [], px_posted = []\<rparr>, s')"
proof -
  let ?W = "sample_proxy no_content" and ?c = "plain_conn 9 7 [1]"
  let ?px = "\<lparr>px_redis = [], px_posted = []\<rparr> :: ((string \<times> string) \<times> i64) list proxy_state"
  have c: "read_frame (pw_codec ?W) (pw_key ?W) (st_rd ?c) = Ok (plain_frame 9 7 [1], sample_reader [])"
    by (rule plain_conn_read) (simp_all add: u16_MAX_def)
  obtain r px' s' where h: "prom_handle_conn ?W sample_prom_inner ?c ?px = (r, px', s')"
    by (metis prod_cases3)
  have "px' = ?px"
    using proxy_rejects_other_types [OF _ c _ h] by (simp add: prom_msgs)
  with h show ?thesis by blast
qed

text \<open>The request a flush stands for: one series per total.\<close>

definition totals_request :: "i64 \<Rightarrow> (string \<times> u64) list \<Rightarrow> pb_write_request" where
  "totals_request now totals =
     \<lparr>pb_timeseries = map (\<lambda>(k, v).
        \<lparr>pbt_labels = [\<lparr>pbl_name = ''__name__'', pbl_value = EDGE_METRIC_NAME\<rparr>,
                        \<lparr>pbl_name = ''key'', pbl_value = k\<rparr>],
         pbt_samples = [\<lparr>pbs_value = u64_to_f64 v, pbs_timestamp = now\<rparr>]\<rparr>) totals\<rparr>"

text \<open>
  C23: A flush that succeeds changes no counter. If some counter is not negative it posts
  exactly one request, whose body decompresses to a protobuf with exactly one series per
  such counter, named after the metric, labelled with the key, with the counter's total as
  its value and the time of the flush; otherwise it posts nothing.
\<close>

theorem flush_posts_totals:
  assumes "redis_ok (pw_redis W)" and "prost_ok (pw_prost W)"
    and "flush_edges W inn px = (Ok (), px')" and "h = es_hash_key (pi_edges inn)"
  shows "px_redis px' = px_redis px \<and>
    (\<exists>totals. distinct (map fst totals) \<and>
       (\<forall>k v. (k, v) \<in> set totals \<longleftrightarrow> rs_view (pw_redis W) (px_redis px) h k = Some v \<and> 0 \<le> sint v) \<and>
       (if totals = [] then px_posted px' = px_posted px
        else \<exists>pb body. px_posted px' = px_posted px @ [remote_write_request inn body] \<and>
          pw_snap W pb = Inr body \<and>
          pb_decode (pw_prost W) pb = Inr (totals_request (server_now_ms (pw_wall W)) totals)))"
proof -
  from assms(3) obtain totals where t: "edge_totals (pw_redis W) (pi_edges inn) (px_redis px) = Ok totals"
    by (auto simp: flush_edges_def)
  note law = edge_totals_Ok [OF assms(1) t]
  have s: "pb_series (edge_series now kv) = (case kv of (k, v) \<Rightarrow>
      \<lparr>pbt_labels = [\<lparr>pbl_name = ''__name__'', pbl_value = EDGE_METRIC_NAME\<rparr>, \<lparr>pbl_name = ''key'', pbl_value = k\<rparr>],
       pbt_samples = [\<lparr>pbs_value = u64_to_f64 v, pbs_timestamp = now\<rparr>]\<rparr>)" for now kv
    by (cases kv) (simp add: pb_series_def edge_series_def)
  show ?thesis
  proof (cases "totals = []")
    case True
    with assms(3) t have "px' = px" by (simp add: flush_edges_def)
    with True law show ?thesis by (intro conjI exI [of _ "[]"]) (simp_all add: edge_view_def assms(4))
  next
    case False
    with assms(3) t obtain pb body where
      pb: "encode_write_request (pw_prost W) (map (edge_series (server_now_ms (pw_wall W))) totals) = Ok pb"
      and body: "pw_snap W pb = Inr body"
      and px': "px' = px\<lparr>px_posted := px_posted px @ [remote_write_request inn body]\<rparr>"
      by (auto simp: flush_edges_def Let_def post_remote_write_eq)
    from encode_write_request_Ok [OF assms(2) pb] body px' False law show ?thesis
      by (intro conjI exI [of _ totals]) (auto simp: edge_view_def assms(4) s comp_def totals_request_def)
  qed
qed

theorem flush_posts_totals_witness:
  "\<exists>px'. flush_edges (sample_proxy no_content) sample_prom_inner
     \<lparr>px_redis = [((DEFAULT_EDGE_HASH_KEY, ''remote_write_ok''), 3)], px_posted = []\<rparr> = (Ok (), px') \<and>
     length (px_posted px') = 1"
proof -
  let ?W = "sample_proxy no_content"
  let ?px = "\<lparr>px_redis = [((DEFAULT_EDGE_HASH_KEY, ''remote_write_ok''), 3 :: i64)], px_posted = []\<rparr>"
  have t: "edge_totals sample_redis (pi_edges sample_prom_inner) (px_redis ?px) = Ok [(''remote_write_ok'', 3)]"
    by (simp add: edge_totals_def sample_redis_def sample_fields_def List.map_filter_simps keep_total_def)
  obtain px' where f: "flush_edges ?W sample_prom_inner ?px = (Ok (), px')"
    using t by (simp add: flush_edges_def Let_def post_remote_write_eq encode_write_request_def sample_prost_def
        prepare_remote_write_body_def)
  have v: "rs_view sample_redis (px_redis ?px) DEFAULT_EDGE_HASH_KEY ''remote_write_ok'' = Some 3"
    by (simp add: sample_redis_def)
  have ok: "redis_ok (pw_redis ?W)" "prost_ok (pw_prost ?W)" by (simp_all add: sample_redis_ok sample_prost_ok)
  from flush_posts_totals [OF ok f refl] obtain totals where
    m: "\<forall>k v. (k, v) \<in> set totals \<longleftrightarrow> rs_view (pw_redis ?W) (px_redis ?px)
      (es_hash_key (pi_edges sample_prom_inner)) k = Some v \<and> 0 \<le> sint v"
    and l: "if totals = [] then px_posted px' = px_posted ?px
      else \<exists>pb body. px_posted px' = px_posted ?px @ [remote_write_request sample_prom_inner body] \<and>
        pw_snap ?W pb = Inr body \<and>
        pb_decode (pw_prost ?W) pb = Inr (totals_request (server_now_ms (pw_wall ?W)) totals)"
    by (elim conjE exE)
  have "(''remote_write_ok'', 3) \<in> set totals"
    using m [rule_format, of "''remote_write_ok''" 3] v by simp
  then have "totals \<noteq> []" by auto
  with l have "length (px_posted px') = 1" by auto
  with f show ?thesis by blast
qed

end
