(* ===== verification/Prom_Serve.thy ===== *)
theory Prom_Serve
  imports Prom_Server
begin

text \<open>
  The proxy as it runs, \<open>Server::spawn_with_ready\<close> of \<open>src/prom_proxy/server.rs\<close>. \<open>serve\<close>
  is the server fed with a sequence of events: accepted connections, ticks of the flush timer
  and failures of \<open>accept\<close>, each with the outside world it meets. \<open>px_step\<close> is the same
  server with its tasks interleaved: a connection forwards its frame in one step and counts
  the outcome in another, the flush task reads the totals in one step and posts them in
  another, and any other task may run between. \<open>px_reach\<close> are the states the tasks can get to.
  The tasks are those of one proxy: no other program writes its Redis hash meanwhile, although
  \<open>edge.rs\<close> offers its stores (\<open>EdgeStoreBlocking\<close> among them) to any number of writers.
\<close>

section \<open>The server over a sequence of events\<close>

datatype 'r server_event =
  Accepted "'r prom_world" stream
| Accept_Failed io_error
| Flush_Tick "'r prom_world"

text \<open>
  The server's state besides the proxy state: whether the flush task is alive, what each
  connection was sent, and the result of the accept loop once it has one.
\<close>

record 'r serving =
  sv_px :: "'r proxy_state"
  sv_flushing :: bool
  sv_replies :: "bytes list"
  sv_result :: "prom_server_error option"

fun is_panic :: "('e, 'a) res \<Rightarrow> bool" where
  "is_panic (Panic p) = True"
| "is_panic _ = False"

fun serve_event :: "prom_inner \<Rightarrow> 'r server_event \<Rightarrow> 'r serving \<Rightarrow> 'r serving" where
  "serve_event inn (Accepted W c) s =
     (if sv_result s = None
      then let (_, px, w) = prom_handle_conn W inn c (sv_px s) in
        s\<lparr>sv_px := px, sv_replies := sv_replies s @ [sk_out w]\<rparr>
      else s)"
| "serve_event inn (Accept_Failed e) s =
     (if sv_result s = None then s\<lparr>sv_result := Some (PSrvE_Io e)\<rparr> else s)"
| "serve_event inn (Flush_Tick W) s =
     (if sv_flushing s
      then let (r, px) = flush_edges W inn (sv_px s) in s\<lparr>sv_px := px, sv_flushing := \<not> is_panic r\<rparr>
      else s)"

definition serve :: "prom_inner \<Rightarrow> 'r server_event list \<Rightarrow> 'r serving \<Rightarrow> 'r serving" where
  "serve inn events s = fold (serve_event inn) events s"

text \<open>Binding comes first; the receiver of the bound address is told before anything is served.\<close>

definition spawn_with_ready ::
  "(socket_addr \<Rightarrow> io_error + 'l) \<Rightarrow> ('l \<Rightarrow> io_error + socket_addr) \<Rightarrow> prom_inner \<Rightarrow>
   'r server_event list \<Rightarrow> 'r proxy_state \<Rightarrow> socket_addr option \<times> 'r serving" where
  "spawn_with_ready bind local_addr inn events px =
     (let failed = (\<lambda>e. (None, \<lparr>sv_px = px, sv_flushing = False, sv_replies = [],
                              sv_result = Some (PSrvE_Io e)\<rparr>)) in
      case bind (pc_listen (pi_config inn)) of
        Inl e \<Rightarrow> failed e
      | Inr listener \<Rightarrow>
          (case local_addr listener of
             Inl e \<Rightarrow> failed e
           | Inr addr \<Rightarrow>
               (Some addr, serve inn events \<lparr>sv_px = px, sv_flushing = True, sv_replies = [],
                                            sv_result = None\<rparr>)))"

text \<open>\<open>spawn\<close> drops the receiver of the address, \<open>spawn_with_addr\<close> hands it out.\<close>

definition prom_spawn ::
  "(socket_addr \<Rightarrow> io_error + 'l) \<Rightarrow> ('l \<Rightarrow> io_error + socket_addr) \<Rightarrow> prom_inner \<Rightarrow>
   'r server_event list \<Rightarrow> 'r proxy_state \<Rightarrow> 'r serving" where
  "prom_spawn bind local_addr inn events px = snd (spawn_with_ready bind local_addr inn events px)"

definition prom_spawn_with_addr ::
  "(socket_addr \<Rightarrow> io_error + 'l) \<Rightarrow> ('l \<Rightarrow> io_error + socket_addr) \<Rightarrow> prom_inner \<Rightarrow>
   'r server_event list \<Rightarrow> 'r proxy_state \<Rightarrow> 'r serving \<times> socket_addr option" where
  "prom_spawn_with_addr bind local_addr inn events px =
     (let (addr, sv) = spawn_with_ready bind local_addr inn events px in (sv, addr))"

section \<open>The server with its tasks interleaved\<close>

datatype flush_pc = Waiting | Have_Totals "(string \<times> u64) list"

text \<open>
  \<open>xs_pending\<close> holds the counters of the frames that are forwarded and not counted yet. What
  was counted, what could not be counted and the totals posted are kept for the statements.
\<close>

record 'r px_sys =
  xs_px :: "'r proxy_state"
  xs_pending :: "string multiset"
  xs_counted :: "string multiset"
  xs_lost :: "string multiset"
  xs_flush :: flush_pc
  xs_flushed :: "(string \<times> u64) list list"

inductive px_step :: "'r redis \<Rightarrow> prom_inner \<Rightarrow> 'r px_sys \<Rightarrow> 'r px_sys \<Rightarrow> bool" for R inn where
  forward: "pw_redis W = R \<Longrightarrow> read_frame (pw_codec W) (pw_key W) (st_rd (c :: stream)) = Ok (f, rest) \<Longrightarrow>
    f_message_type f = pc_message_type (pi_config inn) \<Longrightarrow>
    forward_frame W inn f (xs_px s) = (u, px) \<Longrightarrow>
    px_step R inn s (s\<lparr>xs_px := px, xs_pending := add_mset (outcome_key u) (xs_pending s)\<rparr>)"
| counted: "pw_redis W = R \<Longrightarrow> key \<in># xs_pending s \<Longrightarrow> incr_edge W inn key (xs_px s) = (Ok (), px) \<Longrightarrow>
    px_step R inn s (s\<lparr>xs_px := px, xs_pending := xs_pending s - {#key#},
      xs_counted := add_mset key (xs_counted s)\<rparr>)"
| not_counted: "pw_redis W = R \<Longrightarrow> key \<in># xs_pending s \<Longrightarrow> incr_edge W inn key (xs_px s) = (Err e, px) \<Longrightarrow>
    px_step R inn s (s\<lparr>xs_px := px, xs_pending := xs_pending s - {#key#},
      xs_lost := add_mset key (xs_lost s)\<rparr>)"
| read_totals: "xs_flush s = Waiting \<Longrightarrow> edge_totals R (pi_edges inn) (px_redis (xs_px s)) = Ok totals \<Longrightarrow>
    totals \<noteq> [] \<Longrightarrow> px_step R inn s (s\<lparr>xs_flush := Have_Totals totals\<rparr>)"
| post_totals: "xs_flush s = Have_Totals totals \<Longrightarrow> pw_redis W = R \<Longrightarrow>
    encode_write_request (pw_prost W) (map (edge_series (server_now_ms (pw_wall W))) totals) = Ok pb \<Longrightarrow>
    pw_snap W pb = Inr body \<Longrightarrow> post_remote_write W inn body (xs_px s) = (r, px) \<Longrightarrow>
    px_step R inn s (s\<lparr>xs_px := px, xs_flush := Waiting, xs_flushed := xs_flushed s @ [totals]\<rparr>)"
| drop_totals: "xs_flush s = Have_Totals totals \<Longrightarrow> px_step R inn s (s\<lparr>xs_flush := Waiting\<rparr>)"

inductive_cases px_stepE [consumes 1, case_names forward counted not_counted read_totals post_totals drop_totals]:
  "px_step R inn s s'"

definition px_start :: "'r proxy_state \<Rightarrow> 'r px_sys" where
  "px_start px = \<lparr>xs_px = px, xs_pending = {#}, xs_counted = {#}, xs_lost = {#}, xs_flush = Waiting,
                  xs_flushed = []\<rparr>"

inductive px_reach :: "'r redis \<Rightarrow> prom_inner \<Rightarrow> 'r proxy_state \<Rightarrow> 'r px_sys \<Rightarrow> bool" for R inn px where
  init: "px_reach R inn px (px_start px)"
| step: "px_reach R inn px s \<Longrightarrow> px_step R inn s s' \<Longrightarrow> px_reach R inn px s'"

section \<open>Invariant\<close>

text \<open>The totals the flush task holds or has posted, oldest first.\<close>

fun flush_totals :: "flush_pc \<Rightarrow> (string \<times> u64) list list" where
  "flush_totals Waiting = []"
| "flush_totals (Have_Totals totals) = [totals]"

definition not_above :: "(string \<times> u64) list \<Rightarrow> (string \<times> u64) list \<Rightarrow> bool" where
  "not_above ts us \<longleftrightarrow> (\<forall>k v w. (k, v) \<in> set ts \<longrightarrow> (k, w) \<in> set us \<longrightarrow> sint v \<le> sint w)"

definition at_most :: "'r redis \<Rightarrow> prom_inner \<Rightarrow> 'r \<Rightarrow> (string \<times> u64) list \<Rightarrow> bool" where
  "at_most R inn db ts \<longleftrightarrow>
     (\<forall>k v. (k, v) \<in> set ts \<longrightarrow> sint v \<le> old_value (edge_view (R, pi_edges inn) db k))"

lemma at_most_mono:
  assumes "at_most R inn db ts"
    and "\<And>k. old_value (edge_view (R, pi_edges inn) db k) \<le> old_value (edge_view (R, pi_edges inn) db' k)"
  shows "at_most R inn db' ts"
  using assms unfolding at_most_def by (blast intro: order_trans)

definition px_inv :: "'r redis \<Rightarrow> prom_inner \<Rightarrow> 'r proxy_state \<Rightarrow> 'r px_sys \<Rightarrow> bool" where
  "px_inv R inn px s \<longleftrightarrow>
     (\<forall>k. (let grown = old_value (edge_view (R, pi_edges inn) (px_redis (xs_px s)) k) -
               old_value (edge_view (R, pi_edges inn) (px_redis px) k) in
        int (count (xs_counted s) k) \<le> grown \<and>
        grown \<le> int (count (xs_counted s) k) + int (count (xs_lost s) k) \<and>
        (replies_arrive R \<longrightarrow> grown = int (count (xs_counted s) k)))) \<and>
     length (px_posted (xs_px s)) =
       length (px_posted px) + size (xs_pending s + xs_counted s + xs_lost s) + length (xs_flushed s) \<and>
     (\<forall>ts\<in>set (xs_flushed s @ flush_totals (xs_flush s)). at_most R inn (px_redis (xs_px s)) ts) \<and>
     sorted_wrt not_above (xs_flushed s @ flush_totals (xs_flush s))"

text \<open>An increment: one counter is one higher, and no key disappears.\<close>

lemma incremented_one:
  assumes "incremented view key 1 r r'"
  shows "old_value (view r' k) = old_value (view r k) + (if k = key then 1 else 0)"
    and "view r k = Some w \<Longrightarrow> \<exists>w'. view r' k = Some w' \<and> sint w \<le> sint w'"
proof -
  note law = assms [unfolded incremented_def]
  show o: "old_value (view r' k) = old_value (view r k) + (if k = key then 1 else 0)" for k
    using law by simp
  assume w: "view r k = Some w"
  show "\<exists>w'. view r' k = Some w' \<and> sint w \<le> sint w'"
  proof (cases "k = key")
    case True
    with law w o [of key] show ?thesis by (auto simp: old_value_def)
  qed (use law w in simp)
qed

lemma counted_view:
  assumes "redis_ok (pw_redis W)" "incr_edge W inn key px = (Ok (), px')"
  shows "old_value (edge_view (pw_redis W, pi_edges inn) (px_redis px') k) =
      old_value (edge_view (pw_redis W, pi_edges inn) (px_redis px) k) + (if k = key then 1 else 0)"
    and "edge_view (pw_redis W, pi_edges inn) (px_redis px) k = Some w \<Longrightarrow>
      \<exists>w'. edge_view (pw_redis W, pi_edges inn) (px_redis px') k = Some w' \<and> sint w \<le> sint w'"
    and "px_posted px' = px_posted px"
proof -
  have "incremented (edge_view (pw_redis W, pi_edges inn)) key 1 (px_redis px) (px_redis px')"
    using incr_edge_view(4) [OF assms] by simp
  note i = incremented_one [OF this]
  show "old_value (edge_view (pw_redis W, pi_edges inn) (px_redis px') k) =
      old_value (edge_view (pw_redis W, pi_edges inn) (px_redis px) k) + (if k = key then 1 else 0)" by (rule i(1))
  show "edge_view (pw_redis W, pi_edges inn) (px_redis px) k = Some w \<Longrightarrow>
      \<exists>w'. edge_view (pw_redis W, pi_edges inn) (px_redis px') k = Some w' \<and> sint w \<le> sint w'" by (rule i(2))
  show "px_posted px' = px_posted px" by (rule incr_edge_view(1) [OF assms])
qed

text \<open>
  A failed increment: nothing has changed, or, when only the reply was lost, it was carried
  out all the same.
\<close>

lemma not_counted_view:
  assumes "redis_ok (pw_redis W)" "incr_edge W inn key px = (Err e, px')"
  defines "v \<equiv> edge_view (pw_redis W, pi_edges inn) (px_redis px)"
    and "v' \<equiv> edge_view (pw_redis W, pi_edges inn) (px_redis px')"
  obtains "v' = v" "px_posted px' = px_posted px"
  | "\<not> replies_arrive (pw_redis W)" "px_posted px' = px_posted px"
    "\<And>k. old_value (v' k) = old_value (v k) + (if k = key then 1 else 0)"
    "\<And>k w. v k = Some w \<Longrightarrow> \<exists>w'. v' k = Some w' \<and> sint w \<le> sint w'"
proof (cases "v' = v")
  case True
  with that(1) incr_edge_view(1) [OF assms(1,2)] show thesis by blast
next
  case False
  with incr_edge_view(5) [OF assms(1,2)] have i:
    "incremented (edge_view (pw_redis W, pi_edges inn)) key 1 (px_redis px) (px_redis px')"
    by (auto simp: v_def v'_def)
  have "\<not> replies_arrive (pw_redis W)" using incr_edge_view(6) [OF assms(1,2)] False by (auto simp: v_def v'_def)
  with that(2) incr_edge_view(1) [OF assms(1,2)] incremented_one [OF i] show thesis
    by (simp add: v_def v'_def)
qed

lemma not_counted_at_most:
  assumes "redis_ok (pw_redis W)" "incr_edge W inn key px = (Err e, px')"
  shows "old_value (edge_view (pw_redis W, pi_edges inn) (px_redis px) k) \<le>
    old_value (edge_view (pw_redis W, pi_edges inn) (px_redis px') k)"
  by (rule not_counted_view [OF assms]) simp_all

lemma px_step_inv:
  assumes "redis_ok R" "px_inv R inn px s" "px_step R inn s s'"
  shows "px_inv R inn px s'"
  using assms(3)
proof (cases rule: px_stepE)
  case (forward W c f rest u px')
  then have "px' = (xs_px s)\<lparr>px_posted := px_posted (xs_px s) @ [remote_write_request inn (f_data f)]\<rparr>"
    by (simp add: forward_frame_def post_remote_write_eq)
  with forward(1) assms(2) show ?thesis by (simp add: px_inv_def)
next
  case (counted W key px')
  note p = size_Suc_Diff1 [OF counted(3), symmetric]
  have v: "old_value (edge_view (R, pi_edges inn) (px_redis px') k) =
      old_value (edge_view (R, pi_edges inn) (px_redis (xs_px s)) k) + (if k = key then 1 else 0)" for k
    using counted_view(1) [OF _ counted(4)] assms(1) counted(2) by simp
  have "px_posted px' = px_posted (xs_px s)"
    using counted_view(3) [OF _ counted(4)] assms(1) counted(2) by simp
  with assms(2) p at_most_mono [of R inn "px_redis (xs_px s)" _ "px_redis px'"] show ?thesis
    by (simp add: px_inv_def counted(1) v Let_def algebra_simps)
next
  case (not_counted W key e px')
  note p = size_Suc_Diff1 [OF not_counted(3), symmetric]
  have ok: "redis_ok (pw_redis W)" using assms(1) not_counted(2) by simp
  have am: "at_most R inn (px_redis (xs_px s)) ts \<Longrightarrow> at_most R inn (px_redis px') ts" for ts
    by (erule at_most_mono) (rule not_counted_at_most [OF ok not_counted(4), unfolded not_counted(2)])
  let ?g = "\<lambda>px' k. old_value (edge_view (R, pi_edges inn) (px_redis px') k) -
      old_value (edge_view (R, pi_edges inn) (px_redis px) k)"
  have g: "int (count (xs_counted s) k) \<le> ?g (xs_px s) k"
    "?g (xs_px s) k \<le> int (count (xs_counted s) k) + int (count (xs_lost s) k)"
    "replies_arrive R \<Longrightarrow> ?g (xs_px s) k = int (count (xs_counted s) k)" for k
    using assms(2) unfolding px_inv_def Let_def by blast+
  have up: "?g (xs_px s) k + (if k = key then 1 else 0) \<le>
      int (count (xs_counted s) k) + int (count (add_mset key (xs_lost s)) k)"
    "?g (xs_px s) k \<le> int (count (xs_counted s) k) + int (count (add_mset key (xs_lost s)) k)" for k
    using g(2) [of k] by (cases "k = key"; simp)+
  have rest: "length (px_posted (xs_px s)) =
      length (px_posted px) + size (xs_pending s + xs_counted s + xs_lost s) + length (xs_flushed s)"
    "\<forall>ts\<in>set (xs_flushed s @ flush_totals (xs_flush s)). at_most R inn (px_redis (xs_px s)) ts"
    "sorted_wrt not_above (xs_flushed s @ flush_totals (xs_flush s))"
    using assms(2) unfolding px_inv_def by blast+
  have inv: ?thesis if "px_posted px' = px_posted (xs_px s)"
      "\<And>k. int (count (xs_counted s) k) \<le> ?g px' k"
      "\<And>k. ?g px' k \<le> int (count (xs_counted s) k) + int (count (add_mset key (xs_lost s)) k)"
      "\<And>k. replies_arrive R \<Longrightarrow> ?g px' k = int (count (xs_counted s) k)"
    using that rest p am unfolding px_inv_def Let_def not_counted(1) by simp
  show ?thesis
  proof (rule not_counted_view [OF ok not_counted(4)])
    assume "edge_view (pw_redis W, pi_edges inn) (px_redis px') =
        edge_view (pw_redis W, pi_edges inn) (px_redis (xs_px s))" "px_posted px' = px_posted (xs_px s)"
    with g(1,3) up(2) show ?thesis by (intro inv) (simp_all only: not_counted(2))
  next
    assume v: "\<not> replies_arrive (pw_redis W)" "px_posted px' = px_posted (xs_px s)"
      "\<And>k. old_value (edge_view (pw_redis W, pi_edges inn) (px_redis px') k) =
        old_value (edge_view (pw_redis W, pi_edges inn) (px_redis (xs_px s)) k) + (if k = key then 1 else 0)"
    have "?g px' k = ?g (xs_px s) k + (if k = key then 1 else 0)" for k
      using v(3) [of k] by (simp add: not_counted(2))
    note g' = this
    show ?thesis
    proof (rule inv)
      show "px_posted px' = px_posted (xs_px s)" by (rule v(2))
      show "int (count (xs_counted s) k) \<le> ?g px' k" for k using g(1) [of k] g' [of k] by (cases "k = key"; simp)
      show "?g px' k \<le> int (count (xs_counted s) k) + int (count (add_mset key (xs_lost s)) k)" for k
        unfolding g' by (rule up(1))
      show "?g px' k = int (count (xs_counted s) k)" if "replies_arrive R" for k
        using that v(1) not_counted(2) by simp
    qed
  qed
next
  case (read_totals totals)
  note law = edge_totals_Ok [OF assms(1) read_totals(3)]
  have t: "(k, v) \<in> set totals \<Longrightarrow> sint v = old_value (edge_view (R, pi_edges inn) (px_redis (xs_px s)) k)" for k v
    using law by (auto simp: old_value_def)
  have "not_above ts totals" if "ts \<in> set (xs_flushed s)" for ts
    using assms(2) that t by (fastforce simp: not_above_def px_inv_def at_most_def)
  then show ?thesis
    using assms(2) t read_totals(1,2) by (auto simp: px_inv_def sorted_wrt_append at_most_def)
next
  case (post_totals totals W pb body r px')
  then have "px' = (xs_px s)\<lparr>px_posted := px_posted (xs_px s) @ [remote_write_request inn body]\<rparr>"
    by (simp add: post_remote_write_eq)
  with post_totals(1,2) assms(2) show ?thesis by (simp add: px_inv_def)
next
  case (drop_totals totals)
  with assms(2) show ?thesis by (simp add: px_inv_def sorted_wrt_append)
qed

lemma px_reach_inv:
  assumes "redis_ok R" "px_reach R inn px s"
  shows "px_inv R inn px s"
  using assms(2)
proof (induction rule: px_reach.induct)
  case init
  show ?case by (simp add: px_inv_def px_start_def)
next
  case (step s s')
  from px_step_inv [OF assms(1) step.IH step.hyps(2)] show ?case .
qed

section \<open>The sequential server is one of the interleavings\<close>

lemma forward_frame_eq:
  "forward_frame W inn f px =
     (upstream W inn (f_data f), px\<lparr>px_posted := px_posted px @ [remote_write_request inn (f_data f)]\<rparr>)"
  by (simp add: forward_frame_def post_remote_write_eq)

text \<open>What a connection leaves of the proxy state, however its reply goes.\<close>

lemma prom_handle_conn_px:
  assumes "redis_ok (pw_redis W)" "read_frame (pw_codec W) (pw_key W) (st_rd c) = Ok (f, rest)"
    and "forward_frame W inn f px = (u, px1)" "incr_edge W inn (outcome_key u) px1 = (r, px2)"
  shows "fst (snd (prom_handle_conn W inn c px)) =
     (if f_message_type f = pc_message_type (pi_config inn) then px2 else px)"
proof (cases "f_message_type f = pc_message_type (pi_config inn)")
  case True
  have np: "\<not> is_panic r"
    using incr_edge_view(2) [OF assms(1,4)] by (metis is_panic.elims(2))
  show ?thesis
  proof (cases u)
    case (Ok status)
    with assms(4) have "incr_edge W inn ''remote_write_ok'' px1 = (r, px2)" by (simp add: outcome_key_def)
    with np Ok True show ?thesis
      by (cases r) (simp_all add: prom_handle_conn_def assms(2,3) with_px_def split: sum.splits)
  next
    case (Err e)
    with assms(4) have "incr_edge W inn ''remote_write_err'' px1 = (r, px2)" by (simp add: outcome_key_def)
    with np Err True show ?thesis
      by (cases r) (simp_all add: prom_handle_conn_def assms(2,3) with_px_def)
  next
    case (Panic p)
    with assms(3) upstream_not_Panic show ?thesis by (metis forward_frame_eq prod.inject)
  qed
qed (simp add: prom_handle_conn_def assms(2) with_px_def)

text \<open>A pending outcome is counted or lost by one increment.\<close>

lemma count_step:
  assumes "redis_ok R" "pw_redis W = R" "key \<in># xs_pending s" "incr_edge W inn key (xs_px s) = (r, px2)"
  shows "\<exists>s'. px_step R inn s s' \<and> xs_px s' = px2 \<and> xs_pending s' = xs_pending s - {#key#} \<and>
    xs_flush s' = xs_flush s"
proof (cases r)
  case (Ok y)
  with px_step.counted [OF assms(2,3), where px = px2] assms(4) show ?thesis by force
next
  case (Err e)
  with px_step.not_counted [OF assms(2,3), where px = px2 and e = e] assms(4) show ?thesis by force
next
  case (Panic p)
  with incr_edge_view(2) [OF assms(1) [folded assms(2)] assms(4)] show ?thesis by blast
qed

lemma conn_reach:
  assumes "redis_ok R" "px_reach R inn px s" "pw_redis W = R"
  shows "\<exists>s'. px_reach R inn px s' \<and> xs_px s' = fst (snd (prom_handle_conn W inn c (xs_px s))) \<and>
    xs_pending s' = xs_pending s \<and> xs_flush s' = xs_flush s"
proof -
  have same: ?thesis if "fst (snd (prom_handle_conn W inn c (xs_px s))) = xs_px s"
    using assms(2) that by (intro exI [of _ s]) simp
  show ?thesis
  proof (cases "read_frame (pw_codec W) (pw_key W) (st_rd c)")
    case (Ok x)
    obtain f rest where rd: "read_frame (pw_codec W) (pw_key W) (st_rd c) = Ok (f, rest)"
      using Ok by (cases x) simp
    obtain u px1 where f: "forward_frame W inn f (xs_px s) = (u, px1)" by (metis surj_pair)
    obtain r px2 where i: "incr_edge W inn (outcome_key u) px1 = (r, px2)" by (metis surj_pair)
    note px = prom_handle_conn_px [OF assms(1) [folded assms(3)] rd f i]
    show ?thesis
    proof (cases "f_message_type f = pc_message_type (pi_config inn)")
      case True
      let ?s1 = "s\<lparr>xs_px := px1, xs_pending := add_mset (outcome_key u) (xs_pending s)\<rparr>"
      have r1: "px_reach R inn px ?s1"
        using assms(2) px_step.forward [OF assms(3) rd True f] by (rule px_reach.step)
      obtain s' where s': "px_step R inn ?s1 s'" "xs_px s' = px2" "xs_pending s' = xs_pending s"
        "xs_flush s' = xs_flush s"
        using count_step [OF assms(1,3), of "outcome_key u" ?s1 inn r px2] i by auto
      with px_reach.step [OF r1 s'(1)] px True show ?thesis by (intro exI [of _ s']) simp
    qed (use px in \<open>intro same, simp\<close>)
  qed (intro same, simp add: prom_handle_conn_def)+
qed

lemma flush_reach:
  assumes "px_reach R inn px s" "pw_redis W = R" "xs_flush s = Waiting"
  shows "\<exists>s'. px_reach R inn px s' \<and> xs_px s' = snd (flush_edges W inn (xs_px s)) \<and>
    xs_pending s' = xs_pending s \<and> xs_flush s' = Waiting"
proof -
  have same: ?thesis if "snd (flush_edges W inn (xs_px s)) = xs_px s"
    using assms that by (intro exI [of _ s]) simp
  show ?thesis
  proof (cases "edge_totals R (pi_edges inn) (px_redis (xs_px s))")
    case (Ok totals)
    note t = Ok
    define pb where "pb = encode_write_request (pw_prost W) (map (edge_series (server_now_ms (pw_wall W))) totals)"
    show ?thesis
    proof (cases "totals = [] \<or> \<not> (\<exists>b body. pb = Ok b \<and> pw_snap W b = Inr body)")
      case True
      then show ?thesis
        using t assms(2)
        by (intro same, cases pb)
           (auto simp: flush_edges_def Let_def pb_def [symmetric] prepare_remote_write_body_def split: sum.splits)
    next
      case False
      then obtain b body where b: "pb = Ok b" "pw_snap W b = Inr body" and ne: "totals \<noteq> []" by blast
      obtain r px1 where p: "post_remote_write W inn body (xs_px s) = (r, px1)"
        by (cases "post_remote_write W inn body (xs_px s)")
      let ?s1 = "s\<lparr>xs_flush := Have_Totals totals\<rparr>"
      have "px_reach R inn px ?s1"
        using assms(1) px_step.read_totals [OF assms(3) t ne] by (rule px_reach.step)
      moreover have "px_step R inn ?s1 (?s1\<lparr>xs_px := px1, xs_flush := Waiting, xs_flushed := xs_flushed ?s1 @ [totals]\<rparr>)"
        using b p by (intro px_step.post_totals [where W = W]) (simp_all add: assms(2) pb_def)
      ultimately have "px_reach R inn px (?s1\<lparr>xs_px := px1, xs_flush := Waiting, xs_flushed := xs_flushed ?s1 @ [totals]\<rparr>)"
        by (rule px_reach.step)
      moreover have "snd (flush_edges W inn (xs_px s)) = px1"
        using t b ne p assms(2)
        by (cases r) (auto simp: flush_edges_def Let_def pb_def prepare_remote_write_body_def)
      ultimately show ?thesis by (metis px_sys.select_convs(1,2,5) px_sys.surjective px_sys.update_convs(1,5,6))
    qed
  qed (use assms(2) in \<open>intro same, simp add: flush_edges_def\<close>)+
qed

section \<open>Properties\<close>

text \<open>The events whose worlds use one Redis.\<close>

fun event_redis :: "'r redis \<Rightarrow> 'r server_event \<Rightarrow> bool" where
  "event_redis R (Accepted W c) = (pw_redis W = R)"
| "event_redis R (Flush_Tick W) = (pw_redis W = R)"
| "event_redis R (Accept_Failed e) = True"

lemma serve_reach:
  assumes "redis_ok R" "\<forall>ev\<in>set events. event_redis R ev"
    and "px_reach R inn px s" "xs_px s = sv_px v" "xs_pending s = {#}" "xs_flush s = Waiting"
  shows "\<exists>s'. px_reach R inn px s' \<and> xs_px s' = sv_px (serve inn events v) \<and> xs_pending s' = {#} \<and>
    xs_flush s' = Waiting"
  using assms(2-6)
proof (induction events arbitrary: s v)
  case Nil
  then show ?case by (auto simp: serve_def)
next
  case (Cons ev events)
  have "\<exists>s1. px_reach R inn px s1 \<and> xs_px s1 = sv_px (serve_event inn ev v) \<and> xs_pending s1 = {#} \<and>
      xs_flush s1 = Waiting"
  proof (cases "sv_px (serve_event inn ev v) = sv_px v")
    case True
    with Cons.prems show ?thesis by auto
  next
    case False
    show ?thesis
    proof (cases ev)
      case (Accepted W c)
      with Cons.prems have "pw_redis W = R" by simp
      from conn_reach [OF assms(1) Cons.prems(2) this, of c] Cons.prems False Accepted show ?thesis
        by (auto simp: case_prod_beta split: if_splits)
    next
      case (Flush_Tick W)
      with Cons.prems have "pw_redis W = R" by simp
      from flush_reach [OF Cons.prems(2) this Cons.prems(5)] Cons.prems False Flush_Tick show ?thesis
        by (auto simp: case_prod_beta split: if_splits)
    qed (use False in \<open>auto split: if_splits\<close>)
  qed
  then obtain s1 where s1: "px_reach R inn px s1" "xs_px s1 = sv_px (serve_event inn ev v)"
    "xs_pending s1 = {#}" "xs_flush s1 = Waiting" by blast
  have "\<forall>ev\<in>set events. event_redis R ev" using Cons.prems(1) by simp
  from Cons.IH [OF this s1] show ?case by (simp add: serve_def)
qed

lemma px_start_simps [simp]:
  "xs_px (px_start px) = px" "xs_pending (px_start px) = {#}" "xs_flush (px_start px) = Waiting"
  "xs_counted (px_start px) = {#}" "xs_lost (px_start px) = {#}" "xs_flushed (px_start px) = []"
  by (simp_all add: px_start_def)

lemma sample_flush_reach:
  assumes "px_reach sample_redis sample_prom_inner px s" "xs_flush s = Waiting" "totals \<noteq> []"
    and "edge_totals sample_redis (pi_edges sample_prom_inner) (px_redis (xs_px s)) = Ok totals"
  shows "\<exists>s'. px_reach sample_redis sample_prom_inner px s' \<and> xs_flushed s' = xs_flushed s @ [totals] \<and>
    px_redis (xs_px s') = px_redis (xs_px s) \<and> xs_flush s' = Waiting"
proof -
  let ?W = "sample_proxy no_content" and ?s1 = "s\<lparr>xs_flush := Have_Totals totals\<rparr>"
  obtain pb where pb: "encode_write_request sample_prost (map (edge_series (server_now_ms 5000000)) totals) = Ok pb"
    by (simp add: encode_write_request_def sample_prost_def)
  let ?s2 = "?s1\<lparr>xs_px := snd (post_remote_write ?W sample_prom_inner pb (xs_px s)), xs_flush := Waiting,
      xs_flushed := xs_flushed s @ [totals]\<rparr>"
  have "px_reach sample_redis sample_prom_inner px ?s1"
    using assms(1) px_step.read_totals [OF assms(2,4,3)] by (rule px_reach.step)
  moreover have "px_step sample_redis sample_prom_inner ?s1 ?s2"
    using px_step.post_totals [of ?s1 totals ?W sample_redis pb pb sample_prom_inner] pb
    by (simp add: post_remote_write_eq)
  ultimately have "px_reach sample_redis sample_prom_inner px ?s2" by (rule px_reach.step)
  then show ?thesis by (intro exI [of _ ?s2]) (simp add: post_remote_write_eq)
qed

definition sample_counters :: "((string \<times> string) \<times> i64) list proxy_state" where
  "sample_counters = \<lparr>px_redis = [((DEFAULT_EDGE_HASH_KEY, ''remote_write_ok''), 3)], px_posted = []\<rparr>"

lemma sample_counters_totals:
  "edge_totals sample_redis (pi_edges sample_prom_inner) (px_redis sample_counters) = Ok [(''remote_write_ok'', 3)]"
  by (simp add: edge_totals_def sample_redis_def sample_fields_def List.map_filter_simps keep_total_def
      sample_counters_def)

lemma sample_start_totals:
  "edge_totals sample_redis (pi_edges sample_prom_inner) (px_redis (xs_px (px_start sample_counters))) =
     Ok [(''remote_write_ok'', 3)]"
  by (simp add: sample_counters_totals)

text \<open>
  C11: In every interleaving of connections and flushes, each counter has grown by exactly the
  number of outcomes counted under it, as long as no reply of Redis is lost; without that, by
  at least the outcomes Redis confirmed and at most those and the ones it reported an error
  for. And every request the upstream got is accounted for once: as an outcome that is pending,
  counted or lost to a Redis failure, or as a flush.
\<close>

theorem outcomes_accounted:
  assumes "redis_ok R" "px_reach R inn px s"
  shows "(\<forall>key. (let grown = old_value (edge_view (R, pi_edges inn) (px_redis (xs_px s)) key) -
           old_value (edge_view (R, pi_edges inn) (px_redis px) key) in
      int (count (xs_counted s) key) \<le> grown \<and>
      grown \<le> int (count (xs_counted s) key) + int (count (xs_lost s) key) \<and>
      (replies_arrive R \<longrightarrow> grown = int (count (xs_counted s) key)))) \<and>
    length (px_posted (xs_px s)) = length (px_posted px) + size (xs_pending s) +
      size (xs_counted s) + size (xs_lost s) + length (xs_flushed s)"
  using px_reach_inv [OF assms] by (simp add: px_inv_def)

theorem outcomes_accounted_witness:
  "\<exists>s. px_reach sample_redis sample_prom_inner sample_counters s \<and> xs_flushed s \<noteq> [] \<and>
     length (px_posted (xs_px s)) = size (xs_pending s) + size (xs_counted s) + size (xs_lost s) +
       length (xs_flushed s)"
proof -
  obtain s where s: "px_reach sample_redis sample_prom_inner sample_counters s" "xs_flushed s \<noteq> []"
    using sample_flush_reach [OF px_reach.init _ _ sample_start_totals] by auto
  show ?thesis
    using outcomes_accounted [OF sample_redis_ok s(1)] s by (auto simp: sample_counters_def)
qed

text \<open>
  C16: The totals the proxy posts for a key never decrease from one flush to the next, whatever
  runs between and within the flushes, and no posted total is above the counter.
\<close>

theorem flushed_totals_grow:
  assumes "redis_ok R" "px_reach R inn px s" "i < j" "j < length (xs_flushed s)"
    and "(k, v) \<in> set (xs_flushed s ! i)" "(k, w) \<in> set (xs_flushed s ! j)"
  shows "sint v \<le> sint w \<and> sint w \<le> old_value (edge_view (R, pi_edges inn) (px_redis (xs_px s)) k)"
proof -
  from px_reach_inv [OF assms(1,2)] have inv: "sorted_wrt not_above (xs_flushed s)"
    "\<forall>ts\<in>set (xs_flushed s). at_most R inn (px_redis (xs_px s)) ts"
    by (simp_all add: px_inv_def sorted_wrt_append)
  from inv(1) assms(3,4) have "not_above (xs_flushed s ! i) (xs_flushed s ! j)"
    by (simp add: sorted_wrt_iff_nth_less)
  moreover have "at_most R inn (px_redis (xs_px s)) (xs_flushed s ! j)" using inv(2) assms(4) by simp
  ultimately show ?thesis using assms(5,6) by (simp add: not_above_def at_most_def)
qed

theorem flushed_totals_grow_witness:
  "\<exists>s. px_reach sample_redis sample_prom_inner sample_counters s \<and> length (xs_flushed s) = 2 \<and>
     3 \<le> old_value (edge_view (sample_redis, pi_edges sample_prom_inner) (px_redis (xs_px s)) ''remote_write_ok'')"
proof -
  let ?t = "[(''remote_write_ok'', 3 :: u64)]"
  obtain s1 where s1: "px_reach sample_redis sample_prom_inner sample_counters s1" "xs_flushed s1 = [?t]"
    "px_redis (xs_px s1) = px_redis sample_counters" "xs_flush s1 = Waiting"
    using sample_flush_reach [OF px_reach.init _ _ sample_start_totals] by auto
  obtain s where s: "px_reach sample_redis sample_prom_inner sample_counters s" "xs_flushed s = [?t, ?t]"
    using sample_flush_reach [OF s1(1,4) _ sample_counters_totals [folded s1(3)]] s1(2) by auto
  have "sint (3 :: u64) = 3" by simp
  with flushed_totals_grow [OF sample_redis_ok s(1), of 0 1 "''remote_write_ok''" 3 3] s show ?thesis
    by (intro exI [of _ s]) simp
qed

text \<open>
  C17: Serving a sequence of events leads to a state that the interleaved system can reach with
  nothing pending, so what holds of every reachable state holds of the sequential server.
\<close>

theorem serve_refines_interleaving:
  assumes "redis_ok R" "\<forall>ev\<in>set events. event_redis R ev" "sv_px v = px"
  shows "\<exists>s. px_reach R inn px s \<and> xs_px s = sv_px (serve inn events v) \<and> xs_pending s = {#} \<and>
    xs_flush s = Waiting"
  using serve_reach [OF assms(1,2) px_reach.init [of R inn px], of v] assms(3) by simp

theorem serve_refines_interleaving_witness:
  "\<exists>s. px_reach sample_redis sample_prom_inner sample_counters s \<and>
     xs_px s = sv_px (serve sample_prom_inner
       [Accepted (sample_proxy no_content) (plain_conn MSG_REMOTE_WRITE 7 [1, 2, 3]),
        Flush_Tick (sample_proxy no_content), Accept_Failed eof]
       \<lparr>sv_px = sample_counters, sv_flushing = True, sv_replies = [], sv_result = None\<rparr>)"
  using serve_refines_interleaving [OF sample_redis_ok, of
      "[Accepted (sample_proxy no_content) (plain_conn MSG_REMOTE_WRITE 7 [1, 2, 3]),
        Flush_Tick (sample_proxy no_content), Accept_Failed eof]"
      "\<lparr>sv_px = sample_counters, sv_flushing = True, sv_replies = [], sv_result = None\<rparr>"
      sample_counters sample_prom_inner]
  by auto

end
