(* ===== verification/Prom_Spec.thy ===== *)
theory Prom_Spec
  imports Simulation Prom_Serve
begin

text \<open>
  What the proxy promises about its counters, without Redis, frames and tasks: outcomes are
  counted after their request, one at a time, and a report shows values that were true
  between the last report and now. The interleaved system of Prom_Serve implements it
  (\<open>proxy_refines_spec\<close>); there the flush task reads the counters in one step and reports them
  in a later one.
\<close>

section \<open>The specification\<close>

text \<open>
  \<open>ta_reported\<close> is the last report, \<open>ta_requests\<close> how many requests the upstream got, forwarded
  frames and reports alike.
\<close>

record tally =
  ta_counters :: "string \<Rightarrow> int"
  ta_pending :: "string multiset"
  ta_reported :: "string \<rightharpoonup> int"
  ta_requests :: nat

text \<open>A report has every key of the last one, with no smaller value, and exceeds no counter.\<close>

definition may_report :: "tally \<Rightarrow> (string \<rightharpoonup> int) \<Rightarrow> bool" where
  "may_report a t \<longleftrightarrow> t \<noteq> Map.empty \<and>
     (\<forall>k v. ta_reported a k = Some v \<longrightarrow> (\<exists>w. t k = Some w \<and> v \<le> w)) \<and>
     (\<forall>k v. t k = Some v \<longrightarrow> 0 \<le> v \<and> v \<le> ta_counters a k)"

inductive tally_step :: "tally \<Rightarrow> tally \<Rightarrow> bool" where
  request: "k \<in> {''remote_write_ok'', ''remote_write_err''} \<Longrightarrow>
    tally_step a (a\<lparr>ta_pending := add_mset k (ta_pending a), ta_requests := ta_requests a + 1\<rparr>)"
| count: "k \<in># ta_pending a \<Longrightarrow>
    tally_step a (a\<lparr>ta_pending := ta_pending a - {#k#},
      ta_counters := (ta_counters a)(k := ta_counters a k + 1)\<rparr>)"
| lose: "k \<in># ta_pending a \<Longrightarrow> tally_step a (a\<lparr>ta_pending := ta_pending a - {#k#}\<rparr>)"
| report: "may_report a t \<Longrightarrow>
    tally_step a (a\<lparr>ta_reported := t, ta_requests := ta_requests a + 1\<rparr>)"

text \<open>A proxy starts with the counters Redis holds, nothing pending and nothing reported.\<close>

definition tally_start :: "(string \<Rightarrow> int) \<Rightarrow> nat \<Rightarrow> tally" where
  "tally_start counters requests =
     \<lparr>ta_counters = counters, ta_pending = {#}, ta_reported = Map.empty, ta_requests = requests\<rparr>"

definition tally_inv :: "tally \<Rightarrow> bool" where
  "tally_inv a \<longleftrightarrow> set_mset (ta_pending a) \<subseteq> {''remote_write_ok'', ''remote_write_err''} \<and>
     (\<forall>k v. ta_reported a k = Some v \<longrightarrow> 0 \<le> v \<and> v \<le> ta_counters a k)"

lemma tally_step_inv:
  assumes "tally_step a b" "tally_inv a"
  shows "tally_inv b"
  using assms(1)
proof cases
  case (count k)
  with assms(2) show ?thesis by (fastforce simp: tally_inv_def dest: in_diffD)
qed (use assms(2) in \<open>auto simp: tally_inv_def may_report_def dest: in_diffD\<close>)

section \<open>The running proxy seen as the specification\<close>

definition report_of :: "(string \<times> u64) list \<Rightarrow> string \<rightharpoonup> int" where
  "report_of ts k = map_option sint (map_of ts k)"

definition last_report :: "(string \<times> u64) list list \<Rightarrow> string \<rightharpoonup> int" where
  "last_report flushed = (if flushed = [] then Map.empty else report_of (last flushed))"

lemma last_report_simps [simp]:
  "last_report [] = Map.empty" "last_report (flushed @ [ts]) = report_of ts"
  by (simp_all add: last_report_def)

definition tally_abs :: "'r redis \<Rightarrow> prom_inner \<Rightarrow> 'r px_sys \<Rightarrow> tally" where
  "tally_abs R inn s =
     \<lparr>ta_counters = (\<lambda>k. old_value (edge_view (R, pi_edges inn) (px_redis (xs_px s)) k)),
      ta_pending = xs_pending s,
      ta_reported = last_report (xs_flushed s),
      ta_requests = length (px_posted (xs_px s))\<rparr>"

text \<open>
  Totals that were read are those of keys Redis still has, with values that are not above the
  present ones; what the flush task holds covers what it reported last.
\<close>

definition totals_ok :: "'r redis \<Rightarrow> prom_inner \<Rightarrow> 'r \<Rightarrow> (string \<times> u64) list \<Rightarrow> bool" where
  "totals_ok R inn db ts \<longleftrightarrow> ts \<noteq> [] \<and>
     (\<forall>k v. report_of ts k = Some v \<longrightarrow> 0 \<le> v \<and>
        (\<exists>w. edge_view (R, pi_edges inn) db k = Some w \<and> v \<le> sint w))"

definition covers :: "(string \<times> u64) list \<Rightarrow> (string \<times> u64) list \<Rightarrow> bool" where
  "covers us ts \<longleftrightarrow> (\<forall>k v. report_of ts k = Some v \<longrightarrow> (\<exists>w. report_of us k = Some w \<and> v \<le> w))"

definition proxy_inv :: "'r redis \<Rightarrow> prom_inner \<Rightarrow> 'r px_sys \<Rightarrow> bool" where
  "proxy_inv R inn s \<longleftrightarrow>
     (\<forall>ts \<in> set (xs_flushed s @ flush_totals (xs_flush s)). totals_ok R inn (px_redis (xs_px s)) ts) \<and>
     (\<forall>us. xs_flush s = Have_Totals us \<longrightarrow> xs_flushed s \<noteq> [] \<longrightarrow> covers us (last (xs_flushed s)))"

lemma totals_ok_mono:
  assumes "totals_ok R inn db ts"
    and "\<And>k w. edge_view (R, pi_edges inn) db k = Some w \<Longrightarrow>
      \<exists>w'. edge_view (R, pi_edges inn) db' k = Some w' \<and> sint w \<le> sint w'"
  shows "totals_ok R inn db' ts"
  using assms unfolding totals_ok_def by (meson order_trans)

lemma read_totals_ok:
  assumes "redis_ok R" "edge_totals R (pi_edges inn) db = Ok us" "us \<noteq> []"
  shows "totals_ok R inn db us" and "totals_ok R inn db ts \<Longrightarrow> covers us ts"
proof -
  note law = edge_totals_Ok [OF assms(1,2)]
  have r: "report_of us k = Some v \<longleftrightarrow> (\<exists>w. edge_view (R, pi_edges inn) db k = Some w \<and> 0 \<le> sint w \<and> v = sint w)"
    for k v
    using law by (auto simp: report_of_def)
  show "totals_ok R inn db us" using assms(3) by (auto simp: totals_ok_def r)
  show "totals_ok R inn db ts \<Longrightarrow> covers us ts"
    unfolding totals_ok_def covers_def r by (metis order_trans)
qed

lemma proxy_inv_step:
  assumes "redis_ok R" "proxy_inv R inn s" "px_step R inn s s'"
  shows "proxy_inv R inn s'"
  using assms(3)
proof (cases rule: px_stepE)
  case (forward W c f rest u px')
  with assms(2) show ?thesis by (auto simp: proxy_inv_def forward_frame_def post_remote_write_eq)
next
  case (counted W key px')
  have "totals_ok R inn (px_redis (xs_px s)) ts \<Longrightarrow> totals_ok R inn (px_redis px') ts" for ts
    using totals_ok_mono counted_view(2) [of W inn key "xs_px s" px'] assms(1) counted(2,4) by metis
  with assms(2) show ?thesis by (simp add: proxy_inv_def counted(1))
next
  case (not_counted W key e px')
  have ok: "redis_ok (pw_redis W)" using assms(1) not_counted(2) by simp
  have "totals_ok R inn (px_redis (xs_px s)) ts \<Longrightarrow> totals_ok R inn (px_redis px') ts" for ts
  proof (rule not_counted_view [OF ok not_counted(4)]; unfold not_counted(2))
    assume "edge_view (R, pi_edges inn) (px_redis px') = edge_view (R, pi_edges inn) (px_redis (xs_px s))"
      "totals_ok R inn (px_redis (xs_px s)) ts"
    then show "totals_ok R inn (px_redis px') ts" by (simp add: totals_ok_def)
  next
    assume "totals_ok R inn (px_redis (xs_px s)) ts"
      "\<And>k w. edge_view (R, pi_edges inn) (px_redis (xs_px s)) k = Some w \<Longrightarrow>
         \<exists>w'. edge_view (R, pi_edges inn) (px_redis px') k = Some w' \<and> sint w \<le> sint w'"
    then show "totals_ok R inn (px_redis px') ts" by (rule totals_ok_mono)
  qed
  with assms(2) show ?thesis by (simp add: proxy_inv_def not_counted(1))
next
  case (read_totals totals)
  note t = read_totals_ok [OF assms(1) read_totals(3,4)]
  with assms(2) read_totals(1,2) show ?thesis by (simp add: proxy_inv_def)
next
  case (post_totals totals W pb body r px')
  then have "px' = (xs_px s)\<lparr>px_posted := px_posted (xs_px s) @ [remote_write_request inn body]\<rparr>"
    by (simp add: post_remote_write_eq)
  with post_totals(1,2) assms(2) show ?thesis by (simp add: proxy_inv_def)
next
  case (drop_totals totals)
  with assms(2) show ?thesis by (simp add: proxy_inv_def)
qed

lemma held_may_report:
  assumes "proxy_inv R inn s" "xs_flush s = Have_Totals totals"
  shows "may_report (tally_abs R inn s) (report_of totals)"
proof -
  have t: "totals_ok R inn (px_redis (xs_px s)) totals"
    and c: "xs_flushed s \<noteq> [] \<Longrightarrow> covers totals (last (xs_flushed s))"
    using assms by (auto simp: proxy_inv_def)
  obtain k v rest where "totals = (k, v) # rest" using t by (cases totals) (auto simp: totals_ok_def)
  then have "report_of totals k = Some (sint v)" by (simp add: report_of_def)
  then have "report_of totals \<noteq> Map.empty" by auto
  with t c show ?thesis
    by (auto simp: may_report_def tally_abs_def totals_ok_def covers_def old_value_def last_report_def split: if_splits) fastforce
qed

lemma proxy_sim_step:
  assumes "redis_ok R" "proxy_inv R inn s" "px_step R inn s s'"
  shows "tally_step\<^sup>=\<^sup>= (tally_abs R inn s) (tally_abs R inn s')"
  using assms(3)
proof (cases rule: px_stepE)
  case (forward W c f rest u px')
  have k: "outcome_key u \<in> {''remote_write_ok'', ''remote_write_err''}" by (simp add: outcome_key_def)
  from forward(5) have "px' = (xs_px s)\<lparr>px_posted := px_posted (xs_px s) @ [remote_write_request inn (f_data f)]\<rparr>"
    by (simp add: forward_frame_def post_remote_write_eq)
  with tally_step.request [OF k, of "tally_abs R inn s"] show ?thesis
    by (simp add: forward(1) tally_abs_def)
next
  case (counted W key px')
  have "key \<in># ta_pending (tally_abs R inn s)" using counted(3) by (simp add: tally_abs_def)
  note step = tally_step.count [OF this]
  note v = counted_view [of W inn key "xs_px s" px']
  have "(\<lambda>k. old_value (edge_view (R, pi_edges inn) (px_redis px') k)) =
      (\<lambda>k. old_value (edge_view (R, pi_edges inn) (px_redis (xs_px s)) k))
        (key := old_value (edge_view (R, pi_edges inn) (px_redis (xs_px s)) key) + 1)"
    using v(1) assms(1) counted(2,4) by (auto simp: fun_eq_iff)
  with step v(3) assms(1) counted(1,2,4) show ?thesis by (simp add: tally_abs_def)
next
  case (not_counted W key e px')
  have "key \<in># ta_pending (tally_abs R inn s)" using not_counted(3) by (simp add: tally_abs_def)
  note step = tally_step.lose [OF this] tally_step.count [OF this]
  have ok: "redis_ok (pw_redis W)" using assms(1) not_counted(2) by simp
  show ?thesis
  proof (rule not_counted_view [OF ok not_counted(4)])
    assume "edge_view (pw_redis W, pi_edges inn) (px_redis px') =
        edge_view (pw_redis W, pi_edges inn) (px_redis (xs_px s))" "px_posted px' = px_posted (xs_px s)"
    with step(1) not_counted(1,2) show ?thesis by (simp add: tally_abs_def)
  next
    assume p: "px_posted px' = px_posted (xs_px s)"
      and v: "\<And>k. old_value (edge_view (pw_redis W, pi_edges inn) (px_redis px') k) =
        old_value (edge_view (pw_redis W, pi_edges inn) (px_redis (xs_px s)) k) + (if k = key then 1 else 0)"
    have "(\<lambda>k. old_value (edge_view (R, pi_edges inn) (px_redis px') k)) =
        (\<lambda>k. old_value (edge_view (R, pi_edges inn) (px_redis (xs_px s)) k))
          (key := old_value (edge_view (R, pi_edges inn) (px_redis (xs_px s)) key) + 1)"
      using v not_counted(2) by (auto simp: fun_eq_iff)
    with step(2) p not_counted(1) show ?thesis by (simp add: tally_abs_def)
  qed
next
  case (post_totals totals W pb body r px')
  then have "px' = (xs_px s)\<lparr>px_posted := px_posted (xs_px s) @ [remote_write_request inn body]\<rparr>"
    by (simp add: post_remote_write_eq)
  with tally_step.report [OF held_may_report [OF assms(2) post_totals(2)]] show ?thesis
    by (simp add: post_totals(1) tally_abs_def)
qed (simp_all add: tally_abs_def)

interpretation proxy: simulation "\<lambda>s. redis_ok R \<and> proxy_inv R inn s" "px_step R inn" "tally_abs R inn" tally_step
  for R inn
  by unfold_locales (use proxy_inv_step proxy_sim_step in blast)+

lemma px_reach_run: "px_reach R inn px s \<Longrightarrow> (px_step R inn)\<^sup>*\<^sup>* (px_start px) s"
  by (induction rule: px_reach.induct) (auto intro: rtranclp.rtrancl_into_rtrancl)

lemma px_start_abs:
  "tally_abs R inn (px_start px) =
     tally_start (\<lambda>k. old_value (edge_view (R, pi_edges inn) (px_redis px) k)) (length (px_posted px))"
  "proxy_inv R inn (px_start px)"
  by (simp_all add: tally_abs_def tally_start_def proxy_inv_def)

section \<open>Properties\<close>

text \<open>
  C2: The proxy implements its specification: a run with connections and flushes in any
  interleaving is a run of the tally from what Redis held at the start, and each further step
  is one step of the tally or invisible. So every outcome is counted at most once and after
  its request, and a report, though read earlier than it is posted, has all keys of the report
  before it with values at least as high, and none above its counter.
\<close>

theorem proxy_refines_spec:
  assumes "redis_ok R" and "px_reach R inn px s" and "px_step R inn s s'"
  shows "tally_step\<^sup>*\<^sup>* (tally_start (\<lambda>k. old_value (edge_view (R, pi_edges inn) (px_redis px) k))
      (length (px_posted px))) (tally_abs R inn s) \<and>
    tally_step\<^sup>=\<^sup>= (tally_abs R inn s) (tally_abs R inn s')"
proof -
  have i: "redis_ok R \<and> proxy_inv R inn (px_start px)" using assms(1) px_start_abs(2) by blast
  note run = proxy.sim_run [OF px_reach_run [OF assms(2)] i]
  show ?thesis
    using run proxy.sim_step [OF conjunct1 [OF run] assms(3)] by (simp add: px_start_abs(1))
qed

theorem proxy_refines_spec_witness:
  "\<exists>s s'. px_reach sample_redis sample_prom_inner sample_counters s \<and> px_step sample_redis sample_prom_inner s s' \<and>
     tally_step (tally_abs sample_redis sample_prom_inner s) (tally_abs sample_redis sample_prom_inner s') \<and>
     ta_requests (tally_abs sample_redis sample_prom_inner s') = 1"
proof -
  let ?W = "sample_proxy no_content" and ?t = "[(''remote_write_ok'', 3 :: u64)]"
  let ?s = "(px_start sample_counters)\<lparr>xs_flush := Have_Totals ?t\<rparr>"
  obtain pb where pb: "encode_write_request sample_prost (map (edge_series (server_now_ms 5000000)) ?t) = Ok pb"
    by (simp add: encode_write_request_def sample_prost_def)
  let ?s' = "?s\<lparr>xs_px := snd (post_remote_write ?W sample_prom_inner pb sample_counters), xs_flush := Waiting,
      xs_flushed := [?t]\<rparr>"
  have r: "px_reach sample_redis sample_prom_inner sample_counters ?s"
    using px_reach.init px_step.read_totals [OF px_start_simps(3) sample_start_totals] by (rule px_reach.step) simp
  have st: "px_step sample_redis sample_prom_inner ?s ?s'"
    using px_step.post_totals [of ?s ?t ?W sample_redis pb pb sample_prom_inner] pb
    by (simp add: post_remote_write_eq)
  have n: "ta_requests (tally_abs sample_redis sample_prom_inner ?s) = 0"
    "ta_requests (tally_abs sample_redis sample_prom_inner ?s') = 1"
    by (simp_all add: tally_abs_def sample_counters_def post_remote_write_eq)
  from proxy_refines_spec [OF sample_redis_ok r st] n
  have "tally_step (tally_abs sample_redis sample_prom_inner ?s) (tally_abs sample_redis sample_prom_inner ?s')"
    by auto
  with r st n show ?thesis by blast
qed

text \<open>What holds of every run of the tally holds of the proxy: here, its invariant.\<close>

theorem tally_inv_transferred:
  assumes "redis_ok R" "px_reach R inn px s"
  shows "tally_inv (tally_abs R inn s)"
  by (rule proxy.transfer_invariant [of tally_inv, OF tally_step_inv px_reach_run [OF assms(2)]])
     (use assms(1) px_start_abs(2) in \<open>auto simp: px_start_abs(1) tally_inv_def tally_start_def\<close>)

end
