(* ===== verification/Prom_Client.thy ===== *)
theory Prom_Client
  imports Client_Conn Prom_Server
begin

text \<open>
  The proxy's client, \<open>src/prom_proxy/client.rs\<close>, async and blocking. A call gets the codec,
  key, random bytes and serialisation it runs with and what \<open>connect\<close> answers; it returns its
  result, the client and the bytes it put on the wire. \<open>TcpStream\<close> of tokio and of the
  standard library are the same \<open>conn\<close>.
\<close>

section \<open>The client\<close>

datatype prom_client_error = PClE_Io io_error | PClE_Json prom_json_error | PClE_Protocol string

record prom_client =
  pcl_next_tx :: u64
  pcl_message_type :: u8

definition prom_client_new :: prom_client where
  "prom_client_new = \<lparr>pcl_next_tx = 1, pcl_message_type = MSG_REMOTE_WRITE\<rparr>"

definition with_message_type :: "u8 \<Rightarrow> prom_client \<Rightarrow> prom_client" where
  "with_message_type message_type c = c\<lparr>pcl_message_type := message_type\<rparr>"

definition prom_next_tx_id :: "prom_client \<Rightarrow> u64 \<times> prom_client" where
  "prom_next_tx_id c =
     (let id = pcl_next_tx c in (id, c\<lparr>pcl_next_tx := max (pcl_next_tx c + 1) 1\<rparr>))"

definition decode_response :: "pjson \<Rightarrow> frame \<Rightarrow> (prom_client_error, u16) res" where
  "decode_response J f =
     (if f_message_type f = MSG_REMOTE_WRITE_ACK
      then rbind (map_err PClE_Json (of_sum (ack_from_slice J (f_data f)))) (\<lambda>ack. Ok (ack_status ack))
      else if f_message_type f = PROM_MSG_ERROR
      then rbind (map_err PClE_Json (of_sum (perr_from_slice J (f_data f)))) (\<lambda>err.
           Err (PClE_Protocol (pe_message err)))
      else Err (PClE_Protocol (''unexpected message_type '' @ show_dec (unat (f_message_type f)))))"

record client_env =
  ce_codec :: codec
  ce_key :: key_cell
  ce_rng :: rng
  ce_json :: pjson
  ce_snap :: snap
  ce_prost :: prost
  ce_display :: "f64 \<Rightarrow> string"
  ce_wall :: int

type_synonym 'a call = "(prom_client_error, 'a) res \<times> prom_client \<times> bytes"

definition remote_write :: "client_env \<Rightarrow> io_error + conn \<Rightarrow> bytes \<Rightarrow> prom_client \<Rightarrow> u16 call" where
  "remote_write E connect body c =
     (let (tx_id, c) = prom_next_tx_id c in
      sbind (map_err PClE_Io (of_sum connect), c, []) (\<lambda>stream (c, out).
      let (r, w) = write_frame (ce_codec E) (ce_key E) (ce_rng E) (cn_wr stream) (pcl_message_type c)
                     tx_id body CHACHA20POLY1305 in
      sbind (map_err PClE_Io r, c, sk_out w) (\<lambda>_ (c, out).
      sbind (map_err PClE_Io (read_frame (ce_codec E) (ce_key E) (cn_reply stream out)), c, out)
        (\<lambda>(f, _) (c, out).
      (decode_response (ce_json E) f, c, out)))))"

definition remote_write_blocking :: "client_env \<Rightarrow> io_error + conn \<Rightarrow> bytes \<Rightarrow> prom_client \<Rightarrow> u16 call" where
  "remote_write_blocking E connect body c =
     (let (tx_id, c) = prom_next_tx_id c in
      sbind (map_err PClE_Io (of_sum connect), c, []) (\<lambda>stream (c, out).
      let (r, w) = write_frame_blocking (ce_codec E) (ce_key E) (ce_rng E) (cn_wr stream)
                     (pcl_message_type c) tx_id body CHACHA20POLY1305 in
      sbind (map_err PClE_Io r, c, sk_out w) (\<lambda>_ (c, out).
      sbind (map_err PClE_Io (read_frame_blocking (ce_codec E) (ce_key E) (cn_reply stream out)), c, out)
        (\<lambda>(f, _) (c, out).
      (decode_response (ce_json E) f, c, out)))))"

definition remote_write_protobuf :: "client_env \<Rightarrow> io_error + conn \<Rightarrow> bytes \<Rightarrow> prom_client \<Rightarrow> u16 call" where
  "remote_write_protobuf E connect protobuf_write_request c =
     sbind (prepare_remote_write_body (ce_snap E) protobuf_write_request, c, []) (\<lambda>body (c, _).
     remote_write E connect body c)"

definition remote_write_protobuf_blocking ::
  "client_env \<Rightarrow> io_error + conn \<Rightarrow> bytes \<Rightarrow> prom_client \<Rightarrow> u16 call" where
  "remote_write_protobuf_blocking E connect protobuf_write_request c =
     sbind (prepare_remote_write_body (ce_snap E) protobuf_write_request, c, []) (\<lambda>body (c, _).
     remote_write_blocking E connect body c)"

definition remote_write_families ::
  "client_env \<Rightarrow> io_error + conn \<Rightarrow> metric_family list \<Rightarrow> prom_client \<Rightarrow> u16 call" where
  "remote_write_families E connect mfs c =
     sbind (map_err (\<lambda>e. PClE_Protocol (encode_error_to_string e))
              (encode_metric_families (ce_prost E) (ce_display E) (ce_wall E) mfs), c, [])
       (\<lambda>protobuf (c, _).
     remote_write_protobuf E connect protobuf c)"

definition remote_write_families_blocking ::
  "client_env \<Rightarrow> io_error + conn \<Rightarrow> metric_family list \<Rightarrow> prom_client \<Rightarrow> u16 call" where
  "remote_write_families_blocking E connect mfs c =
     sbind (map_err (\<lambda>e. PClE_Protocol (encode_error_to_string e))
              (encode_metric_families (ce_prost E) (ce_display E) (ce_wall E) mfs), c, [])
       (\<lambda>protobuf (c, _).
     remote_write_protobuf_blocking E connect protobuf c)"

section \<open>Transaction ids\<close>

interpretation prom_tx: tx_source prom_next_tx_id pcl_next_tx
  by unfold_locales (simp_all add: prom_next_tx_id_def Let_def max_1_u64)

section \<open>Calls\<close>

lemma remote_write_Ok:
  assumes "remote_write E (Inr stream) body c = (Ok status, c', out)"
    and "sink_good (cn_wr stream)" "sk_out (cn_wr stream) = []"
  obtains f r where "c' = snd (prom_next_tx_id c)"
    "build_wire_frame (ce_codec E) (ce_key E) (ce_rng E) (pcl_message_type c) (pcl_next_tx c) body
       CHACHA20POLY1305 = Ok out"
    "read_frame (ce_codec E) (ce_key E) (cn_reply stream out) = Ok (f, r)"
    "f_message_type f = MSG_REMOTE_WRITE_ACK" "ack_from_slice (ce_json E) (f_data f) = Inr \<lparr>ack_status = status\<rparr>"
proof -
  obtain buf where b: "build_wire_frame (ce_codec E) (ce_key E) (ce_rng E) (pcl_message_type c) (pcl_next_tx c)
      body CHACHA20POLY1305 = Ok buf"
    using assms(1) by (auto simp: remote_write_def prom_next_tx_id_def Let_def write_frame_good [OF assms(2)]
        split: res.splits)
  from assms(1) have out: "out = buf" and c': "c' = snd (prom_next_tx_id c)"
    and "\<exists>f r. read_frame (ce_codec E) (ce_key E) (cn_reply stream buf) = Ok (f, r) \<and>
      decode_response (ce_json E) f = Ok status"
    by (auto simp: remote_write_def prom_next_tx_id_def Let_def write_frame_good [OF assms(2)] b assms(3))
  then obtain f r where f: "read_frame (ce_codec E) (ce_key E) (cn_reply stream buf) = Ok (f, r)"
    "decode_response (ce_json E) f = Ok status" by blast
  then have "f_message_type f = MSG_REMOTE_WRITE_ACK"
    "ack_from_slice (ce_json E) (f_data f) = Inr \<lparr>ack_status = status\<rparr>"
    by (auto simp: decode_response_def split: if_splits)
  with that c' b f(1) out show thesis by simp
qed

section \<open>Client and proxy\<close>

definition proxy_serve :: "'r prom_world \<Rightarrow> prom_inner \<Rightarrow> 'r proxy_state \<Rightarrow> 'r proxy_state serve" where
  "proxy_serve W inn px c = snd (prom_handle_conn W inn c px)"

definition proxy_conn :: "'r prom_world \<Rightarrow> prom_inner \<Rightarrow> 'r proxy_state \<Rightarrow> conn" where
  "proxy_conn W inn px = conn_to eof (proxy_serve W inn px)"

definition proxy_after :: "'r prom_world \<Rightarrow> prom_inner \<Rightarrow> 'r proxy_state \<Rightarrow> bytes \<Rightarrow> 'r proxy_state" where
  "proxy_after W inn px out = fst (proxy_serve W inn px (accepted eof out))"

lemma proxy_conn_simps [simp]:
  "cn_wr (proxy_conn W inn px) = open_sink eof"
  "rd_inp (cn_reply (proxy_conn W inn px) out) = sk_out (snd (proxy_serve W inn px (accepted eof out)))"
  by (simp_all add: proxy_conn_def)

lemma build_reads_back:
  assumes "codec_ok C" "build_wire_frame C K rng mt tx d CHACHA20POLY1305 = Ok buf" "rd_inp r = buf"
  shows "read_frame C K r = Ok (decoded mt CHACHA20POLY1305 tx d, r\<lparr>rd_inp := []\<rparr>)"
  using build_read [OF assms(1,2), of r "[]"] assms(3) by simp

lemma decoded_simps [simp]:
  "f_message_type (decoded mt fl tx d) = mt" "f_tx_id (decoded mt fl tx d) = tx"
  "f_data (decoded mt fl tx d) = d"
  by (simp_all add: decoded_def)

text \<open>What a client that was answered knows about the proxy.\<close>

lemma remote_write_reaches_upstream:
  assumes "codec_ok (pw_codec W)" "pjson_ok (pw_json W)" "redis_ok (pw_redis W)"
    and "ce_codec E = pw_codec W" "ce_key E = pw_key W" "ce_json E = pw_json W"
    and "pcl_message_type c = pc_message_type (pi_config inn)"
    and "remote_write E (Inr (proxy_conn W inn px)) body c = (Ok status, c', out)"
  shows "upstream W inn body = Ok status \<and>
    px_posted (proxy_after W inn px out) = px_posted px @ [remote_write_request inn body]"
proof -
  from remote_write_Ok [OF assms(8)] obtain f r where
    b: "build_wire_frame (pw_codec W) (pw_key W) (ce_rng E) (pcl_message_type c) (pcl_next_tx c) body
      CHACHA20POLY1305 = Ok out"
    and reply: "read_frame (pw_codec W) (pw_key W) (cn_reply (proxy_conn W inn px) out) = Ok (f, r)"
    and f: "f_message_type f = MSG_REMOTE_WRITE_ACK" "ack_from_slice (pw_json W) (f_data f) = Inr \<lparr>ack_status = status\<rparr>"
    by (metis assms(4-6) open_sink_good open_sink_out proxy_conn_simps(1))
  let ?f = "decoded (pcl_message_type c) CHACHA20POLY1305 (pcl_next_tx c) body"
  let ?c = "accepted eof out" and ?u = "upstream W inn body"
  have rd: "read_frame (pw_codec W) (pw_key W) (st_rd ?c) = Ok (?f, (st_rd ?c)\<lparr>rd_inp := []\<rparr>)"
    by (rule build_reads_back [OF assms(1) b]) simp
  have "sink_good (st_wr ?c)" "f_message_type ?f = pc_message_type (pi_config inn)" by (simp_all add: assms(7))
  note h = prom_handle_conn_forward [OF assms(3) this(1) rd this(2), of px]
  let ?px = "px\<lparr>px_posted := px_posted px @ [remote_write_request inn body]\<rparr>"
  have post: "px_posted (snd (incr_edge W inn k ?px)) = px_posted px @ [remote_write_request inn body]" for k
    using incr_edge_view(1) [OF assms(3), of inn k ?px] by (cases "incr_edge W inn k ?px") simp
  have "px_posted (proxy_after W inn px out) = px_posted px @ [remote_write_request inn body]"
    unfolding proxy_after_def proxy_serve_def h using post by (simp split: sum.splits res.splits)
  moreover have "sk_out (snd (proxy_serve W inn px ?c)) \<noteq> []"
    using reply read_frame_empty [of "cn_reply (proxy_conn W inn px) out"] by auto
  then obtain b2 buf where o: "snd (outcome_reply (pw_json W) ?u) = Inr b2"
    "build_wire_frame (pw_codec W) (pw_key W) (pw_rng W) (fst (outcome_reply (pw_json W) ?u)) (pcl_next_tx c) b2
      CHACHA20POLY1305 = Ok buf" "sk_out (snd (proxy_serve W inn px ?c)) = buf"
    unfolding proxy_serve_def h by (auto split: sum.splits res.splits)
  from build_reads_back [OF assms(1) o(2), of "cn_reply (proxy_conn W inn px) out"] o(3) reply
  have "f = decoded (fst (outcome_reply (pw_json W) ?u)) CHACHA20POLY1305 (pcl_next_tx c) b2" by simp
  with f have "fst (outcome_reply (pw_json W) ?u) = MSG_REMOTE_WRITE_ACK"
    "ack_from_slice (pw_json W) b2 = Inr \<lparr>ack_status = status\<rparr>" by simp_all
  with o(1) have "?u = Ok status"
    using pjson_okD(1) [OF assms(2)]
    by (cases ?u) (auto simp: outcome_reply_def prom_msgs)
  ultimately show ?thesis by simp
qed

section \<open>A sample call\<close>

definition sample_env :: client_env where
  "sample_env =
     \<lparr>ce_codec = sample_codec, ce_key = sample_key, ce_rng = (\<lambda>_. 3), ce_json = sample_pjson,
      ce_snap = Inr, ce_prost = sample_prost, ce_display = (\<lambda>_. []), ce_wall = 0\<rparr>"

lemma sample_env_simps [simp]:
  "ce_codec sample_env = sample_codec" "ce_key sample_env = sample_key" "ce_json sample_env = sample_pjson"
  by (simp_all add: sample_env_def)

lemma sample_remote_write:
  assumes "length body \<le> 65507"
  shows "\<exists>c' out. remote_write sample_env (Inr (proxy_conn (sample_proxy no_content) sample_prom_inner px)) body
    prom_client_new = (Ok 204, c', out)"
proof -
  let ?W = "sample_proxy no_content" and ?i = sample_prom_inner
  obtain out where b: "build_wire_frame sample_codec sample_key (ce_rng sample_env) MSG_REMOTE_WRITE 1 body
      CHACHA20POLY1305 = Ok out"
    using sample_encrypted_build [OF _ assms, of MSG_REMOTE_WRITE] by (fastforce simp: prom_msgs)
  let ?c = "accepted eof out" and ?f = "decoded MSG_REMOTE_WRITE CHACHA20POLY1305 1 body"
  have rd: "read_frame (pw_codec ?W) (pw_key ?W) (st_rd ?c) = Ok (?f, (st_rd ?c)\<lparr>rd_inp := []\<rparr>)"
    using build_reads_back [OF sample_codec_ok b, of "st_rd ?c"] by simp
  obtain buf where r: "build_wire_frame sample_codec sample_key (pw_rng ?W) MSG_REMOTE_WRITE_ACK 1
      (to_be 2 (204 :: u16)) CHACHA20POLY1305 = Ok buf"
    using sample_encrypted_build [of MSG_REMOTE_WRITE_ACK "to_be 2 (204 :: u16)"] by (auto simp: prom_msgs)
  have "redis_ok (pw_redis ?W)" "sink_good (st_wr ?c)" by (simp_all add: sample_redis_ok)
  from prom_handle_conn_forward [OF this rd, of ?i px] r
  have "sk_out (snd (proxy_serve ?W ?i px ?c)) = buf"
    by (simp add: proxy_serve_def outcome_reply_def sample_pjson_def)
  with build_reads_back [OF sample_codec_ok r, of "cn_reply (proxy_conn ?W ?i px) out"]
  have "\<exists>r. read_frame sample_codec sample_key (cn_reply (proxy_conn ?W ?i px) out) =
      Ok (decoded MSG_REMOTE_WRITE_ACK CHACHA20POLY1305 1 (to_be 2 (204 :: u16)), r)" by simp
  then show ?thesis
    using b by (auto simp: remote_write_def prom_next_tx_id_def Let_def prom_client_new_def write_frame_good
        decode_response_def sample_pjson_def)
qed

definition sample_counter :: metric_family where
  "sample_counter =
     \<lparr>mf_name = ''n'', mf_field_type = COUNTER,
      mf_metric = [\<lparr>m_label = [\<lparr>lp_name = ''job'', lp_value = ''x''\<rparr>], m_timestamp_ms = 9,
        m_counter_value = 5, m_gauge_value = 0,
        m_histogram = \<lparr>h_sample_sum = 0, h_sample_count = 0, h_bucket = []\<rparr>,
        m_summary = \<lparr>sm_sample_sum = 0, sm_sample_count = 0, sm_quantile = []\<rparr>\<rparr>]\<rparr>"

section \<open>Properties\<close>

text \<open>
  C6: When a client with the proxy's key is told a status, the proxy posted exactly the
  client's body upstream, once, and that status is what the upstream answered to it, in the
  200 range.
\<close>

theorem remote_write_delivers:
  assumes "codec_ok (pw_codec W)" and "pjson_ok (pw_json W)" and "redis_ok (pw_redis W)"
    and "ce_codec E = pw_codec W" and "ce_key E = pw_key W" and "ce_json E = pw_json W"
    and "pcl_message_type c = pc_message_type (pi_config inn)"
    and "remote_write E (Inr (proxy_conn W inn px)) body c = (Ok status, c', out)"
  shows "px_posted (proxy_after W inn px out) = px_posted px @ [remote_write_request inn body] \<and>
    (\<exists>resp. pw_http W (remote_write_request inn body) = Inr resp \<and> hr_status resp = status) \<and>
    200 \<le> unat status \<and> unat status < 300"
  using remote_write_reaches_upstream [OF assms]
  by (auto simp: upstream_def is_success_def split: sum.splits if_splits)

theorem remote_write_delivers_witness:
  "\<exists>c' out. remote_write sample_env
       (Inr (proxy_conn (sample_proxy no_content) sample_prom_inner \<lparr>px_redis = [], px_posted = []\<rparr>)) [1, 2]
       prom_client_new = (Ok 204, c', out) \<and>
     map hq_body (px_posted (proxy_after (sample_proxy no_content) sample_prom_inner
       \<lparr>px_redis = [], px_posted = []\<rparr> out)) = [[1, 2]]"
proof -
  let ?W = "sample_proxy no_content"
  obtain c' out where w: "remote_write sample_env
       (Inr (proxy_conn ?W sample_prom_inner \<lparr>px_redis = [], px_posted = []\<rparr>)) [1, 2]
       prom_client_new = (Ok 204, c', out)"
    using sample_remote_write [of "[1, 2]"] by fastforce
  have "codec_ok (pw_codec ?W)" "pjson_ok (pw_json ?W)" "redis_ok (pw_redis ?W)"
    "ce_codec sample_env = pw_codec ?W" "ce_key sample_env = pw_key ?W" "ce_json sample_env = pw_json ?W"
    "pcl_message_type prom_client_new = pc_message_type (pi_config sample_prom_inner)"
    by (simp_all add: sample_codec_ok sample_redis_ok prom_client_new_def)
  from remote_write_delivers [OF this w] w show ?thesis
    by (intro exI [of _ c'] exI [of _ out]) (simp add: remote_write_request_def)
qed

text \<open>
  The blocking client is the async client: each of the three calls gives the same
  result, uses the same transaction id and puts the same bytes on the wire.
\<close>

theorem blocking_client_equals_async:
  "remote_write_blocking = remote_write \<and> remote_write_protobuf_blocking = remote_write_protobuf \<and>
   remote_write_families_blocking = remote_write_families"
proof -
  have "remote_write_blocking = remote_write"
    by (intro ext) (simp add: remote_write_blocking_def remote_write_def write_frame_blocking_eq read_frame_eq_blocking)
  moreover from this have "remote_write_protobuf_blocking = remote_write_protobuf"
    by (intro ext) (simp add: remote_write_protobuf_blocking_def remote_write_protobuf_def)
  moreover from this have "remote_write_families_blocking = remote_write_families"
    by (intro ext) (simp add: remote_write_families_blocking_def remote_write_families_def)
  ultimately show ?thesis by blast
qed

text \<open>
  A body over 65507 bytes is refused before anything is sent, with InvalidInput; the call
  still uses up a transaction id.
\<close>

theorem oversized_body_refused:
  assumes "codec_ok (ce_codec E)" and "ce_key E = Some (Some key)"
    and "\<forall>n m a. aead_encrypt (ce_codec E) key n m a \<noteq> None"
    and "unat (pcl_message_type c) \<le> 31" and "sink_good (cn_wr stream)" and "sk_out (cn_wr stream) = []"
    and "65507 < length body"
  shows "remote_write E (Inr stream) body c =
    (Err (PClE_Io (Io_Error InvalidInput ''payload length exceeds u16::MAX'')),
     snd (prom_next_tx_id c), [])"
proof -
  let ?mt = "pcl_message_type c"
  let ?h = "push_bit 3 ?mt OR CHACHA20POLY1305"
  obtain p where p: "frame_payload (ce_codec E) (ce_key E) (ce_rng E) CHACHA20POLY1305 ?h (pcl_next_tx c) body = Ok p"
    using assms(2,3) by (force simp: frame_payload_def CHACHA20POLY1305_def compress_payload_def
        frame_consts encrypt_payload_def Let_def split: option.splits)
  have l: "length p > u16_MAX" using encrypted_payload_length [OF assms(1) p] assms(7) by (simp add: u16_MAX_def)
  have "pack_header_byte ?mt CHACHA20POLY1305 = Ok ?h"
    using assms(4) by (simp add: pack_header_byte_Ok_iff header_ok_def CHACHA20POLY1305_def)
  then have "build_wire_frame (ce_codec E) (ce_key E) (ce_rng E) ?mt (pcl_next_tx c) body CHACHA20POLY1305 =
      Err (Io_Error InvalidInput ''payload length exceeds u16::MAX'')"
    using l by (simp add: build_wire_frame_eq p)
  then show ?thesis
    by (simp add: remote_write_def prom_next_tx_id_def Let_def write_frame_good [OF assms(5)] assms(6))
qed

theorem oversized_body_refused_witness:
  "remote_write (sample_env\<lparr>ce_key := Some (Some [1])\<rparr>) (Inr \<lparr>cn_wr = open_sink eof, cn_reply = sample_reader\<rparr>)
     (replicate 65508 0) prom_client_new =
   (Err (PClE_Io (Io_Error InvalidInput ''payload length exceeds u16::MAX'')),
    \<lparr>pcl_next_tx = 2, pcl_message_type = MSG_REMOTE_WRITE\<rparr>, [])"
proof -
  let ?E = "sample_env\<lparr>ce_key := Some (Some [1])\<rparr>"
  have "codec_ok (ce_codec ?E)" "ce_key ?E = Some (Some [1])"
    "\<forall>n m a. aead_encrypt (ce_codec ?E) [1] n m a \<noteq> None" "unat (pcl_message_type prom_client_new) \<le> 31"
    by (simp_all add: sample_codec_ok prom_client_new_def prom_msgs) (simp add: sample_codec_def)
  from oversized_body_refused [OF this, of "\<lparr>cn_wr = open_sink eof, cn_reply = sample_reader\<rparr>" "replicate 65508 0"]
  show ?thesis by (simp add: prom_next_tx_id_def prom_client_new_def max_1_u64)
qed

text \<open>
  C7: When a client with the proxy's key sends metric families and is told a status, the
  upstream was posted one body and answered it with that status; decompressed and decoded,
  the body is exactly the series of the families of the types Counter, Gauge, Histogram and
  Summary, in order. Families of the type Untyped, which the encoder documents as supported,
  do not arrive, and the client is not told.
\<close>

theorem metrics_reach_upstream:
  assumes "codec_ok (pw_codec W)" and "pjson_ok (pw_json W)" and "redis_ok (pw_redis W)"
    and "ce_codec E = pw_codec W" and "ce_key E = pw_key W" and "ce_json E = pw_json W"
    and "pcl_message_type c = pc_message_type (pi_config inn)" and "prost_ok (ce_prost E)"
    and "remote_write_families E (Inr (proxy_conn W inn px)) mfs c = (Ok status, c', out)"
  shows "\<exists>pb body. px_posted (proxy_after W inn px out) = px_posted px @ [remote_write_request inn body] \<and>
    upstream W inn body = Ok status \<and> ce_snap E pb = Inr body \<and>
    pb_decode (ce_prost E) pb = Inr \<lparr>pb_timeseries =
      map pb_series (concat (map (family_series (ce_display E) (chrono_now_ms (ce_wall E)))
        (filter (\<lambda>mf. mf_field_type mf \<noteq> UNTYPED) mfs)))\<rparr>"
proof -
  from assms(9) obtain pb body where
    pb: "encode_metric_families (ce_prost E) (ce_display E) (ce_wall E) mfs = Ok pb"
    and body: "ce_snap E pb = Inr body"
    and rw: "remote_write E (Inr (proxy_conn W inn px)) body c = (Ok status, c', out)"
    by (auto simp: remote_write_families_def remote_write_protobuf_def)
  have typed: "typed = (\<lambda>mf. mf_field_type mf \<noteq> UNTYPED)" by (simp add: typed_def fun_eq_iff)
  from families_decoded [OF assms(8) pb] remote_write_reaches_upstream [OF assms(1-7) rw] body
  show ?thesis unfolding typed by blast
qed

theorem metrics_reach_upstream_witness:
  "\<exists>c' out pb. remote_write_families sample_env
       (Inr (proxy_conn (sample_proxy no_content) sample_prom_inner \<lparr>px_redis = [], px_posted = []\<rparr>))
       [sample_counter] prom_client_new = (Ok 204, c', out) \<and>
     map hq_body (px_posted (proxy_after (sample_proxy no_content) sample_prom_inner
       \<lparr>px_redis = [], px_posted = []\<rparr> out)) = [pb] \<and>
     pb_decode sample_prost pb = Inr \<lparr>pb_timeseries =
       [\<lparr>pbt_labels = [\<lparr>pbl_name = ''__name__'', pbl_value = ''n''\<rparr>, \<lparr>pbl_name = ''job'', pbl_value = ''x''\<rparr>],
         pbt_samples = [\<lparr>pbs_value = 5, pbs_timestamp = 9\<rparr>]\<rparr>]\<rparr>"
proof -
  let ?W = "sample_proxy no_content" and ?px = "\<lparr>px_redis = [], px_posted = []\<rparr> :: ((string \<times> string) \<times> i64) list proxy_state"
  obtain pb where pb: "encode_metric_families sample_prost (\<lambda>_. []) 0 [sample_counter] = Ok pb"
    and len: "length pb \<le> 65507"
    by (simp add: encode_metric_families_eq typed_def family_series_def sample_counter_def encode_write_request_def sample_prost_def
       put_pb_series_def pb_series_def series_of_def put_list_def put_str_def put_nat_def to_vec_def)
  obtain c' out where r: "remote_write sample_env (Inr (proxy_conn ?W sample_prom_inner ?px)) pb prom_client_new
      = (Ok 204, c', out)"
    using sample_remote_write [OF len] by blast
  have w: "remote_write_families sample_env (Inr (proxy_conn ?W sample_prom_inner ?px)) [sample_counter]
      prom_client_new = (Ok 204, c', out)"
    using pb r by (simp add: remote_write_families_def remote_write_protobuf_def sample_env_def
        prepare_remote_write_body_def)
  have a: "codec_ok (pw_codec ?W)" "pjson_ok (pw_json ?W)" "redis_ok (pw_redis ?W)"
    "ce_codec sample_env = pw_codec ?W" "ce_key sample_env = pw_key ?W" "ce_json sample_env = pw_json ?W"
    "pcl_message_type prom_client_new = pc_message_type (pi_config sample_prom_inner)"
    "prost_ok (ce_prost sample_env)"
    by (simp_all add: sample_codec_ok sample_redis_ok sample_env_def sample_prost_ok prom_client_new_def)
  from metrics_reach_upstream [OF a w] obtain b where
    b: "px_posted (proxy_after ?W sample_prom_inner ?px out) = [remote_write_request sample_prom_inner b]"
    "pb_decode sample_prost b = Inr \<lparr>pb_timeseries = map pb_series (concat (map (family_series (\<lambda>_. [])
       (chrono_now_ms 0)) (filter (\<lambda>mf. mf_field_type mf \<noteq> UNTYPED) [sample_counter])))\<rparr>"
    by (auto simp: sample_env_def)
  then show ?thesis
    using w by (intro exI [of _ c'] exI [of _ out] exI [of _ b])
      (simp add: remote_write_request_def family_series_def sample_counter_def series_of_def pb_series_def)
qed

end
