(* ===== verification/Addr_Parse.thy ===== *)
theory Addr_Parse
  imports Net_Addr
begin

text \<open>
  \<open>str::parse::<SocketAddr>\<close> of the standard library, which \<open>src/bin/prom_proxy.rs\<close> applies
  to its listen address: the recursive-descent parser of \<open>core::net\<close>, a parser being a function
  from the rest of the input to a value and the rest behind it. A parser that fails consumes
  nothing (\<open>read_atomically\<close>). The scope identifier of an IPv6 address is read and dropped:
  only the operating system looks at it.
\<close>

type_synonym 'a reads = "string \<Rightarrow> ('a \<times> string) option"

definition reads_bind :: "'a reads \<Rightarrow> ('a \<Rightarrow> 'b reads) \<Rightarrow> 'b reads" where
  "reads_bind p f s = (case p s of None \<Rightarrow> None | Some (x, t) \<Rightarrow> f x t)"

definition reads_return :: "'a \<Rightarrow> 'a reads" where
  "reads_return x s = Some (x, s)"

definition read_given_char :: "char \<Rightarrow> unit reads" where
  "read_given_char c s = (case s of [] \<Rightarrow> None | x # t \<Rightarrow> if x = c then Some ((), t) else None)"

text \<open>\<open>char::to_digit\<close> for a radix up to 16.\<close>

definition to_digit :: "nat \<Rightarrow> char \<Rightarrow> nat option" where
  "to_digit radix c =
     (let n = of_char c :: nat;
          d = (if 48 \<le> n \<and> n \<le> 57 then n - 48 else if 97 \<le> n \<and> n \<le> 102 then n - 87
               else if 65 \<le> n \<and> n \<le> 70 then n - 55 else radix) in
      if d < radix then Some d else None)"

fun digits_value :: "nat \<Rightarrow> nat \<Rightarrow> string \<Rightarrow> nat" where
  "digits_value radix acc [] = acc"
| "digits_value radix acc (c # cs) =
     digits_value radix (acc * radix + (case to_digit radix c of None \<Rightarrow> 0 | Some d \<Rightarrow> d)) cs"

definition read_number :: "nat \<Rightarrow> nat option \<Rightarrow> bool \<Rightarrow> nat \<Rightarrow> nat reads" where
  "read_number radix max_digits allow_zero_prefix bound s =
     (let ds = takeWhile (\<lambda>c. to_digit radix c \<noteq> None) s;
          n = digits_value radix 0 ds in
      if ds = [] \<or> (case max_digits of None \<Rightarrow> False | Some m \<Rightarrow> length ds > m) \<or>
         (\<not> allow_zero_prefix \<and> hd ds = CHR ''0'' \<and> length ds > 1) \<or> bound \<le> n
      then None else Some (n, drop (length ds) s))"

definition read_separator :: "char \<Rightarrow> nat \<Rightarrow> 'a reads \<Rightarrow> 'a reads" where
  "read_separator sep index p =
     (if index > 0 then reads_bind (read_given_char sep) (\<lambda>_. p) else p)"

definition read_octet :: "nat \<Rightarrow> nat reads" where
  "read_octet i = read_separator CHR ''.'' i (read_number 10 (Some 3) False 256)"

definition read_ipv4_addr :: "(u8 \<times> u8 \<times> u8 \<times> u8) reads" where
  "read_ipv4_addr =
     reads_bind (read_octet 0) (\<lambda>a. reads_bind (read_octet 1) (\<lambda>b.
     reads_bind (read_octet 2) (\<lambda>c. reads_bind (read_octet 3) (\<lambda>d.
     reads_return (of_nat a, of_nat b, of_nat c, of_nat d)))))"

text \<open>
  The groups of an IPv6 address from position \<open>i\<close> on, at most as many as the first argument,
  and whether they end in an embedded IPv4 address, which needs room for two.
\<close>

fun read_groups :: "nat \<Rightarrow> nat \<Rightarrow> string \<Rightarrow> u16 list \<times> bool \<times> string" where
  "read_groups 0 i s = ([], False, s)"
| "read_groups (Suc r) i s =
     (case (if 0 < r then read_separator CHR '':'' i read_ipv4_addr s else None) of
        Some ((a, b, c, d), t) \<Rightarrow> ([from_be [a, b], from_be [c, d]], True, t)
      | None \<Rightarrow>
          (case read_separator CHR '':'' i (read_number 16 (Some 4) True 65536) s of
             None \<Rightarrow> ([], False, s)
           | Some (g, t) \<Rightarrow>
               let (gs, v4, u) = read_groups r (Suc i) t in (of_nat g # gs, v4, u)))"

definition read_ipv6_addr :: "u16 list reads" where
  "read_ipv6_addr s =
     (let (hd_gs, hd_v4, t) = read_groups 8 0 s in
      if length hd_gs = 8 then Some (hd_gs, t)
      else if hd_v4 then None
      else reads_bind (read_given_char CHR '':'') (\<lambda>_. reads_bind (read_given_char CHR '':'') (\<lambda>_ u.
        let (tl_gs, _, v) = read_groups (8 - (length hd_gs + 1)) 0 u in
        Some (hd_gs @ replicate (8 - length hd_gs - length tl_gs) 0 @ tl_gs, v))) t)"

definition read_port :: "u16 reads" where
  "read_port =
     reads_bind (read_given_char CHR '':'') (\<lambda>_. reads_bind (read_number 10 None True 65536) (\<lambda>p.
     reads_return (of_nat p)))"

definition read_scope_id :: "nat reads" where
  "read_scope_id = reads_bind (read_given_char CHR ''%'') (\<lambda>_. read_number 10 None True (2 ^ 32))"

definition read_socket_addr_v4 :: "socket_addr reads" where
  "read_socket_addr_v4 =
     reads_bind read_ipv4_addr (\<lambda>(a, b, c, d). reads_bind read_port (\<lambda>p.
     reads_return \<lparr>sa_ip = V4 a b c d, sa_port = p\<rparr>))"

definition read_socket_addr_v6 :: "socket_addr reads" where
  "read_socket_addr_v6 =
     reads_bind (read_given_char CHR ''['') (\<lambda>_. reads_bind read_ipv6_addr (\<lambda>gs.
     reads_bind (\<lambda>s. case read_scope_id s of None \<Rightarrow> Some (0, s) | Some r \<Rightarrow> Some r) (\<lambda>_.
     reads_bind (read_given_char CHR '']'') (\<lambda>_. reads_bind read_port (\<lambda>p.
     reads_return \<lparr>sa_ip = V6 gs, sa_port = p\<rparr>)))))"

definition socket_addr_from_str :: "string \<Rightarrow> socket_addr option" where
  "socket_addr_from_str s =
     (case (case read_socket_addr_v4 s of None \<Rightarrow> read_socket_addr_v6 s | Some r \<Rightarrow> Some r) of
        Some (a, []) \<Rightarrow> Some a
      | _ \<Rightarrow> None)"

section \<open>What the parser accepts\<close>

text \<open>Every address it accepts is well formed: an IPv6 address has eight groups.\<close>

fun ip_wf :: "ip_addr \<Rightarrow> bool" where
  "ip_wf (V4 a b c d) = True"
| "ip_wf (V6 gs) = (length gs = 8)"

lemma reads_bind_Some [simp]:
  "reads_bind p f s = Some (y, u) \<longleftrightarrow> (\<exists>x t. p s = Some (x, t) \<and> f x t = Some (y, u))"
  by (auto simp: reads_bind_def split: option.splits)

lemma reads_return_Some [simp]: "reads_return x s = Some (y, u) \<longleftrightarrow> x = y \<and> s = u"
  by (simp add: reads_return_def)

lemma read_groups_length: "length (fst (read_groups r i s)) \<le> r"
proof (induction r arbitrary: i s)
  case (Suc r)
  have rec: "length (fst (read_groups r (Suc i) t)) \<le> r" for t by (rule Suc)
  show ?case
  proof (cases "if 0 < r then read_separator CHR '':'' i read_ipv4_addr s else None")
    case None
    then show ?thesis
      using rec by (auto simp: case_prod_beta Let_def split: option.splits)
  next
    case (Some p)
    then show ?thesis by (cases p) (auto split: if_splits)
  qed
qed simp

lemma read_ipv6_addr_length:
  assumes "read_ipv6_addr s = Some (gs, t)"
  shows "length gs = 8"
proof -
  obtain h v u where r: "read_groups 8 0 s = (h, v, u)" by (metis prod_cases3)
  then have h: "length h \<le> 8" using read_groups_length [of 8 0 s] by simp
  show ?thesis
  proof (cases "length h = 8")
    case True
    with assms r show ?thesis by (simp add: read_ipv6_addr_def)
  next
    case False
    with assms r obtain w where gs: "gs = h @ replicate (8 - length h - length (fst w)) 0 @ fst w"
      and w: "length (fst w) \<le> 8 - (length h + 1)"
      using read_groups_length by (auto simp: read_ipv6_addr_def case_prod_beta split: if_splits)
    show ?thesis using False h w by (simp add: gs)
  qed
qed

lemma socket_addr_from_str_wf: "socket_addr_from_str s = Some a \<Longrightarrow> ip_wf (sa_ip a)"
  by (auto simp: socket_addr_from_str_def read_socket_addr_v4_def read_socket_addr_v6_def
        read_ipv6_addr_length split: option.splits list.splits)

lemmas parser_defs = socket_addr_from_str_def read_socket_addr_v4_def read_socket_addr_v6_def
  read_port_def read_scope_id_def read_ipv4_addr_def read_octet_def read_ipv6_addr_def
  reads_bind_def reads_return_def read_given_char_def to_digit_def read_number_def
  read_separator_def

lemma sample_listen_parse: "socket_addr_from_str ''0.0.0.0:9100'' = Some \<lparr>sa_ip = V4 0 0 0 0, sa_port = 9100\<rparr>"
  by (simp add: parser_defs)
end
