(* ===== verification/Hex_Key.thy ===== *)
theory Hex_Key
  imports Addr_Parse
begin

text \<open>
  Hexadecimal keys, the function \<open>hex_decode\<close> of \<open>src/bin/prom_proxy.rs\<close>, with the parts of
  the standard library it uses written out on the UTF-8 bytes of a string: \<open>str::trim\<close>,
  slicing by byte positions and \<open>u8::from_str_radix\<close>. The lemmas relate the loop over the
  positions to the recursion \<open>hex_bytes\<close> over pairs of characters.
\<close>

section \<open>Strings\<close>

text \<open>
  \<open>str::trim\<close>: the characters with the Unicode property \<open>White_Space\<close> as their UTF-8 bytes.
\<close>

definition white_space :: "string list" where
  "white_space = map (map (char_of :: nat \<Rightarrow> char))
     ([[9], [10], [11], [12], [13], [32], [194, 133], [194, 160], [225, 154, 128]] @
      map (\<lambda>k. [226, 128, k]) [128, 129, 130, 131, 132, 133, 134, 135, 136, 137, 138, 168, 169, 175] @
      [[226, 129, 159], [227, 128, 128]])"

fun starts_with :: "string \<Rightarrow> string \<Rightarrow> bool" where
  "starts_with [] s = True"
| "starts_with (c # w) [] = False"
| "starts_with (c # w) (x # s) = (c = x \<and> starts_with w s)"

lemma starts_with_iff: "starts_with w s \<longleftrightarrow> (\<exists>t. s = w @ t)"
  by (induction w s rule: starts_with.induct) auto

function strip :: "string list \<Rightarrow> string \<Rightarrow> string" where
  "strip ws s =
     (case find (\<lambda>w. w \<noteq> [] \<and> starts_with w s) ws of
        None \<Rightarrow> s
      | Some w \<Rightarrow> strip ws (drop (length w) s))"
  by pat_completeness auto
termination
  by (relation "measure (length \<circ> snd)") (auto simp: find_Some_iff starts_with_iff)

declare strip.simps [simp del]

definition trim :: "string \<Rightarrow> string" where
  "trim s = rev (strip (map rev white_space) (rev (strip white_space s)))"

text \<open>Slicing by byte positions panics inside a character.\<close>

definition is_char_boundary :: "string \<Rightarrow> nat \<Rightarrow> bool" where
  "is_char_boundary s i \<longleftrightarrow>
     i = 0 \<or> i = length s \<or>
     (i < length s \<and> \<not> (128 \<le> (of_char (s ! i) :: nat) \<and> (of_char (s ! i) :: nat) < 192))"

fun floor_char_boundary :: "string \<Rightarrow> nat \<Rightarrow> nat" where
  "floor_char_boundary s 0 = 0"
| "floor_char_boundary s (Suc i) =
     (if length s \<le> Suc i then length s
      else if is_char_boundary s (Suc i) then Suc i else floor_char_boundary s i)"

text \<open>The character that starts at a boundary, its length told by its first byte.\<close>

definition char_at :: "string \<Rightarrow> nat \<Rightarrow> string" where
  "char_at s i =
     (let b = (of_char (s ! i) :: nat);
          n = (if b < 128 then 1 else if b < 224 then 2 else if b < 240 then 3 else 4) in
      take n (drop i s))"

text \<open>
  The message of the panic, as the standard library composes it. It quotes the string, up to
  256 bytes of it; the character it names is quoted as it is, without the escapes \<open>Debug\<close> has
  for those that cannot be printed.
\<close>

definition slice_error :: "string \<Rightarrow> nat \<Rightarrow> nat \<Rightarrow> string" where
  "slice_error s i j =
     (let n = floor_char_boundary s 256;
          quoted = ''`'' @ take n s @ ''`'' @ (if n < length s then ''[...]'' else []) in
      if length s < i \<or> length s < j
      then ''byte index '' @ show_dec (if length s < i then i else j) @ '' is out of bounds of '' @ quoted
      else if j < i
      then ''begin <= end ('' @ show_dec i @ '' <= '' @ show_dec j @ '') when slicing '' @ quoted
      else
        let k = (if is_char_boundary s i then j else i);
            start = floor_char_boundary s k; c = char_at s start in
        ''byte index '' @ show_dec k @ '' is not a char boundary; it is inside '' @
        [CHR 0x27] @ c @ [CHR 0x27] @ '' (bytes '' @ show_dec start @ ''..'' @ show_dec (start + length c) @
        '') of '' @ quoted)"

definition str_slice :: "string \<Rightarrow> nat \<Rightarrow> nat \<Rightarrow> ('e, string) res" where
  "str_slice s i j =
     (if i \<le> j \<and> is_char_boundary s i \<and> is_char_boundary s j then Ok (take (j - i) (drop i s))
      else Panic (slice_error s i j))"

text \<open>\<open>u8::from_str_radix(_, 16)\<close>, the error shown with \<open>to_string\<close>.\<close>

fun hex_acc :: "nat \<Rightarrow> string \<Rightarrow> string + nat" where
  "hex_acc acc [] = Inr acc"
| "hex_acc acc (c # cs) =
     (case to_digit 16 c of
        None \<Rightarrow> Inl ''invalid digit found in string''
      | Some d \<Rightarrow>
          if acc * 16 + d > 255 then Inl ''number too large to fit in target type''
          else hex_acc (acc * 16 + d) cs)"

definition u8_from_hex :: "string \<Rightarrow> string + u8" where
  "u8_from_hex s =
     (if s = [] then Inl ''cannot parse integer from empty string''
      else if s = ''+'' \<or> s = ''-'' then Inl ''invalid digit found in string''
      else map_sum id of_nat (hex_acc 0 (if hd s = CHR ''+'' then tl s else s)))"

section \<open>Decoding a key\<close>

function hex_pairs :: "string \<Rightarrow> nat \<Rightarrow> (string, bytes) res" where
  "hex_pairs s i =
     (if i < length s
      then rbind (str_slice s i (i + 2)) (\<lambda>p.
           rbind (of_sum (u8_from_hex p)) (\<lambda>b.
           rbind (hex_pairs s (i + 2)) (\<lambda>bs.
           Ok (b # bs))))
      else Ok [])"
  by pat_completeness auto
termination
  by (relation "measure (\<lambda>(s, i). length s - i)") auto

declare hex_pairs.simps [simp del]

definition hex_decode :: "string \<Rightarrow> (string, bytes) res" where
  "hex_decode s =
     (let s = trim s in
      if length s mod 2 \<noteq> 0 then Err ''odd length'' else hex_pairs s 0)"

section \<open>Lemmas\<close>

lemma strip_nothing:
  assumes "\<forall>w\<in>set ws. \<not> (w \<noteq> [] \<and> starts_with w s)"
  shows "strip ws s = s"
proof -
  have "find (\<lambda>w. w \<noteq> [] \<and> starts_with w s) ws = None" using assms by (auto simp: find_None_iff)
  then show ?thesis by (subst strip.simps) simp
qed

text \<open>No encoding of a white-space character is a prefix of another one.\<close>

definition prefix_free :: "string list \<Rightarrow> bool" where
  "prefix_free ws \<longleftrightarrow> (\<forall>v\<in>set ws. \<forall>w\<in>set ws. v \<noteq> [] \<and> (starts_with v w \<longrightarrow> v = w))"

lemma starts_with_comparable:
  "starts_with v s \<Longrightarrow> starts_with w s \<Longrightarrow> starts_with v w \<or> starts_with w v"
  by (auto simp: starts_with_iff append_eq_append_conv2)

lemma strip_one:
  assumes "prefix_free ws" "u \<in> set ws"
  shows "strip ws (u @ s) = strip ws s"
proof -
  have "starts_with u (u @ s)" "u \<noteq> []" using assms by (auto simp: starts_with_iff prefix_free_def)
  with assms(2) have "find (\<lambda>w. w \<noteq> [] \<and> starts_with w (u @ s)) ws \<noteq> None"
    by (auto simp: find_None_iff)
  then obtain w where w: "find (\<lambda>w. w \<noteq> [] \<and> starts_with w (u @ s)) ws = Some w" by blast
  then have "w \<in> set ws" "starts_with w (u @ s)" by (auto simp: find_Some_iff)
  moreover have "starts_with u w \<or> starts_with w u"
    using \<open>starts_with u (u @ s)\<close> \<open>starts_with w (u @ s)\<close> by (rule starts_with_comparable)
  ultimately have "w = u" using assms by (auto simp: prefix_free_def)
  with w show ?thesis by (subst strip.simps) simp
qed

lemma strip_many: "prefix_free ws \<Longrightarrow> set us \<subseteq> set ws \<Longrightarrow> strip ws (concat us @ s) = strip ws s"
  by (induction us) (auto simp: strip_one)

lemma white_space_free: "prefix_free white_space" "prefix_free (map rev white_space)"
  by (simp_all add: prefix_free_def white_space_def)

text \<open>The characters a key is written with, and that none of them is part of white space.\<close>

definition plain_char :: "char \<Rightarrow> bool" where
  "plain_char c \<longleftrightarrow> 33 \<le> (of_char c :: nat) \<and> (of_char c :: nat) < 127"

lemma white_space_not_plain: "\<forall>w\<in>set white_space. w \<noteq> [] \<and> \<not> plain_char (hd w) \<and> \<not> plain_char (last w)"
  by (simp add: white_space_def plain_char_def)

lemma strip_plain:
  "s = [] \<or> plain_char (hd s) \<Longrightarrow> strip white_space s = s"
  "s = [] \<or> plain_char (hd s) \<Longrightarrow> strip (map rev white_space) s = s"
proof -
  have bad: "\<not> (w \<noteq> [] \<and> starts_with w s)" if "s = [] \<or> plain_char (hd s)" "\<not> plain_char (hd w)" for w
    using that by (cases w) (auto simp: starts_with_iff)
  have r: "\<not> plain_char (hd (rev w))" if "w \<in> set white_space" for w
    using that white_space_not_plain by (simp add: hd_rev)
  show "strip white_space s = s" if "s = [] \<or> plain_char (hd s)"
    using bad [OF that] white_space_not_plain by (intro strip_nothing) blast
  show "strip (map rev white_space) s = s" if "s = [] \<or> plain_char (hd s)"
    using bad [OF that] r by (intro strip_nothing) auto
qed

lemma trim_plain: "s \<noteq> [] \<Longrightarrow> plain_char (hd s) \<Longrightarrow> plain_char (last s) \<Longrightarrow> trim s = s"
  by (simp add: trim_def strip_plain hd_rev)

lemma trim_surrounded:
  assumes "set us \<subseteq> set white_space" "set vs \<subseteq> set white_space" "\<forall>c\<in>set s. plain_char c"
    and "s \<noteq> []"
  shows "trim (concat us @ s @ concat vs) = s"
proof -
  have 1: "strip white_space (concat us @ s @ concat vs) = s @ concat vs"
  proof -
    have "strip white_space (concat us @ s @ concat vs) = strip white_space (s @ concat vs)"
      by (rule strip_many [OF white_space_free(1) assms(1)])
    also have "\<dots> = s @ concat vs"
      using assms(3,4) by (intro strip_plain) simp
    finally show ?thesis .
  qed
  have 2: "rev (concat vs) = concat (rev (map rev vs))" by (simp add: rev_concat rev_map)
  have 3: "strip (map rev white_space) (rev (s @ concat vs)) = rev s"
  proof -
    have "strip (map rev white_space) (concat (rev (map rev vs)) @ rev s) = strip (map rev white_space) (rev s)"
      using assms(2) by (intro strip_many white_space_free) auto
    moreover have "strip (map rev white_space) (rev s) = rev s"
      using assms(3,4) by (intro strip_plain) (simp add: hd_rev)
    ultimately show ?thesis by (simp add: 2)
  qed
  show ?thesis by (simp add: trim_def 1 3 del: rev_append)
qed


text \<open>The message of a slice panic quotes the string.\<close>

lemma floor_char_boundary_all: "length s \<le> i \<Longrightarrow> floor_char_boundary s i = length s"
  by (cases i) simp_all

lemma slice_error_quotes: "\<exists>pre post. slice_error s i j = pre @ take (floor_char_boundary s 256) s @ post"
proof -
  have q: "\<exists>pre' post. pre @ ''`'' @ take n s @ ''`'' @ e = pre' @ take n s @ post" for pre n e
    by (intro exI [of _ "pre @ ''`''"] exI [of _ "''`'' @ e"]) simp
  show ?thesis
    unfolding slice_error_def Let_def by (split if_split)+ (simp only: append_assoc [symmetric] q [simplified append_assoc [symmetric]] simp_thms)
qed

text \<open>The byte a pair of characters stands for: two hexadecimal digits, or a sign and one.\<close>

definition pair_value :: "char \<Rightarrow> char \<Rightarrow> u8 option" where
  "pair_value c d =
     (case to_digit 16 d of
        None \<Rightarrow> None
      | Some y \<Rightarrow>
          if c = CHR ''+'' then Some (of_nat y)
          else map_option (\<lambda>x. of_nat (x * 16 + y)) (to_digit 16 c))"

fun hex_bytes :: "string \<Rightarrow> bytes option" where
  "hex_bytes [] = Some []"
| "hex_bytes [c] = None"
| "hex_bytes (c # d # s) =
     (case pair_value c d of
        None \<Rightarrow> None
      | Some b \<Rightarrow> map_option ((#) b) (hex_bytes s))"

lemma to_digit_16:
  assumes "to_digit 16 c = Some x"
  shows "x < 16" "(of_char c :: nat) < 128" "plain_char c" "c \<noteq> CHR ''+''" "c \<noteq> CHR ''-''"
  using assms by (auto simp: to_digit_def Let_def plain_char_def split: if_splits)

lemma u8_from_hex_pair:
  "u8_from_hex [c, d] =
     (case pair_value c d of None \<Rightarrow> Inl ''invalid digit found in string'' | Some b \<Rightarrow> Inr b)"
  using to_digit_16(1,4) [of c] to_digit_16(1) [of d]
  by (cases "to_digit 16 c"; cases "to_digit 16 d") (force simp: u8_from_hex_def pair_value_def)+

lemma pair_value_ascii: "pair_value c d = Some b \<Longrightarrow> (of_char c :: nat) < 128"
  by (auto simp: pair_value_def dest: to_digit_16(2) split: option.splits if_splits)

lemma hex_bytes_boundary:
  assumes "hex_bytes (drop i s) = Some bs" "i \<le> length s"
  shows "is_char_boundary s i"
proof (cases "drop i s" rule: hex_bytes.cases)
  case (3 c d t)
  then have "s ! i = c" by (rule nth_via_drop)
  moreover from 3 have "i < length s" by (metis drop_eq_Nil list.distinct(1) not_le)
  ultimately show ?thesis
    using 3 assms(1) pair_value_ascii [of c d]
    by (auto simp: is_char_boundary_def split: option.splits)
qed (use assms in \<open>auto simp: is_char_boundary_def\<close>)

lemma drop_pair: "i + 2 \<le> length s \<Longrightarrow> drop i s = s ! i # s ! Suc i # drop (i + 2) s"
  by (metis Cons_nth_drop_Suc Suc_1 Suc_leD Suc_le_lessD add_2_eq_Suc' le_add1 less_le_trans add.commute)

lemma hex_pairs_step:
  assumes "i + 2 \<le> length s" "is_char_boundary s i"
  shows "hex_pairs s i =
    (if is_char_boundary s (i + 2)
     then (case pair_value (s ! i) (s ! Suc i) of
        None \<Rightarrow> Err ''invalid digit found in string''
      | Some b \<Rightarrow> rbind (hex_pairs s (i + 2)) (\<lambda>bs. Ok (b # bs)))
     else Panic (slice_error s i (i + 2)))"
  using assms drop_pair [OF assms(1)]
  by (subst hex_pairs.simps) (simp add: str_slice_def u8_from_hex_pair split: option.splits)

lemma hex_pairs_end: "length s \<le> i \<Longrightarrow> hex_pairs s i = Ok []"
  by (subst hex_pairs.simps) simp

lemma hex_pairs_Ok_iff:
  assumes "length s = i + 2 * k" "is_char_boundary s i"
  shows "hex_pairs s i = Ok bs \<longleftrightarrow> hex_bytes (drop i s) = Some bs"
  using assms
proof (induction k arbitrary: i bs)
  case 0
  then show ?case by (auto simp: hex_pairs_end)
next
  case (Suc k)
  then have i: "i + 2 \<le> length s" by simp
  from Suc.prems(1) have "length s = i + 2 + 2 * k" by simp
  note IH = Suc.IH [OF this]
  have b: "hex_bytes (drop (i + 2) s) = Some cs \<Longrightarrow> is_char_boundary s (i + 2)" for cs
    by (rule hex_bytes_boundary [OF _ i])
  show ?case
  proof (cases "is_char_boundary s (i + 2)")
    case True
    then show ?thesis
      by (simp add: hex_pairs_step [OF i Suc.prems(2)] drop_pair [OF i] split: option.splits)
        (use IH in \<open>auto simp: map_option_case split: option.splits\<close>)
  next
    case False
    with b have "hex_bytes (drop (i + 2) s) = None" by (cases "hex_bytes (drop (i + 2) s)") auto
    with False show ?thesis
      by (simp add: hex_pairs_step [OF i Suc.prems(2)] drop_pair [OF i] split: option.splits)
  qed
qed

lemma hex_pairs_Err:
  assumes "length s = i + 2 * k" "is_char_boundary s i" "hex_pairs s i = Err e"
  shows "e = ''invalid digit found in string''"
  using assms
proof (induction k arbitrary: i)
  case 0
  then show ?case by (auto simp: hex_pairs_end)
next
  case (Suc k)
  then have i: "i + 2 \<le> length s" "length s = i + 2 + 2 * k" by simp_all
  from Suc.prems(3) Suc.IH [OF i(2)] show ?case
    by (auto simp: hex_pairs_step [OF i(1) Suc.prems(2)] res_elims split: option.splits if_splits)
qed

text \<open>
  Up to the pair at \<open>k\<close> the decoder works on pairs that are complete; a slice that ends inside a
  character panics there.
\<close>

lemma hex_pairs_skip:
  assumes "hex_bytes p = Some bs" "length s = i + length p + m" "take (length p) (drop i s) = p"
    and "is_char_boundary s i" "is_char_boundary s (i + length p)" "even m"
  shows "hex_pairs s i = rbind (hex_pairs s (i + length p)) (\<lambda>cs. Ok (bs @ cs))"
  using assms
proof (induction p arbitrary: i bs rule: hex_bytes.induct)
  case 1
  then show ?case by (cases "hex_pairs s i") simp_all
next
  case (3 c d p)
  from "3.prems"(2) have i: "i + 2 \<le> length s" by simp
  from "3.prems"(3) have cd: "s ! i = c" "s ! Suc i = d" "take (length p) (drop (i + 2) s) = p"
    by (simp_all add: drop_pair [OF i] del: drop_drop)
  from "3.prems"(1) obtain b cs where b: "pair_value c d = Some b" "hex_bytes p = Some cs" "bs = b # cs"
    by (auto split: option.splits)
  have bd: "is_char_boundary s (i + 2)"
  proof (cases p rule: hex_bytes.cases)
    case 1
    with "3.prems"(5) show ?thesis by simp
  next
    case (3 x y q)
    with b(2) have "(of_char x :: nat) < 128" by (auto dest: pair_value_ascii split: option.splits)
    moreover have "drop (i + 2) s = x # (y # q) @ drop (length p) (drop (i + 2) s)"
      using cd(3) 3 append_take_drop_id [of "length p" "drop (i + 2) s"] by (metis append_Cons)
    then have "s ! (i + 2) = x" by (rule nth_via_drop)
    moreover have "i + 2 < length s" using 3 "3.prems"(2) by simp
    ultimately show ?thesis by (simp add: is_char_boundary_def)
  qed (use b(2) in simp)
  have "hex_pairs s (i + 2) = rbind (hex_pairs s (i + 2 + length p)) (\<lambda>ds. Ok (cs @ ds))"
    using "3.prems" bd cd b by (intro "3.IH") simp_all
  then show ?case
    by (cases "hex_pairs s (i + 2 + length p)")
       (simp_all add: hex_pairs_step [OF i "3.prems"(4)] bd bd [simplified] cd b add.assoc)
qed simp

lemma hex_decode_Ok_iff: "hex_decode s = Ok bs \<longleftrightarrow> hex_bytes (trim s) = Some bs"
proof -
  have odd: "odd (length t) \<Longrightarrow> hex_bytes t = None" for t
    by (induction t rule: hex_bytes.induct) (auto split: option.splits)
  show ?thesis
  proof (cases "even (length (trim s))")
    case True
    then obtain k where "length (trim s) = 0 + 2 * k" by auto
    from hex_pairs_Ok_iff [OF this] True show ?thesis
      by (simp add: hex_decode_def is_char_boundary_def)
  next
    case False
    with odd show ?thesis by (simp add: hex_decode_def odd_iff_mod_2_eq_one)
  qed
qed

section \<open>Properties\<close>

text \<open>
  The decoder accepts a key exactly if, without the white space around it, it is a
  sequence of pairs of which each is two hexadecimal digits or a plus sign and one digit, and
  returns the byte of every pair in order.
\<close>

theorem hex_decode_exact: "hex_decode s = Ok bs \<longleftrightarrow> hex_bytes (trim s) = Some bs"
  by (rule hex_decode_Ok_iff)

text \<open>The spelling of a key: \<open>{:02x}\<close> of every byte.\<close>

definition byte_hex :: "u8 \<Rightarrow> string" where
  "byte_hex b = [digit_char (unat b div 16), digit_char (unat b mod 16)]"

definition hex_encode :: "bytes \<Rightarrow> string" where
  "hex_encode bs = concat (map byte_hex bs)"

lemma to_digit_digit_char: "d < 16 \<Longrightarrow> to_digit 16 (digit_char d) = Some d"
  by (simp add: to_digit_def digit_char_def Let_def of_char_of)

lemma u8_digits: "unat (b :: u8) div 16 < 16"
proof -
  have "unat b < 256" using unsigned_less [of b] by simp
  then show ?thesis by simp
qed

lemma pair_value_byte: "pair_value (digit_char (unat b div 16)) (digit_char (unat b mod 16)) = Some b"
proof -
  have "of_nat (unat b div 16 * 16 + unat b mod 16) = b" unfolding div_mult_mod_eq by simp
  then show ?thesis
    using to_digit_16(4) [OF to_digit_digit_char [OF u8_digits [of b]]]
    by (simp add: pair_value_def to_digit_digit_char u8_digits del: of_nat_add of_nat_mult)
qed

lemma hex_bytes_encode: "hex_bytes (hex_encode bs) = Some bs"
  by (induction bs) (simp_all add: hex_encode_def byte_hex_def pair_value_byte)

lemma hex_encode_plain: "\<forall>c\<in>set (hex_encode bs). plain_char c"
  by (auto simp: hex_encode_def byte_hex_def intro: to_digit_16(3) [OF to_digit_digit_char] u8_digits)

text \<open>
  C28: The hexadecimal spelling of any bytes decodes to these bytes, with any white space
  around it (a key read from a file keeps its line end).
\<close>

theorem hex_key_roundtrip:
  assumes "set us \<subseteq> set white_space" "set vs \<subseteq> set white_space" "bs \<noteq> []"
  shows "hex_decode (concat us @ hex_encode bs @ concat vs) = Ok bs"
proof -
  have ne: "hex_encode bs \<noteq> []" using assms(3) by (cases bs) (simp_all add: hex_encode_def byte_hex_def)
  have t: "trim (concat us @ hex_encode bs @ concat vs) = hex_encode bs"
    by (rule trim_surrounded [OF assms(1,2) hex_encode_plain ne])
  have l: "length (hex_encode bs) = 0 + 2 * length bs"
    by (induction bs) (simp_all add: hex_encode_def byte_hex_def)
  show ?thesis
    using hex_pairs_Ok_iff [OF l, of bs] hex_bytes_encode [of bs] l
    by (simp add: hex_decode_def t is_char_boundary_def)
qed

theorem hex_key_roundtrip_witness:
  "hex_decode (concat [[char_of (32 :: nat)]] @ hex_encode [7, 28] @ concat [[char_of (13 :: nat)], [char_of (10 :: nat)]])
     = Ok [7, 28]"
  by (rule hex_key_roundtrip) (simp_all add: white_space_def)

text \<open>
  C40: A key that has a multi-byte character behind complete pairs makes the decoder panic
  instead of returning an error, when the character crosses the end of a pair; the message is
  that of the standard library for the slice of that pair, which quotes the key.
\<close>

theorem hex_decode_panics:
  assumes "trim s = p @ c # x # y # r" and "even (length (trim s))" and "hex_bytes p = Some bs"
    and "\<not> (128 \<le> (of_char c :: nat) \<and> (of_char c :: nat) < 192)"
    and "128 \<le> (of_char y :: nat)" "(of_char y :: nat) < 192"
  shows "hex_decode s = Panic (slice_error (trim s) (length p) (length p + 2))"
proof -
  let ?t = "trim s"
  have even: "even (length p)"
    using assms(3) by (induction p arbitrary: bs rule: hex_bytes.induct) (auto split: option.splits)
  have l: "length ?t = 0 + length p + (3 + length r)" by (simp add: assms(1))
  have m: "even (3 + length r)" using assms(2) even unfolding l by simp
  have c: "is_char_boundary ?t (0 + length p)"
    using assms(4) by (simp add: is_char_boundary_def assms(1) nth_append)
  have y: "\<not> is_char_boundary ?t (length p + 2)"
    using assms(5,6) by (auto simp: is_char_boundary_def assms(1) nth_append)
  have "hex_pairs ?t 0 = rbind (hex_pairs ?t (0 + length p)) (\<lambda>cs. Ok (bs @ cs))"
    by (rule hex_pairs_skip [OF assms(3) l _ _ c m]) (simp_all add: assms(1) is_char_boundary_def)
  moreover have "hex_pairs ?t (length p) = Panic (slice_error ?t (length p) (length p + 2))"
    using hex_pairs_step [of "length p" ?t] c y l by simp
  ultimately show ?thesis using assms(2) by (simp add: hex_decode_def)
qed

theorem hex_decode_panics_witness:
  "let e = [char_of (195 :: nat), char_of (169 :: nat)] in
   hex_decode (''0'' @ e @ ''0'') = Panic (''byte index 2 is not a char boundary; it is inside '' @
     [CHR 0x27] @ e @ [CHR 0x27] @ '' (bytes 1..3) of `0'' @ e @ ''0`'')"
proof -
  let ?s = "''0'' @ [char_of (195 :: nat), char_of (169 :: nat)] @ ''0''"
  have t: "trim ?s = [] @ CHR ''0'' # char_of (195 :: nat) # char_of (169 :: nat) # ''0''"
    by (simp add: trim_plain plain_char_def)
  have "even (length ?s)" by simp
  then have "hex_decode ?s = Panic (slice_error ?s (length ([] :: string)) (length ([] :: string) + 2))"
    using hex_decode_panics [OF t, of "[]"] unfolding t by simp
  then have "hex_decode ?s = Panic (slice_error ?s 0 2)" by (simp only: list.size add_0)
  moreover have "slice_error ?s 0 2 = ''byte index 2 is not a char boundary; it is inside '' @
      [CHR 0x27] @ [char_of (195 :: nat), char_of (169 :: nat)] @ [CHR 0x27] @ '' (bytes 1..3) of `0'' @
      [char_of (195 :: nat), char_of (169 :: nat)] @ ''0`''"
    by code_simp
  ultimately show ?thesis by (simp add: Let_def)
qed

text \<open>
  A key of odd length is refused as such; a key of ASCII characters never makes the
  decoder panic; and the only other error is the one of a character that is no digit.
\<close>

theorem hex_decode_errors:
  "(odd (length (trim s)) \<longrightarrow> hex_decode s = Err ''odd length'') \<and>
   (hex_decode s = Err e \<longrightarrow> (if even (length (trim s)) then e = ''invalid digit found in string''
      else e = ''odd length'')) \<and>
   ((\<forall>c\<in>set (trim s). (of_char c :: nat) < 128) \<longrightarrow> hex_decode s \<noteq> Panic m)"
proof (intro conjI impI)
  show "hex_decode s = Err ''odd length''" if "odd (length (trim s))"
    using that by (simp add: hex_decode_def odd_iff_mod_2_eq_one)
  show "if even (length (trim s)) then e = ''invalid digit found in string'' else e = ''odd length''"
    if "hex_decode s = Err e"
    using that hex_pairs_Err [of "trim s" 0 "length (trim s) div 2" e]
    by (auto simp: hex_decode_def Let_def is_char_boundary_def odd_iff_mod_2_eq_one split: if_splits)
  have "length t = i + 2 * k \<Longrightarrow> hex_pairs t i \<noteq> Panic m" if "\<forall>c\<in>set t. (of_char c :: nat) < 128" for t i k
  proof (induction k arbitrary: i)
    case (Suc k)
    then have i: "i + 2 \<le> length t" "length t = i + 2 + 2 * k" by simp_all
    have b: "is_char_boundary t j" if "j \<le> length t" for j
      using that \<open>\<forall>c\<in>set t. (of_char c :: nat) < 128\<close> nth_mem [of j t]
      by (cases "j = length t") (fastforce simp: is_char_boundary_def)+
    show ?case
      using Suc.IH [OF i(2)] i(1) b hex_pairs_step [OF i(1) b]
      by (auto simp: res_elims split: option.splits)
  qed (simp add: hex_pairs_end)
  from this [of "trim s" 0 "length (trim s) div 2"]
  show "hex_decode s \<noteq> Panic m" if "\<forall>c\<in>set (trim s). (of_char c :: nat) < 128"
    using that by (auto simp: hex_decode_def Let_def even_two_times_div_two)
qed

theorem hex_decode_errors_witness: "hex_decode ''abc'' = Err ''odd length''"
proof -
  have "trim ''abc'' = ''abc''" by (simp add: trim_plain plain_char_def)
  then have "odd (length (trim ''abc''))" by (simp only: list.size) simp
  then show ?thesis by (rule hex_decode_errors [THEN conjunct1, THEN mp])
qed

end
