(* ===== verification/Prom_Args.thy ===== *)
theory Prom_Args
  imports Hex_Key Tiny_Frame
begin

text \<open>
  The command line of the proxy, \<open>parse_args\<close> of \<open>src/bin/prom_proxy.rs\<close>. An argument or
  an environment variable is an \<open>os_string\<close>; \<open>std::env::args\<close> panics on one that is not
  Unicode (with a message that goes on with the argument, in a \<open>Debug\<close> form that is not
  modelled), \<open>std::env::var(_).ok()\<close> treats it as absent. The process leaves with an
  \<open>exit_cause\<close>, which determines its status; the texts printed on the way are in Prom_Output.
\<close>

datatype os_string = Unicode string | Not_Unicode bytes

datatype exit_cause =
  Usage | Unknown_Argument string | Invalid_Listen string | Invalid_Secretkey string | Key_Length nat

fun exit_status :: "exit_cause \<Rightarrow> nat" where
  "exit_status Usage = 2"
| "exit_status (Unknown_Argument _) = 2"
| "exit_status (Invalid_Listen _) = 1"
| "exit_status (Invalid_Secretkey _) = 1"
| "exit_status (Key_Length _) = 1"

section \<open>The loop over the arguments\<close>

record arg_options =
  o_listen :: "string option"
  o_prometheus_url :: "string option"
  o_redis_url :: "string option"
  o_secretkey :: "string option"

definition no_options :: arg_options where
  "no_options = \<lparr>o_listen = None, o_prometheus_url = None, o_redis_url = None, o_secretkey = None\<rparr>"

fun next_arg :: "os_string list \<Rightarrow> ('e, string option \<times> os_string list) res" where
  "next_arg [] = Ok (None, [])"
| "next_arg (Unicode a # args) = Ok (Some a, args)"
| "next_arg (Not_Unicode b # args) = Panic ''called `Result::unwrap()` on an `Err` value''"

definition or_usage :: "'a option \<Rightarrow> (exit_cause, 'a) res" where
  "or_usage v = (case v of Some x \<Rightarrow> Ok x | None \<Rightarrow> Err Usage)"

text \<open>One turn of the loop: the argument just read decides what becomes of the next one.\<close>

definition arg_turn :: "string \<Rightarrow> os_string list \<Rightarrow> arg_options \<Rightarrow> (exit_cause, arg_options \<times> os_string list) res" where
  "arg_turn arg args opts =
     (let option_value = (\<lambda>set_option.
            rbind (next_arg args) (\<lambda>(v, args).
            rbind (or_usage v) (\<lambda>v. Ok (set_option v, args)))) in
      if arg = ''--listen'' then option_value (\<lambda>v. opts\<lparr>o_listen := Some v\<rparr>)
      else if arg = ''--prometheus-url'' then option_value (\<lambda>v. opts\<lparr>o_prometheus_url := Some v\<rparr>)
      else if arg = ''--redis-url'' then option_value (\<lambda>v. opts\<lparr>o_redis_url := Some v\<rparr>)
      else if arg = ''--secretkey'' then option_value (\<lambda>v. opts\<lparr>o_secretkey := Some v\<rparr>)
      else if arg = ''-h'' \<or> arg = ''--help'' then Err Usage
      else Err (Unknown_Argument arg))"

text \<open>The loop itself; \<open>None\<close> is a loop that does not end.\<close>

lemma case_res_mono [partial_function_mono]:
  assumes "\<And>x. mono_option (\<lambda>f. F f x)" "\<And>e. mono_option (\<lambda>f. G f e)" "\<And>p. mono_option (\<lambda>f. H f p)"
  shows "mono_option (\<lambda>f. case r of Ok x \<Rightarrow> F f x | Err e \<Rightarrow> G f e | Panic p \<Rightarrow> H f p)"
  using assms by (cases r) simp_all

partial_function (option) arg_loop :: "os_string list \<Rightarrow> arg_options \<Rightarrow> (exit_cause, arg_options) res option" where
  "arg_loop args opts =
     (case next_arg args of
        Ok (arg, args) \<Rightarrow>
          (case arg of
             None \<Rightarrow> Some (Ok opts)
           | Some arg \<Rightarrow>
               (case arg_turn arg args opts of
                  Ok (opts, args) \<Rightarrow> arg_loop args opts
                | Err e \<Rightarrow> Some (Err e)
                | Panic p \<Rightarrow> Some (Panic p)))
      | Err e \<Rightarrow> Some (Err e)
      | Panic p \<Rightarrow> Some (Panic p))"

section \<open>The settings\<close>

definition env_var :: "(string \<Rightarrow> os_string option) \<Rightarrow> string \<Rightarrow> string option" where
  "env_var env name = (case env name of Some (Unicode v) \<Rightarrow> Some v | _ \<Rightarrow> None)"

definition or_else :: "'a option \<Rightarrow> 'a option \<Rightarrow> 'a option" where
  "or_else v w = (case v of None \<Rightarrow> w | Some _ \<Rightarrow> v)"

record settings =
  s_listen :: socket_addr
  s_prometheus_url :: string
  s_redis_url :: string
  s_key :: bytes

definition settings_of :: "(string \<Rightarrow> os_string option) \<Rightarrow> arg_options \<Rightarrow> (exit_cause, settings) res" where
  "settings_of env opts =
     rbind (or_usage (or_else (o_listen opts) (env_var env ''PROM_PROXY_LISTEN''))) (\<lambda>listen_s.
     rbind (or_usage (or_else (o_prometheus_url opts) (env_var env ''PROM_PROXY_URL''))) (\<lambda>prometheus_url.
     rbind (or_usage (or_else (o_redis_url opts) (env_var env ''PROM_PROXY_REDIS_URL''))) (\<lambda>redis_url.
     rbind (or_usage (or_else (o_secretkey opts) (env_var env ''PROM_PROXY_SECRETKEY''))) (\<lambda>key_hex.
     rbind (case socket_addr_from_str listen_s of
              None \<Rightarrow> Err (Invalid_Listen listen_s) | Some a \<Rightarrow> Ok a) (\<lambda>listen.
     rbind (map_err Invalid_Secretkey (hex_decode key_hex)) (\<lambda>raw.
     if length raw \<noteq> KEY_LEN then Err (Key_Length (length raw))
     else Ok \<lparr>s_listen = listen, s_prometheus_url = prometheus_url, s_redis_url = redis_url,
              s_key = raw\<rparr>))))))"

definition parse_args ::
  "os_string list \<Rightarrow> (string \<Rightarrow> os_string option) \<Rightarrow> (exit_cause, settings) res option" where
  "parse_args argv env =
     (case next_arg argv of
        Ok (_, args) \<Rightarrow>
          (case arg_loop args no_options of
             None \<Rightarrow> None
           | Some r \<Rightarrow> Some (rbind r (settings_of env)))
      | Err e \<Rightarrow> Some (Err e)
      | Panic p \<Rightarrow> Some (Panic p))"

section \<open>Lemmas\<close>

fun_cases next_arg_OkE: "next_arg args = Ok (v, rest)"

lemma next_arg_Ok_length:
  "next_arg args = Ok (v, rest) \<Longrightarrow> length rest \<le> length args \<and> (v \<noteq> None \<longrightarrow> length rest < length args)"
  by (elim next_arg_OkE) auto

lemma arg_turn_length: "arg_turn arg args opts = Ok (opts', rest) \<Longrightarrow> length rest \<le> length args"
  by (auto simp: arg_turn_def Let_def dest: next_arg_Ok_length split: if_splits)

lemma arg_loop_returns: "\<exists>r. arg_loop args opts = Some r"
proof (induction "length args" arbitrary: args opts rule: less_induct)
  case less
  show ?case
  proof (cases "next_arg args :: (exit_cause, string option \<times> os_string list) res")
    case (Ok p)
    obtain v rest where p: "p = (v, rest)" by (cases p)
    show ?thesis
    proof (cases v)
      case (Some arg)
      with Ok p have lt: "length rest < length args" using next_arg_Ok_length by blast
      show ?thesis
      proof (cases "arg_turn arg rest opts")
        case okt: (Ok q)
        obtain opts' rest' where q: "q = (opts', rest')" by (cases q)
        with okt have "length rest' < length args" using arg_turn_length lt by fastforce
        from less [OF this, of opts'] show ?thesis
          by (subst arg_loop.simps) (simp add: Ok p Some okt q)
      qed (subst arg_loop.simps, simp add: Ok p Some)+
    qed (subst arg_loop.simps, simp add: Ok p)
  qed (subst arg_loop.simps, simp)+
qed

lemma arg_loop_not_None [simp]: "arg_loop args opts \<noteq> None"
  using arg_loop_returns [of args opts] by auto

lemma settings_of_Ok:
  "settings_of env opts = Ok st \<longleftrightarrow>
     (\<exists>l k. or_else (o_listen opts) (env_var env ''PROM_PROXY_LISTEN'') = Some l \<and>
        or_else (o_prometheus_url opts) (env_var env ''PROM_PROXY_URL'') = Some (s_prometheus_url st) \<and>
        or_else (o_redis_url opts) (env_var env ''PROM_PROXY_REDIS_URL'') = Some (s_redis_url st) \<and>
        or_else (o_secretkey opts) (env_var env ''PROM_PROXY_SECRETKEY'') = Some k \<and>
        socket_addr_from_str l = Some (s_listen st) \<and> hex_bytes (trim k) = Some (s_key st) \<and>
        length (s_key st) = KEY_LEN)"
  by (cases st) (auto simp: settings_of_def or_usage_def hex_decode_exact split: option.splits)

text \<open>
  Command lines that are sequences of options with a value, and the setting each option has
  after them: its last value.
\<close>

datatype option_name = Listen | Prometheus_Url | Redis_Url | Secretkey

instantiation option_name :: enum
begin

definition enum_option_name :: "option_name list" where
  "enum_option_name = [Listen, Prometheus_Url, Redis_Url, Secretkey]"

definition enum_all_option_name :: "(option_name \<Rightarrow> bool) \<Rightarrow> bool" where
  "enum_all_option_name P \<longleftrightarrow> P Listen \<and> P Prometheus_Url \<and> P Redis_Url \<and> P Secretkey"

definition enum_ex_option_name :: "(option_name \<Rightarrow> bool) \<Rightarrow> bool" where
  "enum_ex_option_name P \<longleftrightarrow> P Listen \<or> P Prometheus_Url \<or> P Redis_Url \<or> P Secretkey"

instance
proof
  show U: "(UNIV :: option_name set) = set Enum.enum"
    using option_name.exhaust by (auto simp: enum_option_name_def)
  show "distinct (Enum.enum :: option_name list)" by (simp add: enum_option_name_def)
  show "Enum.enum_all P \<longleftrightarrow> Ball UNIV P" for P :: "option_name \<Rightarrow> bool"
    by (simp add: enum_all_option_name_def U enum_option_name_def)
  show "Enum.enum_ex P \<longleftrightarrow> Bex UNIV P" for P :: "option_name \<Rightarrow> bool"
    by (simp add: enum_ex_option_name_def U enum_option_name_def)
qed

end

fun option_text :: "option_name \<Rightarrow> string" where
  "option_text Listen = ''--listen''"
| "option_text Prometheus_Url = ''--prometheus-url''"
| "option_text Redis_Url = ''--redis-url''"
| "option_text Secretkey = ''--secretkey''"

fun set_option :: "option_name \<times> string \<Rightarrow> arg_options \<Rightarrow> arg_options" where
  "set_option (Listen, v) opts = opts\<lparr>o_listen := Some v\<rparr>"
| "set_option (Prometheus_Url, v) opts = opts\<lparr>o_prometheus_url := Some v\<rparr>"
| "set_option (Redis_Url, v) opts = opts\<lparr>o_redis_url := Some v\<rparr>"
| "set_option (Secretkey, v) opts = opts\<lparr>o_secretkey := Some v\<rparr>"

text \<open>The environment variable behind each option.\<close>

fun variable :: "option_name \<Rightarrow> string" where
  "variable Listen = ''PROM_PROXY_LISTEN''"
| "variable Prometheus_Url = ''PROM_PROXY_URL''"
| "variable Redis_Url = ''PROM_PROXY_REDIS_URL''"
| "variable Secretkey = ''PROM_PROXY_SECRETKEY''"

definition words_of :: "(option_name \<times> string) list \<Rightarrow> os_string list" where
  "words_of fs = concat (map (\<lambda>(n, v). [Unicode (option_text n), Unicode v]) fs)"

definition options_of :: "(option_name \<times> string) list \<Rightarrow> arg_options" where
  "options_of fs =
     \<lparr>o_listen = map_of (rev fs) Listen, o_prometheus_url = map_of (rev fs) Prometheus_Url,
      o_redis_url = map_of (rev fs) Redis_Url, o_secretkey = map_of (rev fs) Secretkey\<rparr>"

lemma words_of_simps [simp]:
  "words_of [] = []"
  "words_of ((n, v) # fs) = Unicode (option_text n) # Unicode v # words_of fs"
  by (simp_all add: words_of_def)

lemma arg_turn_option [simp]:
  "arg_turn (option_text n) (Unicode v # args) opts = Ok (set_option (n, v) opts, args)"
  "arg_turn (option_text n) [] opts = Err Usage"
  by (cases n; simp add: arg_turn_def or_usage_def)+

lemma arg_loop_simps:
  "arg_loop [] opts = Some (Ok opts)"
  "arg_loop (Unicode a # args) opts =
     (case arg_turn a args opts of
        Ok (opts, args) \<Rightarrow> arg_loop args opts | Err e \<Rightarrow> Some (Err e) | Panic p \<Rightarrow> Some (Panic p))"
  by (subst arg_loop.simps, simp)+

lemma arg_loop_words: "arg_loop (words_of fs @ args) opts = arg_loop args (fold set_option fs opts)"
proof (induction fs arbitrary: opts)
  case (Cons f fs)
  then show ?case by (cases f) (simp add: arg_loop_simps)
qed simp

lemma fold_set_option: "fold set_option fs no_options = options_of fs"
proof (induction fs rule: rev_induct)
  case (snoc f fs)
  obtain n v where "f = (n, v)" by (cases f)
  with snoc show ?case by (cases n) (simp_all add: options_of_def)
qed (simp add: no_options_def options_of_def)

lemma parse_args_words:
  "parse_args (Unicode prog # words_of fs @ args) env =
     map_option (\<lambda>r. rbind r (settings_of env)) (arg_loop args (options_of fs))"
  by (simp add: parse_args_def arg_loop_words fold_set_option map_option_case)

text \<open>The text chosen for an option: its last value on the command line, or else its variable.\<close>

definition chosen :: "(option_name \<times> string) list \<Rightarrow> (string \<Rightarrow> os_string option) \<Rightarrow> option_name \<Rightarrow> string option" where
  "chosen fs env n =
     (case map_of (rev fs) n of
        Some v \<Rightarrow> Some v
      | None \<Rightarrow> (case env (variable n) of Some (Unicode v) \<Rightarrow> Some v | _ \<Rightarrow> None))"

lemma settings_chosen:
  "settings_of env (options_of fs) =
     rbind (or_usage (chosen fs env Listen)) (\<lambda>listen_s. rbind (or_usage (chosen fs env Prometheus_Url)) (\<lambda>prometheus_url.
     rbind (or_usage (chosen fs env Redis_Url)) (\<lambda>redis_url. rbind (or_usage (chosen fs env Secretkey)) (\<lambda>key_hex.
     rbind (case socket_addr_from_str listen_s of None \<Rightarrow> Err (Invalid_Listen listen_s) | Some a \<Rightarrow> Ok a) (\<lambda>listen.
     rbind (map_err Invalid_Secretkey (hex_decode key_hex)) (\<lambda>raw.
     if length raw \<noteq> KEY_LEN then Err (Key_Length (length raw))
     else Ok \<lparr>s_listen = listen, s_prometheus_url = prometheus_url, s_redis_url = redis_url, s_key = raw\<rparr>))))))"
proof -
  have c: "chosen fs env n = or_else (map_of (rev fs) n) (env_var env (variable n))" for n
    by (simp add: chosen_def or_else_def env_var_def split: option.splits os_string.splits)
  show ?thesis by (simp only: settings_of_def c options_of_def variable.simps arg_options.simps)
qed

definition sample_environment :: "string \<Rightarrow> os_string option" where
  "sample_environment name =
     (if name = ''PROM_PROXY_URL'' then Some (Unicode ''http://p'')
      else if name = ''PROM_PROXY_SECRETKEY'' then Some (Unicode (hex_encode (replicate 32 7)))
      else if name = ''PROM_PROXY_REDIS_URL'' then Some (Unicode ''redis://r'') else None)"

definition sample_settings :: settings where
  "sample_settings =
     \<lparr>s_listen = \<lparr>sa_ip = V4 0 0 0 0, sa_port = 9100\<rparr>, s_prometheus_url = ''http://p'',
      s_redis_url = ''redis://r'', s_key = replicate 32 7\<rparr>"

lemma sample_parse:
  "parse_args (Unicode ''prom_proxy'' # words_of [(Listen, ''0.0.0.0:9100'')]) sample_environment
     = Some (Ok sample_settings)"
proof -
  have "hex_encode (replicate 32 7) \<noteq> []" by (simp add: hex_encode_def byte_hex_def)
  then have k: "trim (hex_encode (replicate 32 7)) = hex_encode (replicate 32 7)"
    using trim_surrounded [of "[]" "[]", OF _ _ hex_encode_plain] by simp
  have "settings_of sample_environment (options_of [(Listen, ''0.0.0.0:9100'')]) = Ok sample_settings"
    unfolding settings_of_Ok
    by (intro exI [of _ "''0.0.0.0:9100''"] exI [of _ "hex_encode (replicate 32 7)"] conjI)
       (simp_all add: options_of_def or_else_def env_var_def sample_environment_def sample_settings_def
         sample_listen_parse k hex_bytes_encode KEY_LEN_def)
  then show ?thesis
    using parse_args_words [of "''prom_proxy''" "[(Listen, ''0.0.0.0:9100'')]" "[]" sample_environment]
    by (simp add: arg_loop_simps)
qed

section \<open>Properties\<close>

text \<open>
  C31: Reading the command line ends, for every argument vector and environment: with the
  settings, with an exit or with a panic.
\<close>

theorem parse_args_returns: "\<exists>r. parse_args argv env = Some r"
  by (auto simp: parse_args_def split: res.splits option.splits)

text \<open>
  C27: On a sequence of options with values, the value of each option is the last one given, or,
  if the option is not given, that of its environment variable, which never overrides the
  command line. If one of the four has no value the usage is printed; else a listen address
  that does not parse, a key that does not decode and a key of the wrong length are refused, in
  this order, and nothing else. An option without its value prints the usage, and a word that
  is no option is an error, whatever stands behind it. A value is taken as it stands even if
  it looks like an option.
\<close>

theorem command_line_exact:
  "let argv = Unicode prog # words_of fs;
       value = (\<lambda>n. case map_of (rev fs) n of
          Some v \<Rightarrow> Some v
        | None \<Rightarrow> (case env (variable n) of Some (Unicode v) \<Rightarrow> Some v | _ \<Rightarrow> None)) in
    parse_args argv env = Some
      (case (value Listen, value Prometheus_Url, value Redis_Url, value Secretkey) of
         (Some listen_s, Some prometheus_url, Some redis_url, Some key_hex) \<Rightarrow>
           (case (socket_addr_from_str listen_s, hex_decode key_hex) of
              (None, _) \<Rightarrow> Err (Invalid_Listen listen_s)
            | (_, Panic p) \<Rightarrow> Panic p
            | (_, Err e) \<Rightarrow> Err (Invalid_Secretkey e)
            | (Some listen, Ok key) \<Rightarrow>
                if length key = 32
                then Ok \<lparr>s_listen = listen, s_prometheus_url = prometheus_url, s_redis_url = redis_url, s_key = key\<rparr>
                else Err (Key_Length (length key)))
       | _ \<Rightarrow> Err Usage) \<and>
    parse_args (argv @ [Unicode (option_text n)]) env = Some (Err Usage) \<and>
    (if a \<in> {''-h'', ''--help''} then parse_args (argv @ Unicode a # rest) env = Some (Err Usage)
     else a \<in> range option_text \<or>
       parse_args (argv @ Unicode a # rest) env = Some (Err (Unknown_Argument a)))"
proof -
  have r: "range option_text = {''--listen'', ''--prometheus-url'', ''--redis-url'', ''--secretkey''}"
    by (simp add: UNIV_enum enum_option_name_def)
  have words: "parse_args (Unicode prog # words_of fs) env = Some (settings_of env (options_of fs))"
    using parse_args_words [of prog fs "[]" env] by (simp add: arg_loop_simps)
  have tail: "parse_args (Unicode prog # words_of fs @ [Unicode (option_text n)]) env = Some (Err Usage)"
    "if a \<in> {''-h'', ''--help''} then parse_args (Unicode prog # words_of fs @ Unicode a # rest) env = Some (Err Usage)
     else a \<in> range option_text \<or>
       parse_args (Unicode prog # words_of fs @ Unicode a # rest) env = Some (Err (Unknown_Argument a))"
    by (simp_all add: parse_args_words arg_loop_simps r) (simp add: arg_turn_def)
  show ?thesis
    unfolding Let_def chosen_def [symmetric] words settings_chosen
    using tail
    by (cases "chosen fs env Listen"; cases "chosen fs env Prometheus_Url"; cases "chosen fs env Redis_Url";
        cases "chosen fs env Secretkey")
       (simp_all add: or_usage_def KEY_LEN_def split: option.splits res.splits)
qed

end
