(* ===== verification/Prom_Main.thy ===== *)
theory Prom_Main
  imports Prom_Args Prom_Serve
begin

text \<open>
  The proxy process, \<open>main\<close> of \<open>src/bin/prom_proxy.rs\<close>: read the settings, set the global
  key, connect to Redis, serve. The events the server meets are given without the key, since
  the key of the process is the one \<open>main\<close> has set. What is printed is in Prom_Output.
\<close>

section \<open>The process\<close>

datatype main_exit =
  Exit_Args exit_cause | Init_Failed prom_server_error | Server_Exited prom_server_error

fun main_status :: "main_exit \<Rightarrow> nat" where
  "main_status (Exit_Args c) = exit_status c"
| "main_status (Init_Failed e) = 1"
| "main_status (Server_Exited e) = 1"

fun with_key :: "key_cell \<Rightarrow> 'r server_event \<Rightarrow> 'r server_event" where
  "with_key K (Accepted W c) = Accepted (W\<lparr>pw_key := K\<rparr>) c"
| "with_key K (Flush_Tick W) = Flush_Tick (W\<lparr>pw_key := K\<rparr>)"
| "with_key K (Accept_Failed e) = Accept_Failed e"

record 'r running =
  rn_inner :: prom_inner
  rn_key :: key_cell
  rn_serving :: "'r serving"

record ('r, 'l) machine =
  mc_argv :: "os_string list"
  mc_env :: "string \<Rightarrow> os_string option"
  mc_world :: "'r prom_world"
  mc_bind :: "socket_addr \<Rightarrow> io_error + 'l"
  mc_local_addr :: "'l \<Rightarrow> io_error + socket_addr"

definition prom_main ::
  "('r, 'l) machine \<Rightarrow> 'r server_event list \<Rightarrow> key_cell \<Rightarrow> 'r proxy_state \<Rightarrow> (main_exit, 'r running) res option" where
  "prom_main M events cell px =
     (case parse_args (mc_argv M) (mc_env M) of
        None \<Rightarrow> None
      | Some args \<Rightarrow> Some (
          rbind (map_err Exit_Args args) (\<lambda>st.
          case set_encrypt_key (Some (s_key st)) cell of
            (Panic p, cell) \<Rightarrow> Panic p
          | (_, cell) \<Rightarrow>
              rbind (map_err Init_Failed (prom_server_new ((mc_world M)\<lparr>pw_key := cell\<rparr>)
                (prom_config_new (s_listen st) (s_prometheus_url st) (s_redis_url st)) (px_redis px))) (\<lambda>inn.
              let sv = prom_spawn (mc_bind M) (mc_local_addr M) inn (map (with_key cell) events) px in
              case sv_result sv of
                Some e \<Rightarrow> Err (Server_Exited e)
              | None \<Rightarrow> Ok \<lparr>rn_inner = inn, rn_key = cell, rn_serving = sv\<rparr>))))"

section \<open>Lemmas\<close>

text \<open>With a key configured no connection panics.\<close>

lemma write_frame_not_Panic:
  assumes "\<not> key_missing K"
  shows "fst (write_frame C K rng w mt tx d fl) \<noteq> Panic p"
proof -
  have b: "build_wire_frame C K rng mt tx d fl \<noteq> Panic m" for m
    using assms build_wire_frame_Panic_iff [of C K rng mt tx d fl] by blast
  have k: "fst (sbind (write_all buf w) (\<lambda>_ w. sbind (flush w) (\<lambda>_ w. (Ok (), w)))) \<noteq> Panic m" for buf m
  proof -
    obtain r s where w: "write_all buf w = (r, s)" by (cases "write_all buf w")
    with write_all_not_Panic [of buf w m] flush_not_Panic [of s m] show ?thesis
      by (cases r) simp_all
  qed
  show ?thesis
    using b k by (cases "build_wire_frame C K rng mt tx d fl") (simp_all add: write_frame_def)
qed

lemma prom_write_error_not_Panic:
  assumes "\<not> key_missing (pw_key W)"
  shows "fst (prom_write_error W s tx m) \<noteq> Panic p"
proof (cases "perr_to_vec (pw_json W) \<lparr>pe_message = m\<rparr>")
  case (Inr body)
  obtain r s' where w: "write_frame (pw_codec W) (pw_key W) (pw_rng W) s PROM_MSG_ERROR tx body
      CHACHA20POLY1305 = (r, s')"
    by (cases "write_frame (pw_codec W) (pw_key W) (pw_rng W) s PROM_MSG_ERROR tx body CHACHA20POLY1305")
  with write_frame_not_Panic [OF assms, of "pw_codec W" "pw_rng W" s PROM_MSG_ERROR tx body CHACHA20POLY1305] Inr
  show ?thesis by (cases r) (auto simp: prom_write_error_def)
qed (simp add: prom_write_error_def)

lemma prom_handle_conn_not_Panic:
  assumes "redis_ok (pw_redis W)" "\<not> key_missing (pw_key W)"
  shows "fst (prom_handle_conn W inn c px) \<noteq> Panic p"
proof (cases "read_frame (pw_codec W) (pw_key W) (st_rd c)")
  case (Ok x)
  obtain f rest where rd: "read_frame (pw_codec W) (pw_key W) (st_rd c) = Ok (f, rest)"
    using Ok by (cases x) simp
  have err: "fst (with_px px' (prom_write_error W s tx m)) \<noteq> Panic p" for px' :: "'a proxy_state" and s tx m
    using prom_write_error_not_Panic [OF assms(2)] by (simp add: with_px_def)
  have ack: "fst (with_px px' (sbind (smap_err PSrvE_Io (write_frame (pw_codec W) (pw_key W) (pw_rng W) s
      MSG_REMOTE_WRITE_ACK tx body CHACHA20POLY1305)) (\<lambda>_ s. (Ok (), s)))) \<noteq> Panic p"
    for px' :: "'a proxy_state" and s tx body
    using write_frame_not_Panic [OF assms(2)] by (simp add: with_px_def smap_err_def)
  obtain u px1 where f: "forward_frame W inn f px = (u, px1)" by (cases "forward_frame W inn f px")
  then have u: "u = upstream W inn (f_data f)" by (simp add: forward_frame_def post_remote_write_eq)
  obtain r1 px2 r2 px3 where i: "incr_edge W inn ''remote_write_ok'' px1 = (r1, px2)"
    "incr_edge W inn ''remote_write_err'' px1 = (r2, px3)" by (metis surj_pair)
  have np: "r1 \<noteq> Panic q" "r2 \<noteq> Panic q" for q
    using incr_edge_view(2) [OF assms(1)] i by blast+
  show ?thesis
  proof (cases u)
    case (Ok status)
    with np(1) err ack show ?thesis
      by (cases r1) (simp_all add: prom_handle_conn_def rd f i split: sum.splits)
  next
    case (Err e)
    with np(2) err show ?thesis
      by (cases r2) (simp_all add: prom_handle_conn_def rd f i)
  next
    case (Panic q)
    with u upstream_not_Panic show ?thesis by metis
  qed
next
  case (Panic q)
  then have "key_missing (pw_key W)" using read_frame_Panic_iff by blast
  with assms(2) show ?thesis by simp
qed (simp add: prom_handle_conn_def)

lemma prom_main_OkD:
  "prom_main M events cell px = Some (Ok rn) \<Longrightarrow>
     (\<exists>st. parse_args (mc_argv M) (mc_env M) = Some (Ok st) \<and> cell = None \<and>
        rn_key rn = Some (Some (s_key st)) \<and>
        prom_server_new ((mc_world M)\<lparr>pw_key := rn_key rn\<rparr>)
          (prom_config_new (s_listen st) (s_prometheus_url st) (s_redis_url st)) (px_redis px) = Ok (rn_inner rn) \<and>
        prom_spawn (mc_bind M) (mc_local_addr M) (rn_inner rn) (map (with_key (rn_key rn)) events) px =
          rn_serving rn \<and>
        sv_result (rn_serving rn) = None)"
  by (cases rn) (auto simp: prom_main_def set_encrypt_key_def Let_def split: option.splits)

section \<open>Properties\<close>

text \<open>
  C18: A process that is serving has the key and the addresses of its command line or
  environment, the key has the length of the cipher's keys, it counts under the default hash
  key and accepts the default message type; and no connection, whatever it sends, makes its
  task panic.
\<close>

theorem main_serves_as_configured:
  assumes "prom_main M events cell px = Some (Ok rn)"
    and "pw_key W = rn_key rn" and "redis_ok (pw_redis W)"
  shows "(\<exists>st. parse_args (mc_argv M) (mc_env M) = Some (Ok st) \<and> length (s_key st) = KEY_LEN \<and>
      rn_key rn = Some (Some (s_key st)) \<and>
      pi_config (rn_inner rn) = \<lparr>pc_listen = s_listen st, pc_prometheus_url = s_prometheus_url st,
        pc_redis_url = s_redis_url st, pc_edge_hash_key = DEFAULT_EDGE_HASH_KEY,
        pc_message_type = MSG_REMOTE_WRITE\<rparr> \<and>
      es_hash_key (pi_edges (rn_inner rn)) = DEFAULT_EDGE_HASH_KEY) \<and>
    fst (prom_handle_conn W (rn_inner rn) c px') \<noteq> Panic p"
proof -
  from assms(1) obtain st where st: "parse_args (mc_argv M) (mc_env M) = Some (Ok st)"
    "rn_key rn = Some (Some (s_key st))"
    "prom_server_new ((mc_world M)\<lparr>pw_key := rn_key rn\<rparr>)
      (prom_config_new (s_listen st) (s_prometheus_url st) (s_redis_url st)) (px_redis px) = Ok (rn_inner rn)"
    using prom_main_OkD by blast
  from st(1) have "length (s_key st) = KEY_LEN"
    by (auto simp: parse_args_def settings_of_Ok split: res.splits option.splits)
  moreover have "\<not> key_missing (pw_key W)" by (simp add: assms(2) st(2) key_missing_def)
  moreover have "pi_config (rn_inner rn) = prom_config_new (s_listen st) (s_prometheus_url st) (s_redis_url st)"
    "es_hash_key (pi_edges (rn_inner rn)) = DEFAULT_EDGE_HASH_KEY"
    using st(3) by (auto simp: prom_server_new_def edge_connect_def prom_config_new_def split: option.splits
        dest!: sym [of _ "rn_inner rn"])
  ultimately show ?thesis
    using st(1,2) prom_handle_conn_not_Panic [OF assms(3)] by (simp add: prom_config_new_def)
qed

definition sample_machine :: "(((string \<times> string) \<times> i64) list, unit) machine" where
  "sample_machine =
     \<lparr>mc_argv = Unicode ''prom_proxy'' # words_of [(Listen, ''0.0.0.0:9100'')], mc_env = sample_environment,
      mc_world = sample_proxy no_content, mc_bind = (\<lambda>_. Inr ()),
      mc_local_addr = (\<lambda>_. Inr \<lparr>sa_ip = V4 0 0 0 0, sa_port = 9100\<rparr>)\<rparr>"

lemma sample_main:
  assumes "sv_result (serve sample_prom_inner (map (with_key (Some (Some (replicate 32 7)))) events)
    \<lparr>sv_px = px, sv_flushing = True, sv_replies = [], sv_result = None\<rparr>) = None"
  shows "\<exists>rn. prom_main sample_machine events None px = Some (Ok rn) \<and> rn_inner rn = sample_prom_inner \<and>
     rn_key rn = Some (Some (replicate 32 7))"
  using assms sample_parse
  by (simp add: prom_main_def sample_machine_def set_encrypt_key_def prom_server_new_def edge_connect_def
      sample_redis_def sample_settings_def prom_spawn_def spawn_with_ready_def sample_prom_inner_def prom_config_new_def Let_def)

theorem main_serves_as_configured_witness:
  "\<exists>rn. prom_main sample_machine [] None \<lparr>px_redis = [], px_posted = []\<rparr> = Some (Ok rn) \<and>
     fst (prom_handle_conn (sample_proxy no_content\<lparr>pw_key := rn_key rn\<rparr>) (rn_inner rn)
       (plain_conn MSG_REMOTE_WRITE 7 [1]) \<lparr>px_redis = [], px_posted = []\<rparr>) \<noteq> Panic ''x''"
proof -
  obtain rn where rn: "prom_main sample_machine [] None \<lparr>px_redis = [], px_posted = []\<rparr> = Some (Ok rn)"
    using sample_main [of "[]"] by (auto simp: serve_def)
  from main_serves_as_configured [OF rn, of "sample_proxy no_content\<lparr>pw_key := rn_key rn\<rparr>"] rn
  show ?thesis by (auto simp: sample_redis_ok)
qed

end
