(* ===== verification/Prom_Security.thy ===== *)
theory Prom_Security
  imports Prom_Client Prom_Main
begin

text \<open>
  Who can make the proxy post, and whom a client believes: what the key of
  \<open>src/prom_proxy/server.rs\<close> and \<open>client.rs\<close> protects and what it does not. Neither side looks
  at \<open>Frame::encrypted\<close>, so the guarantees below are about frames that claim to be encrypted,
  and the other frames need no key at all.
\<close>

section \<open>What a connection posts\<close>

text \<open>Whatever fails, one connection posts the body of its one frame, or nothing.\<close>

definition conn_posts :: "'r prom_world \<Rightarrow> prom_inner \<Rightarrow> stream \<Rightarrow> bytes list" where
  "conn_posts W inn c =
     (case read_frame (pw_codec W) (pw_key W) (st_rd c) of
        Ok (f, _) \<Rightarrow> if f_message_type f = pc_message_type (pi_config inn) then [f_data f] else []
      | _ \<Rightarrow> [])"

lemma incr_edge_posted [simp]: "incr_edge W inn k px = (r, px') \<Longrightarrow> px_posted px' = px_posted px"
  by (auto simp: incr_edge_def split: prod.splits)

lemma with_px_px [simp]: "fst (snd (with_px px p)) = px"
  by (simp add: with_px_def)

lemma forward_posted:
  "forward_frame W inn f px =
     (upstream W inn (f_data f), px\<lparr>px_posted := px_posted px @ [remote_write_request inn (f_data f)]\<rparr>)"
  by (simp add: forward_frame_def post_remote_write_eq)

lemma prom_handle_conn_posted:
  "px_posted (fst (snd (prom_handle_conn W inn c px))) =
     px_posted px @ map (remote_write_request inn) (conn_posts W inn c)"
proof (cases "read_frame (pw_codec W) (pw_key W) (st_rd c)")
  case (Ok x)
  obtain f rd where x: "x = (f, rd)" by (cases x)
  show ?thesis
  proof (cases "f_message_type f = pc_message_type (pi_config inn)")
    case True
    then show ?thesis
      by (auto simp: prom_handle_conn_def conn_posts_def Ok x forward_posted
          split: res.splits prod.splits sum.splits)
  qed (simp add: prom_handle_conn_def conn_posts_def Ok x)
qed (simp_all add: prom_handle_conn_def conn_posts_def)

lemma plain_frame_posts:
  assumes "unat (pc_message_type (pi_config inn)) \<le> 31" "length body \<le> u16_MAX"
    and "rd_inp (st_rd c) = wire (push_bit 3 (pc_message_type (pi_config inn))) tx body @ rest"
  shows "conn_posts W inn c = [body]"
  using read_plain_frame [OF assms] by (simp add: conn_posts_def)

section \<open>Properties\<close>

text \<open>
  C12: Where a posted body comes from. If a connection makes the proxy post a body, the
  connection began with one well-formed frame of the configured type; the body is the
  decompressed payload of it when its header does not claim encryption, and otherwise what
  somebody encrypted under the proxy's own key for exactly this header and transaction id.
  Nothing else on the connection is looked at.
\<close>

theorem posted_body_origin:
  assumes "codec_ok (pw_codec W)"
    and "px_posted (fst (snd (prom_handle_conn W inn c px))) = px_posted px @ reqs" and "req \<in> set reqs"
  shows "\<exists>h tx p rest body. reqs = [req] \<and> req = remote_write_request inn body \<and>
    rd_inp (st_rd c) = wire h tx p @ rest \<and> length p \<le> u16_MAX \<and>
    drop_bit 3 h = pc_message_type (pi_config inn) \<and>
    (if h AND CHACHA20POLY1305 = 0 then decompress_payload (pw_codec W) (h AND COMPRESS_MASK) p = Ok body
     else \<exists>key z. pw_key W = Some (Some key) \<and>
       aead_encrypt (pw_codec W) key (take NONCE_LEN p) z (aead_aad h tx) = Some (drop NONCE_LEN p) \<and>
       decompress_payload (pw_codec W) (h AND COMPRESS_MASK) z = Ok body)"
proof -
  let ?C = "pw_codec W"
  have r: "reqs = map (remote_write_request inn) (conn_posts W inn c)"
    using assms(2) prom_handle_conn_posted [of W inn c px] by simp
  then obtain f rd where f: "read_frame ?C (pw_key W) (st_rd c) = Ok (f, rd)"
    "f_message_type f = pc_message_type (pi_config inn)" "reqs = [remote_write_request inn (f_data f)]"
    using assms(3) by (auto simp: conn_posts_def split: res.splits if_splits)
  then obtain h tx p where w: "length p \<le> u16_MAX" "rd_inp (st_rd c) = wire h tx p @ rd_inp rd"
    and pf: "parse_wire_frame ?C (pw_key W) h tx p = Ok f"
    by (auto simp: read_frame_Ok_iff)
  have t: "drop_bit 3 h = f_message_type f"
    using parse_wire_frame_decoded [OF pf] by auto
  have plain: "decompress_payload ?C (h AND 3) p = Ok (f_data f)" if "h AND 4 = 0"
    using pf that unfolding parse_wire_frame_eq by (auto simp: decoded_def)
  have enc: "\<exists>key z. pw_key W = Some (Some key) \<and>
       aead_encrypt ?C key (take NONCE_LEN p) z (aead_aad h tx) = Some (drop NONCE_LEN p) \<and>
       decompress_payload ?C (h AND 3) z = Ok (f_data f)" if "h AND 4 \<noteq> 0"
    using parse_encrypted_authentic [OF assms(1) pf] parse_header(2,3) [OF pf] that by auto
  have q: "req = remote_write_request inn (f_data f)" using assms(3) f(3) by simp
  show ?thesis
    unfolding CHACHA20POLY1305_def COMPRESS_MASK_def
    using f(2,3) w t plain enc q
    by (intro exI [of _ h] exI [of _ tx] exI [of _ p] exI [of _ "rd_inp rd"] exI [of _ "f_data f"]) auto
qed

theorem posted_body_origin_witness:
  "\<exists>h tx p rest. px_posted (fst (snd (prom_handle_conn (sample_proxy no_content) sample_prom_inner
       (plain_conn MSG_REMOTE_WRITE 7 [1, 2]) \<lparr>px_redis = [], px_posted = []\<rparr>))) =
       [remote_write_request sample_prom_inner [1, 2]] \<and>
     rd_inp (st_rd (plain_conn MSG_REMOTE_WRITE 7 [1, 2])) = wire h tx p @ rest \<and>
     drop_bit 3 h = MSG_REMOTE_WRITE"
proof -
  let ?c = "plain_conn MSG_REMOTE_WRITE 7 [1, 2]" and ?W = "sample_proxy no_content"
  let ?px = "\<lparr>px_redis = [], px_posted = []\<rparr> :: ((string \<times> string) \<times> i64) list proxy_state"
  have "conn_posts ?W sample_prom_inner ?c = [[1, 2]]"
    by (rule plain_frame_posts [where rest = "[]" and tx = 7])
       (simp_all add: plain_conn_def prom_msgs u16_MAX_def)
  then have p: "px_posted (fst (snd (prom_handle_conn ?W sample_prom_inner ?c ?px))) =
      px_posted ?px @ [remote_write_request sample_prom_inner [1, 2]]"
    by (simp add: prom_handle_conn_posted)
  have k: "codec_ok (pw_codec ?W)" by (simp add: sample_codec_ok)
  from posted_body_origin [OF k p] p show ?thesis by fastforce
qed

text \<open>
  C25: The secret key of the process does not keep anybody out. Whatever key the binary was
  started with, any peer can have any body of up to 65535 bytes posted upstream: it is enough
  to send it in an unencrypted frame, whose bytes are computed here without the key.
\<close>

theorem plain_frame_forwarded:
  assumes "prom_main M events cell px = Some (Ok rn)" and "pw_key W = rn_key rn"
    and "length body \<le> 65535"
  shows "\<exists>st. parse_args (mc_argv M) (mc_env M) = Some (Ok st) \<and> pw_key W = Some (Some (s_key st)) \<and>
    px_posted (fst (snd (prom_handle_conn W (rn_inner rn)
        (accepted e (wire (push_bit 3 MSG_REMOTE_WRITE) tx body)) px'))) =
      px_posted px' @ [remote_write_request (rn_inner rn) body]"
proof -
  from prom_main_OkD [OF assms(1)] obtain st where
    st: "parse_args (mc_argv M) (mc_env M) = Some (Ok st)" "rn_key rn = Some (Some (s_key st))"
    and new: "prom_server_new ((mc_world M)\<lparr>pw_key := rn_key rn\<rparr>)
      (prom_config_new (s_listen st) (s_prometheus_url st) (s_redis_url st)) (px_redis px) = Ok (rn_inner rn)"
    by blast
  from new have t: "pc_message_type (pi_config (rn_inner rn)) = MSG_REMOTE_WRITE"
    by (auto simp: prom_server_new_def prom_config_new_def dest!: sym [of _ "rn_inner rn"])
  have "conn_posts W (rn_inner rn) (accepted e (wire (push_bit 3 MSG_REMOTE_WRITE) tx body)) = [body]"
    by (rule plain_frame_posts [where rest = "[]" and tx = tx]) (use assms(3) in \<open>simp_all add: t prom_msgs u16_MAX_def\<close>)
  with st assms(2) show ?thesis by (simp add: prom_handle_conn_posted)
qed

theorem plain_frame_forwarded_witness:
  "\<exists>rn. prom_main sample_machine [] None \<lparr>px_redis = [], px_posted = []\<rparr> = Some (Ok rn) \<and>
     rn_key rn = Some (Some (replicate 32 7)) \<and>
     map hq_body (px_posted (fst (snd (prom_handle_conn (sample_proxy no_content\<lparr>pw_key := rn_key rn\<rparr>) (rn_inner rn)
       (accepted eof (wire (push_bit 3 MSG_REMOTE_WRITE) 9 [6, 6, 6])) \<lparr>px_redis = [], px_posted = []\<rparr>)))) =
       [[6, 6, 6]]"
proof -
  obtain rn where rn: "prom_main sample_machine [] None \<lparr>px_redis = [], px_posted = []\<rparr> = Some (Ok rn)"
    and k: "rn_key rn = Some (Some (replicate 32 7))"
    using sample_main [of "[]"] by (auto simp: serve_def)
  have "px_posted (fst (snd (prom_handle_conn (sample_proxy no_content\<lparr>pw_key := rn_key rn\<rparr>) (rn_inner rn)
       (accepted eof (wire (push_bit 3 MSG_REMOTE_WRITE) 9 [6, 6, 6])) \<lparr>px_redis = [], px_posted = []\<rparr>))) =
       [] @ [remote_write_request (rn_inner rn) [6, 6, 6]]"
    using plain_frame_forwarded [OF rn, of "sample_proxy no_content\<lparr>pw_key := rn_key rn\<rparr>" "[6, 6, 6]" eof 9
        "\<lparr>px_redis = [], px_posted = []\<rparr>"] by (simp; blast)
  with rn k show ?thesis by (auto simp: remote_write_request_def)
qed

text \<open>
  C26: A client believes any peer. Whoever answers the connection, knows no key and does
  nothing with the request, can make the call return any status it likes with an unencrypted
  acknowledgement; not even its transaction id has to be the one of the request.
\<close>

theorem forged_ack_accepted:
  assumes "build_wire_frame (ce_codec E) (ce_key E) (ce_rng E) (pcl_message_type c) (pcl_next_tx c) body
      CHACHA20POLY1305 = Ok out"
    and "pjson_ok (ce_json E)" and "ack_to_vec (ce_json E) \<lparr>ack_status = status\<rparr> = Inr ack"
    and "length ack \<le> u16_MAX"
  shows "remote_write E (Inr (conn_to e (\<lambda>_. ((),
      (open_sink e)\<lparr>sk_out := wire (push_bit 3 MSG_REMOTE_WRITE_ACK) tx ack\<rparr>)))) body c =
    (Ok status, snd (prom_next_tx_id c), out)"
proof -
  let ?conn = "conn_to e (\<lambda>_. ((), (open_sink e)\<lparr>sk_out := wire (push_bit 3 MSG_REMOTE_WRITE_ACK) tx ack\<rparr>))"
  have "unat MSG_REMOTE_WRITE_ACK \<le> 31" by (simp add: prom_msgs)
  from read_plain_frame [OF this assms(4), of "cn_reply ?conn out" tx "[]" "ce_codec E" "ce_key E"]
  obtain rd where rd: "read_frame (ce_codec E) (ce_key E) (cn_reply ?conn out) =
      Ok (plain_frame MSG_REMOTE_WRITE_ACK tx ack, rd)" by simp
  have w: "write_frame (ce_codec E) (ce_key E) (ce_rng E) (open_sink e) (pcl_message_type c) (pcl_next_tx c)
      body CHACHA20POLY1305 = (Ok (), (open_sink e)\<lparr>sk_out := out\<rparr>)"
    using assms(1) by (simp add: write_frame_good)
  have "decode_response (ce_json E) (plain_frame MSG_REMOTE_WRITE_ACK tx ack) = Ok status"
    using pjson_okD(1) [OF assms(2,3)] by (simp add: decode_response_def)
  with rd w show ?thesis
    by (simp add: remote_write_def prom_next_tx_id_def Let_def)
qed

theorem forged_ack_accepted_witness:
  "\<exists>out. remote_write sample_env (Inr (conn_to eof (\<lambda>_. ((),
      (open_sink eof)\<lparr>sk_out := wire (push_bit 3 MSG_REMOTE_WRITE_ACK) 999 (to_be 2 (204 :: u16))\<rparr>))))
      [1, 2] prom_client_new = (Ok 204, snd (prom_next_tx_id prom_client_new), out)"
proof -
  obtain out where b: "build_wire_frame sample_codec sample_key (ce_rng sample_env) MSG_REMOTE_WRITE 1 [1, 2]
      CHACHA20POLY1305 = Ok out"
    using sample_encrypted_build [of MSG_REMOTE_WRITE "[1, 2]"] by (fastforce simp: prom_msgs)
  have "ack_to_vec sample_pjson \<lparr>ack_status = 204\<rparr> = Inr (to_be 2 (204 :: u16))"
    by (simp add: sample_pjson_def)
  then show ?thesis
    using forged_ack_accepted [of sample_env prom_client_new "[1, 2]" out 204 "to_be 2 (204 :: u16)" eof 999] b
    by (auto simp: prom_client_new_def u16_MAX_def)
qed

end
