(* ===== verification/Prom_Output.thy ===== *)
theory Prom_Output
  imports Prom_Main
begin

text \<open>
  What \<open>src/bin/prom_proxy.rs\<close> prints on stderr, message by message, and when the secret key
  has a part in it. Of a panic the message is modelled, not the line before it that names the
  thread and the place in the source. Not covered are the lines that the tasks of the server
  print about failed connections and flushes. The \<open>Debug\<close> rendering of a string is a
  parameter; the scope identifier of an IPv6 address, which the model of the parser drops, is
  not printed.
\<close>

section \<open>The texts\<close>

definition NL :: string where
  "NL = [CHR 0x0A]"

definition BACKSLASH :: string where
  "BACKSLASH = [CHR 0x5C]"

definition usage_text :: string where
  "usage_text =
     ''Usage: prom_proxy [--listen <addr>] [--prometheus-url <url>] '' @
     ''[--redis-url <url>] [--secretkey <64-hex>]'' @ NL @ NL @
     ''Or set env: PROM_PROXY_LISTEN, PROM_PROXY_URL, PROM_PROXY_REDIS_URL, '' @
     ''PROM_PROXY_SECRETKEY'' @ NL @ NL @
     ''Example:'' @ NL @ ''  prom_proxy --listen 0.0.0.0:9100 '' @ BACKSLASH @ NL @
     ''--prometheus-url http://127.0.0.1:9090/api/v1/write '' @ BACKSLASH @ NL @
     ''--redis-url redis://127.0.0.1:6379 '' @ BACKSLASH @ NL @
     ''--secretkey 071c9849f90b8caf7b9083bd53817e56d7274dc35796c4206b7fc97caec44dea''"

fun exit_output :: "(string \<Rightarrow> string) \<Rightarrow> exit_cause \<Rightarrow> string list" where
  "exit_output debug Usage = [usage_text]"
| "exit_output debug (Unknown_Argument other) = [''unknown argument: '' @ other, usage_text]"
| "exit_output debug (Invalid_Listen listen_s) =
     [''invalid listen addr '' @ debug listen_s @ '': '' @ ''invalid socket address syntax'']"
| "exit_output debug (Invalid_Secretkey e) = [''invalid secretkey: '' @ e]"
| "exit_output debug (Key_Length n) =
     [''secretkey must be '' @ show_dec KEY_LEN @ '' bytes ('' @ show_dec (KEY_LEN * 2) @
      '' hex chars), got '' @ show_dec n]"

fun socket_addr_to_string :: "socket_addr \<Rightarrow> string" where
  "socket_addr_to_string a =
     (case sa_ip a of
        V4 _ _ _ _ \<Rightarrow> ip_to_string (sa_ip a)
      | V6 _ \<Rightarrow> ''['' @ ip_to_string (sa_ip a) @ '']'') @ '':'' @ show_dec (unat (sa_port a))"

definition banner :: "settings \<Rightarrow> string" where
  "banner st =
     ''prom_proxy listening on '' @ socket_addr_to_string (s_listen st) @ '', forwarding to '' @
     s_prometheus_url st @ '', redis '' @ s_redis_url st"

definition prom_output ::
  "(string \<Rightarrow> string) \<Rightarrow> ('r, 'l) machine \<Rightarrow> 'r server_event list \<Rightarrow> key_cell \<Rightarrow> 'r proxy_state \<Rightarrow> string list" where
  "prom_output debug M events cell px =
     (case parse_args (mc_argv M) (mc_env M) of
        Some (Err c) \<Rightarrow> exit_output debug c
      | Some (Ok st) \<Rightarrow>
          (case prom_main M events cell px of
             Some (Err (Init_Failed e)) \<Rightarrow> [''prom_proxy: init failed: '' @ prom_error_to_string e]
           | Some (Err (Server_Exited e)) \<Rightarrow> [banner st, ''prom_proxy exited: '' @ prom_error_to_string e]
           | Some (Ok _) \<Rightarrow> [banner st]
           | Some (Panic p) \<Rightarrow> [p]
           | _ \<Rightarrow> [])
      | Some (Panic p) \<Rightarrow> [p]
      | None \<Rightarrow> [])"

section \<open>What the output depends on\<close>

text \<open>
  What the messages may tell of a key: how it is wrong, or how many bytes it has; and, if the
  decoder panics, whatever the message of the panic has of it.
\<close>

fun key_shape :: "(string, bytes) res \<Rightarrow> (string, nat) res" where
  "key_shape (Ok raw) = Ok (length raw)"
| "key_shape (Err e) = Err e"
| "key_shape (Panic p) = Panic p"

lemma parse_chosen:
  "parse_args (Unicode prog # words_of fs) env = Some (settings_of env (options_of fs))"
  using parse_args_words [of prog fs "[]" env] by (simp add: arg_loop_simps)

text \<open>Two sources of settings that differ in the key, in its shape at most not at all.\<close>

definition same_but_key ::
  "(option_name \<times> string) list \<Rightarrow> (string \<Rightarrow> os_string option) \<Rightarrow>
   (option_name \<times> string) list \<Rightarrow> (string \<Rightarrow> os_string option) \<Rightarrow> bool" where
  "same_but_key fs env fs' env' \<longleftrightarrow>
     (\<forall>n. n \<noteq> Secretkey \<longrightarrow> chosen fs env n = chosen fs' env' n) \<and>
     map_option (key_shape \<circ> hex_decode) (chosen fs env Secretkey) =
     map_option (key_shape \<circ> hex_decode) (chosen fs' env' Secretkey)"

fun without_key :: "(exit_cause, settings) res \<Rightarrow> (exit_cause, settings) res" where
  "without_key (Ok st) = Ok (st\<lparr>s_key := []\<rparr>)"
| "without_key (Err c) = Err c"
| "without_key (Panic p) = Panic p"

lemma key_shape_cases:
  assumes "key_shape r = key_shape r'"
  obtains (ok) raw raw' where "r = Ok raw" "r' = Ok raw'" "length raw = length raw'"
  | (err) e where "r = Err e" "r' = Err e"
  | (panic) p where "r = Panic p" "r' = Panic p"
  using assms by (cases r; cases r') auto

lemma checked_key_same:
  assumes "key_shape (hex_decode k) = key_shape (hex_decode k')"
  shows "without_key (rbind a (\<lambda>listen. rbind (map_err Invalid_Secretkey (hex_decode k)) (\<lambda>raw.
      if length raw \<noteq> KEY_LEN then Err (Key_Length (length raw))
      else Ok \<lparr>s_listen = listen, s_prometheus_url = u, s_redis_url = r, s_key = raw\<rparr>))) =
    without_key (rbind a (\<lambda>listen. rbind (map_err Invalid_Secretkey (hex_decode k')) (\<lambda>raw.
      if length raw \<noteq> KEY_LEN then Err (Key_Length (length raw))
      else Ok \<lparr>s_listen = listen, s_prometheus_url = u, s_redis_url = r, s_key = raw\<rparr>)))"
  using assms by (cases rule: key_shape_cases) (cases a; simp)+

lemma without_key_bind:
  "(\<And>x. without_key (f x) = without_key (g x)) \<Longrightarrow> without_key (rbind a f) = without_key (rbind a g)"
  by (cases a) simp_all

lemma settings_same:
  assumes "same_but_key fs env fs' env'"
  shows "without_key (settings_of env (options_of fs)) = without_key (settings_of env' (options_of fs'))"
proof -
  have same: "chosen fs env n = chosen fs' env' n" if "n \<noteq> Secretkey" for n
    using assms that by (simp add: same_but_key_def)
  have key: "without_key (rbind (or_usage (chosen fs env Secretkey)) f) =
      without_key (rbind (or_usage (chosen fs' env' Secretkey)) f)"
    if "\<And>k k'. key_shape (hex_decode k) = key_shape (hex_decode k') \<Longrightarrow> without_key (f k) = without_key (f k')" for f
  proof (cases "chosen fs env Secretkey")
    case None
    then have "chosen fs' env' Secretkey = None" using assms by (simp add: same_but_key_def)
    with None show ?thesis by (simp add: or_usage_def)
  next
    case (Some k)
    then obtain k' where k': "chosen fs' env' Secretkey = Some k'" "key_shape (hex_decode k) = key_shape (hex_decode k')"
      using assms by (cases "chosen fs' env' Secretkey") (auto simp: same_but_key_def)
    from that [OF k'(2)] show ?thesis by (simp add: Some k'(1) or_usage_def)
  qed
  show ?thesis
    unfolding settings_chosen same [of Listen, simplified] same [of Prometheus_Url, simplified] same [of Redis_Url, simplified]
    by (rule without_key_bind, rule without_key_bind, rule without_key_bind, rule key, rule checked_key_same)
qed

text \<open>The result of the server, too, has nothing to do with the key.\<close>

lemma serve_result_key:
  "sv_result v = sv_result v' \<Longrightarrow>
     sv_result (serve inn (map (with_key K) events) v) = sv_result (serve inn (map (with_key K') events) v')"
proof (induction events arbitrary: v v')
  case (Cons ev events)
  have "sv_result (serve_event inn (with_key K ev) v) = sv_result (serve_event inn (with_key K' ev) v')"
    using Cons.prems by (cases ev) (auto simp: case_prod_beta Let_def)
  from Cons.IH [OF this] show ?case by (simp add: serve_def)
qed (simp add: serve_def)

lemma spawn_result_key:
  "sv_result (prom_spawn bind la inn (map (with_key K) events) px) =
     sv_result (prom_spawn bind la inn (map (with_key K') events) px)"
  by (auto simp: prom_spawn_def spawn_with_ready_def Let_def intro: serve_result_key split: sum.splits)

lemma prom_server_new_key [simp]: "prom_server_new (W\<lparr>pw_key := K\<rparr>) = prom_server_new W"
  by (simp add: prom_server_new_def fun_eq_iff)

text \<open>The output of a process that gets past its arguments, without the key.\<close>

lemma prom_output_started:
  assumes "parse_args (mc_argv M) (mc_env M) = Some (Ok st)"
  shows "prom_output debug M events None px =
    (case prom_server_new (mc_world M) (prom_config_new (s_listen st) (s_prometheus_url st) (s_redis_url st))
         (px_redis px) of
       Ok inn \<Rightarrow> banner st # (case sv_result (prom_spawn (mc_bind M) (mc_local_addr M) inn
           (map (with_key None) events) px) of None \<Rightarrow> [] | Some e \<Rightarrow> [''prom_proxy exited: '' @ prom_error_to_string e])
     | Err e \<Rightarrow> [''prom_proxy: init failed: '' @ prom_error_to_string e]
     | Panic p \<Rightarrow> [p])"
proof (cases "prom_server_new (mc_world M) (prom_config_new (s_listen st) (s_prometheus_url st) (s_redis_url st))
    (px_redis px)")
  case (Ok inn)
  have k: "sv_result (prom_spawn (mc_bind M) (mc_local_addr M) inn (map (with_key (Some (Some (s_key st)))) events) px) =
      sv_result (prom_spawn (mc_bind M) (mc_local_addr M) inn (map (with_key None) events) px)"
    by (rule spawn_result_key)
  show ?thesis
    by (simp add: prom_output_def prom_main_def assms set_encrypt_key_def Ok Let_def k split: option.splits)
qed (simp_all add: prom_output_def prom_main_def assms set_encrypt_key_def)

text \<open>The decoder panics in a slice of the trimmed key.\<close>

lemma hex_pairs_Panic: "hex_pairs s i = Panic p \<Longrightarrow> \<exists>i j. p = slice_error s i j"
proof (induction s i arbitrary: p rule: hex_pairs.induct)
  case (1 s i)
  from "1.prems" have i: "i < length s" by (subst (asm) hex_pairs.simps) (simp split: if_splits)
  show ?case
  proof (cases "str_slice s i (i + 2) :: (string, string) res")
    case (Ok w)
    show ?thesis
    proof (cases "u8_from_hex w")
      case (Inr b)
      with "1.prems" i Ok have "hex_pairs s (i + 2) = Panic p"
        by (subst (asm) hex_pairs.simps) (simp split: res.splits, cases "hex_pairs s (i + 2)", simp_all)
      from "1.IH" [OF i Ok _ this] Inr show ?thesis by simp
    qed (use "1.prems" i Ok in \<open>subst (asm) hex_pairs.simps, simp\<close>)
  next
    case (Panic q)
    then have "q = slice_error s i (i + 2)" by (auto simp: str_slice_def split: if_splits)
    moreover have "p = q" using "1.prems" i Panic by (subst (asm) hex_pairs.simps) simp
    ultimately show ?thesis by blast
  qed (simp add: str_slice_def split: if_splits)
qed

lemma hex_decode_Panic:
  assumes "hex_decode k = Panic p" "length (trim k) \<le> 256"
  shows "\<exists>pre post. p = pre @ trim k @ post"
proof -
  have "hex_pairs (trim k) 0 = Panic p" using assms(1) by (simp add: hex_decode_def Let_def split: if_splits)
  then obtain i j where "p = slice_error (trim k) i j" using hex_pairs_Panic by blast
  with slice_error_quotes [of "trim k" i j] assms(2) show ?thesis by (simp add: floor_char_boundary_all)
qed

section \<open>Properties\<close>

text \<open>
  C34: The secret key does not appear in what the binary itself prints, unless it makes the
  decoder panic. Two runs of the process with the same world and the same settings but for the
  key print the same, as long as both keys are wrong in the same way or have the same number of
  bytes: so the output is determined by everything else, and by whether the key is acceptable.
\<close>

theorem secret_not_printed:
  assumes "same_but_key fs env fs' env'"
    and "\<forall>k p. chosen fs env Secretkey = Some k \<longrightarrow> hex_decode k \<noteq> Panic p"
  shows "prom_output debug (M\<lparr>mc_argv := Unicode prog # words_of fs, mc_env := env\<rparr>) events None px =
    prom_output debug (M\<lparr>mc_argv := Unicode prog # words_of fs', mc_env := env'\<rparr>) events None px"
proof -
  let ?M = "M\<lparr>mc_argv := Unicode prog # words_of fs, mc_env := env\<rparr>"
    and ?M' = "M\<lparr>mc_argv := Unicode prog # words_of fs', mc_env := env'\<rparr>"
  note parse = parse_chosen [of prog fs env] parse_chosen [of prog fs' env'] and same = settings_same [OF assms(1)]
  show ?thesis
  proof (cases "settings_of env (options_of fs)")
    case (Ok st)
    with same obtain st' where st': "settings_of env' (options_of fs') = Ok st'" "st\<lparr>s_key := []\<rparr> = st'\<lparr>s_key := []\<rparr>"
      by (cases "settings_of env' (options_of fs')") auto
    then have eq: "s_listen st = s_listen st'" "s_prometheus_url st = s_prometheus_url st'" "s_redis_url st = s_redis_url st'"
      by (cases st; cases st'; simp)+
    have p: "parse_args (mc_argv ?M) (mc_env ?M) = Some (Ok st)" "parse_args (mc_argv ?M') (mc_env ?M') = Some (Ok st')"
      using parse Ok st'(1) by simp_all
    show ?thesis
      unfolding prom_output_started [OF p(1)] prom_output_started [OF p(2)] by (auto simp: eq banner_def split: res.splits)
  next
    case (Err c)
    with same have "settings_of env' (options_of fs') = Err c" by (cases "settings_of env' (options_of fs')") auto
    with Err parse show ?thesis by (simp add: prom_output_def)
  next
    case (Panic p)
    with same have "settings_of env' (options_of fs') = Panic p" by (cases "settings_of env' (options_of fs')") auto
    with Panic parse show ?thesis by (simp add: prom_output_def)
  qed
qed

theorem secret_not_printed_witness:
  "prom_output (\<lambda>s. s) sample_machine [Accept_Failed eof] None \<lparr>px_redis = [], px_posted = []\<rparr> =
   prom_output (\<lambda>s. s) (sample_machine\<lparr>mc_env := (mc_env sample_machine)
      (''PROM_PROXY_SECRETKEY'' \<mapsto> Unicode (hex_encode (replicate 32 9)))\<rparr>)
     [Accept_Failed eof] None \<lparr>px_redis = [], px_posted = []\<rparr>"
proof -
  have k: "hex_decode (hex_encode (replicate 32 v)) = Ok (replicate 32 v)" for v
  proof -
    have "hex_encode (replicate 32 v) \<noteq> []" by (simp add: hex_encode_def byte_hex_def)
    then have "trim (hex_encode (replicate 32 v)) = hex_encode (replicate 32 v)"
      using trim_surrounded [of "[]" "[]", OF _ _ hex_encode_plain] by simp
    then show ?thesis by (simp add: hex_decode_Ok_iff hex_bytes_encode)
  qed
  let ?fs = "[(Listen, ''0.0.0.0:9100'')]" and ?env = "sample_environment
      (''PROM_PROXY_SECRETKEY'' \<mapsto> Unicode (hex_encode (replicate 32 9)))"
  have "chosen ?fs sample_environment n = chosen ?fs ?env n" if "n \<noteq> Secretkey" for n
    using that by (cases n) (simp_all add: chosen_def)
  then have s: "same_but_key ?fs sample_environment ?fs ?env"
    "\<forall>k p. chosen ?fs sample_environment Secretkey = Some k \<longrightarrow> hex_decode k \<noteq> Panic p"
    by (simp_all add: same_but_key_def chosen_def sample_environment_def k)
  from secret_not_printed [where debug = "\<lambda>s. s" and M = sample_machine and prog = "''prom_proxy''"
      and events = "[Accept_Failed eof]" and px = "\<lparr>px_redis = [], px_posted = []\<rparr>", OF s] show ?thesis
    by (simp add: sample_machine_def)
qed

text \<open>
  C30: A key that makes the decoder panic is printed. When everything else on the command line or
  in the environment is in order and the key, of up to 256 bytes, is such that \<open>hex_decode\<close>
  panics (C40 says which ones are), what the process leaves on stderr contains the whole key.
\<close>

theorem key_printed_on_panic:
  assumes "chosen fs env Listen = Some listen_s" and "socket_addr_from_str listen_s \<noteq> None"
    and "chosen fs env Prometheus_Url \<noteq> None" and "chosen fs env Redis_Url \<noteq> None"
    and "chosen fs env Secretkey = Some k" and "hex_decode k = Panic p" and "length (trim k) \<le> 256"
  shows "\<exists>pre post. prom_output debug (M\<lparr>mc_argv := Unicode prog # words_of fs, mc_env := env\<rparr>) events cell px =
    [pre @ trim k @ post]"
proof -
  have "settings_of env (options_of fs) = Panic p"
    using assms(1-6) by (auto simp: settings_chosen or_usage_def)
  then have "prom_output debug (M\<lparr>mc_argv := Unicode prog # words_of fs, mc_env := env\<rparr>) events cell px = [p]"
    using parse_chosen [of prog fs env] by (simp add: prom_output_def)
  with hex_decode_Panic [OF assms(6,7)] show ?thesis by auto
qed

theorem key_printed_on_panic_witness:
  "let key = ''c0ffee0'' @ [char_of (195 :: nat), char_of (169 :: nat)] @ ''0'' in
   \<exists>pre post. prom_output (\<lambda>s. s) (sample_machine\<lparr>mc_env := (mc_env sample_machine)
      (''PROM_PROXY_SECRETKEY'' \<mapsto> Unicode key)\<rparr>) [] None \<lparr>px_redis = [], px_posted = []\<rparr> = [pre @ key @ post]"
proof -
  define key where "key = ''c0ffee0'' @ [char_of (195 :: nat), char_of (169 :: nat)] @ ''0''"
  let ?fs = "[(Listen, ''0.0.0.0:9100'')]" and ?env = "sample_environment(''PROM_PROXY_SECRETKEY'' \<mapsto> Unicode key)"
  have t: "trim key = key" by (rule trim_plain) (simp_all add: key_def plain_char_def)
  have "\<exists>p. hex_pairs key 0 = Panic p"
    by (simp add: hex_pairs_step key_def is_char_boundary_def pair_value_def to_digit_def Let_def)
  then obtain p where p: "hex_decode key = Panic p" by (auto simp: hex_decode_def t) (simp add: key_def)
  have c: "chosen ?fs ?env Listen = Some ''0.0.0.0:9100''" "socket_addr_from_str ''0.0.0.0:9100'' \<noteq> None"
    "chosen ?fs ?env Prometheus_Url \<noteq> None" "chosen ?fs ?env Redis_Url \<noteq> None"
    "chosen ?fs ?env Secretkey = Some key" "length (trim key) \<le> 256"
    by (simp_all add: chosen_def sample_environment_def sample_listen_parse t) (simp add: key_def)
  from key_printed_on_panic [OF c(1-5) p c(6), where debug = "\<lambda>s. s" and M = sample_machine
      and prog = "''prom_proxy''" and events = "[]" and cell = None and px = "\<lparr>px_redis = [], px_posted = []\<rparr>"]
  have "\<exists>pre post. prom_output (\<lambda>s. s) (sample_machine\<lparr>mc_env := (mc_env sample_machine)
      (''PROM_PROXY_SECRETKEY'' \<mapsto> Unicode key)\<rparr>) [] None \<lparr>px_redis = [], px_posted = []\<rparr> = [pre @ key @ post]"
    by (simp add: sample_machine_def t)
  then show ?thesis unfolding key_def Let_def .
qed

end
