(* ===== verification/Frame_Tests.thy ===== *)
theory Frame_Tests
  imports Test_Base Frame_Channel
begin

text \<open>
  The tests at the end of \<open>src/tiny_frame.rs\<close>. An in-memory pipe and a \<open>Vec\<close> are both a writer
  that takes everything; what is read is what was written, then the end of file (the frames
  here never fill the 64 KiB of the pipe). The state of the process is the cell of the key.
\<close>

unbundle bit_operations_syntax

section \<open>The tests\<close>

definition test_key :: key where
  "test_key = replicate KEY_LEN 0x42"

definition ensure_test_key :: "key_cell \<Rightarrow> key_cell" where
  "ensure_test_key cell = (case cell of None \<Rightarrow> Some (Some test_key) | Some k \<Rightarrow> Some k)"

definition check_frame :: "frame \<Rightarrow> u8 \<Rightarrow> u64 \<Rightarrow> bytes \<Rightarrow> u8 \<Rightarrow> unit test" where
  "check_frame frame message_type tx_id d flags =
     tbind (assert_eq (f_message_type frame) message_type) (\<lambda>_.
     tbind (assert_eq (f_compress_id frame) (flags AND COMPRESS_MASK)) (\<lambda>_.
     tbind (assert_eq (f_encrypted frame) (flags AND CHACHA20POLY1305 \<noteq> 0)) (\<lambda>_.
     tbind (assert_eq (f_tx_id frame) tx_id) (\<lambda>_.
     assert_eq (f_data frame) d))))"

definition roundtrip :: "codec \<Rightarrow> rng \<Rightarrow> key_cell \<Rightarrow> u8 \<Rightarrow> u64 \<Rightarrow> bytes \<Rightarrow> u8 \<Rightarrow> unit test" where
  "roundtrip C rng cell message_type tx_id d flags =
     (let cell = (if flags AND CHACHA20POLY1305 \<noteq> 0 then ensure_test_key cell else cell);
          (r, client) = write_frame C cell rng (open_sink eof) message_type tx_id d flags in
      tbind (unwrap r) (\<lambda>_.
      tbind (unwrap (read_frame C cell \<lparr>rd_inp = sk_out client, rd_end = eof\<rparr>)) (\<lambda>(frame, _).
      check_frame frame message_type tx_id d flags)))"

definition blocking_roundtrip :: "codec \<Rightarrow> rng \<Rightarrow> key_cell \<Rightarrow> u8 \<Rightarrow> u64 \<Rightarrow> bytes \<Rightarrow> u8 \<Rightarrow> unit test" where
  "blocking_roundtrip C rng cell message_type tx_id d flags =
     (let cell = (if flags AND CHACHA20POLY1305 \<noteq> 0 then ensure_test_key cell else cell);
          (r, buf) = write_frame_blocking C cell rng (open_sink eof) message_type tx_id d flags in
      tbind (unwrap r) (\<lambda>_.
      tbind (unwrap (read_frame_blocking C cell \<lparr>rd_inp = sk_out buf, rd_end = eof\<rparr>)) (\<lambda>(frame, _).
      check_frame frame message_type tx_id d flags)))"

definition plain_roundtrip :: "codec \<Rightarrow> rng \<Rightarrow> key_cell \<Rightarrow> unit test" where
  "plain_roundtrip C rng cell =
     roundtrip C rng cell 0x15 0x1122334455667788 (bstr ''hello frame'') COMPRESS_NONE"

definition gzip_roundtrip :: "codec \<Rightarrow> rng \<Rightarrow> key_cell \<Rightarrow> unit test" where
  "gzip_roundtrip C rng cell =
     roundtrip C rng cell 1 42 (bstr ''compress me please!!!!'') COMPRESS_GZIP"

definition deflate_roundtrip :: "codec \<Rightarrow> rng \<Rightarrow> key_cell \<Rightarrow> unit test" where
  "deflate_roundtrip C rng cell =
     roundtrip C rng cell 31 (- 1) (replicate 256 0) COMPRESS_DEFLATE"

definition encrypt_only_roundtrip :: "codec \<Rightarrow> rng \<Rightarrow> key_cell \<Rightarrow> unit test" where
  "encrypt_only_roundtrip C rng cell =
     roundtrip C rng cell 3 99 (bstr ''secret payload'') CHACHA20POLY1305"

definition gzip_and_encrypt_roundtrip :: "codec \<Rightarrow> rng \<Rightarrow> key_cell \<Rightarrow> unit test" where
  "gzip_and_encrypt_roundtrip C rng cell =
     roundtrip C rng cell 7 12345 (bstr ''compress then encrypt !!!!!!!!!!!!!!!!'')
       (COMPRESS_GZIP OR CHACHA20POLY1305)"

definition deflate_and_encrypt_roundtrip :: "codec \<Rightarrow> rng \<Rightarrow> key_cell \<Rightarrow> unit test" where
  "deflate_and_encrypt_roundtrip C rng cell =
     roundtrip C rng cell 0 1 (replicate 128 1) (COMPRESS_DEFLATE OR CHACHA20POLY1305)"

definition empty_payload :: "codec \<Rightarrow> rng \<Rightarrow> key_cell \<Rightarrow> unit test" where
  "empty_payload C rng cell = roundtrip C rng cell 0 0 (bstr []) COMPRESS_NONE"

definition empty_encrypted_payload :: "codec \<Rightarrow> rng \<Rightarrow> key_cell \<Rightarrow> unit test" where
  "empty_encrypted_payload C rng cell = roundtrip C rng cell 0 0 (bstr []) CHACHA20POLY1305"

definition rejects_oversized_message_type :: "codec \<Rightarrow> rng \<Rightarrow> key_cell \<Rightarrow> unit test" where
  "rejects_oversized_message_type C rng cell =
     (let (r, client) = write_frame C cell rng (open_sink eof) 32 0 (bstr ''x'') COMPRESS_NONE in
      tbind (unwrap_err r) (\<lambda>err.
      assert_eq (io_kind err) InvalidInput))"

definition rejects_tampered_ciphertext :: "codec \<Rightarrow> rng \<Rightarrow> key_cell \<Rightarrow> unit test" where
  "rejects_tampered_ciphertext C rng cell =
     (let cell = ensure_test_key cell;
          (r, client) = write_frame C cell rng (open_sink eof) 1 7 (bstr ''secret'') CHACHA20POLY1305 in
      tbind (unwrap r) (\<lambda>_.
      let raw = sk_out client;
          payload_start = 1 + 8 + 2 + NONCE_LEN in
      tbind (assert_that (length raw > payload_start)) (\<lambda>_.
      let raw = raw[payload_start := raw ! payload_start XOR 0xff] in
      tbind (unwrap_err (read_frame C cell \<lparr>rd_inp = raw, rd_end = eof\<rparr>)) (\<lambda>err.
      assert_eq (io_kind err) InvalidData))))"

definition blocking_plain_roundtrip :: "codec \<Rightarrow> rng \<Rightarrow> key_cell \<Rightarrow> unit test" where
  "blocking_plain_roundtrip C rng cell =
     blocking_roundtrip C rng cell 0x15 0x1122334455667788 (bstr ''hello frame'') COMPRESS_NONE"

definition blocking_encrypt_roundtrip :: "codec \<Rightarrow> rng \<Rightarrow> key_cell \<Rightarrow> unit test" where
  "blocking_encrypt_roundtrip C rng cell =
     blocking_roundtrip C rng cell 3 99 (bstr ''secret payload'') CHACHA20POLY1305"

section \<open>The codec the tests run with\<close>

text \<open>
  Beyond its laws the codec has to be able to encode the small inputs of the tests in a frame.
  That a flipped byte is noticed is no law of a cipher (it is so but with a small probability),
  and not assumed: the test of it passes exactly if it is noticed for the key and nonce it has.
\<close>

definition codec_small :: "codec \<Rightarrow> bool" where
  "codec_small C \<longleftrightarrow>
     (\<forall>d. length d \<le> 256 \<longrightarrow> (\<exists>z. gz_encode C d = Inr z \<and> length z \<le> 1000)) \<and>
     (\<forall>d. length d \<le> 256 \<longrightarrow> (\<exists>z. df_encode C d = Inr z \<and> length z \<le> 1000)) \<and>
     (\<forall>k n m a. length m \<le> 1000 \<longrightarrow> aead_encrypt C k n m a \<noteq> None)"

definition key_usable :: "key_cell \<Rightarrow> bool" where
  "key_usable cell \<longleftrightarrow> cell \<noteq> Some None"

lemma ensure_test_key_Some: "key_usable cell \<Longrightarrow> \<exists>key. ensure_test_key cell = Some (Some key)"
  by (auto simp: key_usable_def ensure_test_key_def split: option.splits)

lemma compress_small:
  assumes "codec_small C" "fl AND 3 \<noteq> 3" "length d \<le> 256"
  shows "\<exists>z. compress_payload C (fl AND 3) d = Ok z \<and> length z \<le> 1000"
  using assms and_3_cases [of fl] by (auto simp: codec_small_def compress_payload_Ok_iff)

lemma build_small:
  assumes "codec_ok C" "codec_small C" "header_ok mt fl" "length d \<le> 256"
    and "fl AND 4 \<noteq> 0 \<Longrightarrow> \<exists>key. cell = Some (Some key)"
  shows "\<exists>buf. build_wire_frame C cell rng mt tx d fl = Ok buf"
proof -
  obtain z where z: "compress_payload C (fl AND 3) d = Ok z" "length z \<le> 1000"
    using compress_small [OF assms(2) _ assms(4), of fl] assms(3) by (auto simp: header_ok_def)
  show ?thesis
  proof (cases "fl AND 4 = 0")
    case True
    with z assms(3) show ?thesis
      by (simp add: build_wire_frame_Ok_iff frame_payload_def u16_MAX_def)
  next
    case False
    let ?aad = "aead_aad (push_bit 3 mt OR fl) tx"
    from False assms(5) obtain key where key: "cell = Some (Some key)" by blast
    from assms(2) z(2) obtain c where c: "aead_encrypt C key (fill_bytes rng NONCE_LEN) z ?aad = Some c"
      by (fastforce simp: codec_small_def)
    have "length c = length z + TAG_LEN" by (rule codec_okD(3) [OF assms(1) c])
    with z False key c assms(3) show ?thesis
      by (simp add: build_wire_frame_Ok_iff frame_payload_def u16_MAX_def encrypt_payload_Ok_iff
          NONCE_LEN_def TAG_LEN_def)
  qed
qed

lemma roundtrip_passes:
  assumes "codec_ok C" "codec_small C" "header_ok mt fl" "length d \<le> 256" "key_usable cell"
  shows "roundtrip C rng cell mt tx d fl = Done ()"
proof -
  define K where "K = (if fl AND CHACHA20POLY1305 \<noteq> 0 then ensure_test_key cell else cell)"
  have "\<exists>key. K = Some (Some key)" if "fl AND 4 \<noteq> 0"
    using that ensure_test_key_Some [OF assms(5)] by (simp add: K_def CHACHA20POLY1305_def)
  from build_small [OF assms(1-4) this] obtain buf where b: "build_wire_frame C K rng mt tx d fl = Ok buf"
    by blast
  have "read_frame C K \<lparr>rd_inp = buf, rd_end = eof\<rparr> = Ok (decoded mt fl tx d, \<lparr>rd_inp = [], rd_end = eof\<rparr>)"
    using build_read [OF assms(1) b, of "\<lparr>rd_inp = buf, rd_end = eof\<rparr>" "[]"] by simp
  then show ?thesis
    unfolding roundtrip_def K_def [symmetric]
    by (simp add: write_frame_good b check_frame_def decoded_def COMPRESS_MASK_def CHACHA20POLY1305_def)
qed

lemma blocking_roundtrip_eq: "blocking_roundtrip = roundtrip"
  by (intro ext) (simp add: blocking_roundtrip_def roundtrip_def write_frame_blocking_eq read_frame_eq_blocking)

lemma tampered_iff:
  assumes "codec_ok C" "codec_small C" "ensure_test_key cell = Some (Some key)"
    and "aead_encrypt C key (fill_bytes rng NONCE_LEN) (bstr ''secret'') (aead_aad (push_bit 3 1 OR CHACHA20POLY1305) 7) = Some c"
  shows "rejects_tampered_ciphertext C rng cell = Done () \<longleftrightarrow>
    aead_decrypt C key (fill_bytes rng NONCE_LEN) (c[0 := c ! 0 XOR 0xff])
      (aead_aad (push_bit 3 1 OR CHACHA20POLY1305) 7) = None"
proof -
  let ?d = "bstr ''secret''" and ?h = "push_bit 3 1 OR 4 :: u8" and ?n = "fill_bytes rng NONCE_LEN"
  have hd: "header_ok 1 4" by (simp add: header_ok_def)
  have c: "aead_encrypt C key ?n ?d (aead_aad ?h 7) = Some c" using assms(4) by (simp add: CHACHA20POLY1305_def)
  have len: "length c = 22" using codec_okD(3) [OF assms(1) c] by (simp add: TAG_LEN_def)
  let ?c' = "c[0 := c ! 0 XOR 0xff]"
  let ?p = "?n @ c" and ?p' = "?n @ ?c'"
  have b: "build_wire_frame C (Some (Some key)) rng 1 7 ?d 4 = Ok (wire ?h 7 ?p)"
    using c len hd by (simp add: build_wire_frame_Ok_iff frame_payload_def compress_payload_Ok_iff
        encrypt_payload_Ok_iff u16_MAX_def NONCE_LEN_def)
  have flip: "(wire ?h 7 ?p)[11 + NONCE_LEN := (wire ?h 7 ?p) ! (11 + NONCE_LEN) XOR 0xff] = wire ?h 7 ?p'"
    by (simp add: wire_def list_update_append nth_append)
  have "length ?p' \<le> u16_MAX" by (simp add: len u16_MAX_def NONCE_LEN_def)
  then have rd: "read_frame C (Some (Some key)) \<lparr>rd_inp = wire ?h 7 ?p', rd_end = eof\<rparr> =
      rbind (parse_wire_frame C (Some (Some key)) ?h 7 ?p') (\<lambda>f. Ok (f, \<lparr>rd_inp = [], rd_end = eof\<rparr>))"
    using read_frame_wire [of "\<lparr>rd_inp = wire ?h 7 ?p', rd_end = eof\<rparr>" ?h 7 ?p' "[]" C "Some (Some key)"] by simp
  have test: "rejects_tampered_ciphertext C rng cell =
      tbind (unwrap_err (read_frame C (Some (Some key)) \<lparr>rd_inp = wire ?h 7 ?p', rd_end = eof\<rparr>))
        (\<lambda>err. assert_eq (io_kind err) InvalidData)"
    using flip by (simp add: rejects_tampered_ciphertext_def assms(3) CHACHA20POLY1305_def write_frame_good b Let_def
        length_wire len NONCE_LEN_def assert_that_def)
  show ?thesis
  proof (cases "aead_decrypt C key ?n ?c' (aead_aad ?h 7)")
    case None
    then have "parse_wire_frame C (Some (Some key)) ?h 7 ?p' =
        Err (Io_Error InvalidData ''chacha20poly1305 decrypt failed'')"
      by (simp add: parse_wire_frame_eq decrypt_payload_def len NONCE_LEN_def TAG_LEN_def)
    with None show ?thesis unfolding test rd by (simp add: CHACHA20POLY1305_def)
  next
    case (Some m)
    then have "\<exists>f. parse_wire_frame C (Some (Some key)) ?h 7 ?p' = Ok f"
      by (simp add: parse_wire_frame_eq decrypt_payload_def len NONCE_LEN_def TAG_LEN_def decompress_payload_def frame_consts)
    with Some show ?thesis unfolding test rd by (auto simp: CHACHA20POLY1305_def)
  qed
qed

lemma oversized_type_passes: "rejects_oversized_message_type C rng cell = Done ()"
  by (simp add: rejects_oversized_message_type_def write_frame_good build_wire_frame_eq
      pack_header_byte_cases COMPRESS_NONE_def)

section \<open>The outcome of the tests\<close>

text \<open>
  The tests of the frame layer pass in the model, with any codec that keeps its laws and
  encodes small inputs, any random bytes, and whether or not another test of the process has
  already set the key. The test of the flipped byte is the subject of \<open>tampered_iff\<close>.
\<close>

lemma frame_tests_pass:
  assumes "codec_ok C" and "codec_small C" and "key_usable cell"
  shows "plain_roundtrip C rng cell = Done () \<and> gzip_roundtrip C rng cell = Done () \<and>
    deflate_roundtrip C rng cell = Done () \<and> encrypt_only_roundtrip C rng cell = Done () \<and>
    gzip_and_encrypt_roundtrip C rng cell = Done () \<and> deflate_and_encrypt_roundtrip C rng cell = Done () \<and>
    empty_payload C rng cell = Done () \<and> empty_encrypted_payload C rng cell = Done () \<and>
    rejects_oversized_message_type C rng cell = Done () \<and>
    blocking_plain_roundtrip C rng cell = Done () \<and> blocking_encrypt_roundtrip C rng cell = Done ()"
proof -
  have h: "header_ok 21 0" "header_ok 1 1" "header_ok 31 2" "header_ok 3 4" "header_ok 7 5" "header_ok 0 6"
    "header_ok 0 0" "header_ok 0 4"
    by (simp_all add: header_ok_def)
  note rt = roundtrip_passes [OF assms(1,2) _ _ assms(3)]
  note defs = plain_roundtrip_def gzip_roundtrip_def deflate_roundtrip_def encrypt_only_roundtrip_def
    gzip_and_encrypt_roundtrip_def deflate_and_encrypt_roundtrip_def empty_payload_def
    empty_encrypted_payload_def blocking_plain_roundtrip_def blocking_encrypt_roundtrip_def
  show ?thesis
    using oversized_type_passes
    by (simp add: defs blocking_roundtrip_eq rt h frame_consts)
qed

end
