(* ===== verification/Edge_Tests.thy ===== *)
theory Edge_Tests
  imports Test_Base Prom_Edge "HOL-Library.Char_ord" "HOL-Library.List_Lexorder"
    "HOL-Library.Product_Lexorder"
begin

text \<open>
  The tests at the end of \<open>src/prom_proxy/edge.rs\<close>. They return at once when there is no Redis
  to connect to. \<open>Vec::sort\<close> is the sorting of the library for the lexicographic order of
  strings (by bytes) and pairs.
\<close>

section \<open>The tests\<close>

definition test_redis_url :: "(string \<Rightarrow> string option) \<Rightarrow> string option" where
  "test_redis_url env_var =
     (case env_var ''PROM_PROXY_REDIS_URL'' of
        Some url \<Rightarrow> Some url
      | None \<Rightarrow> Some ''redis://127.0.0.1:6379'')"

text \<open>The steps of both tests, over the operations of either store.\<close>

definition incr_accumulates_total ::
  "(string \<Rightarrow> u64 \<Rightarrow> 'r \<Rightarrow> (edge_error, unit) res \<times> 'r) \<Rightarrow>
   ('r \<Rightarrow> (edge_error, (string \<times> u64) list) res) \<Rightarrow> ('r \<Rightarrow> (edge_error, unit) res \<times> 'r) \<Rightarrow> 'r \<Rightarrow> unit test \<times> 'r" where
  "incr_accumulates_total incr totals clear r =
     stbind (sdiscard (clear r)) (\<lambda>_ r.
     stbind (sunwrap (incr ''a'' 3 r)) (\<lambda>_ r.
     stbind (sunwrap (incr ''a'' 2 r)) (\<lambda>_ r.
     stbind (sunwrap (incr ''b'' 1 r)) (\<lambda>_ r.
     stbind (unwrap (totals r), r) (\<lambda>t r.
     stbind (assert_eq (sort t) [(''a'', 5), (''b'', 1)], r) (\<lambda>_ r.
     stbind (sunwrap (incr ''a'' 1 r)) (\<lambda>_ r.
     stbind (unwrap (totals r), r) (\<lambda>t r.
     stbind (assert_eq (sort t) [(''a'', 6), (''b'', 1)], r) (\<lambda>_ r.
     sdiscard (clear r))))))))))"

definition redis_incr_accumulates_total ::
  "'r redis \<Rightarrow> (string \<Rightarrow> string option) \<Rightarrow> nat \<Rightarrow> 'r \<Rightarrow> unit test \<times> 'r" where
  "redis_incr_accumulates_total R env_var pid r =
     (case test_redis_url env_var of
        None \<Rightarrow> (Done (), r)
      | Some url \<Rightarrow>
          let hash_key = ''prom_proxy:test:'' @ show_dec pid in
          (case edge_connect R url hash_key r of
             Ok store \<Rightarrow>
               incr_accumulates_total (edge_incr R store) (edge_totals R store) (edge_clear R store) r
           | Err _ \<Rightarrow> (Done (), r)
           | Panic m \<Rightarrow> (Failed m, r)))"

definition blocking_redis_incr_accumulates_total ::
  "'r redis \<Rightarrow> (string \<Rightarrow> string option) \<Rightarrow> nat \<Rightarrow> 'r \<Rightarrow> unit test \<times> 'r" where
  "blocking_redis_incr_accumulates_total R env_var pid r =
     (case test_redis_url env_var of
        None \<Rightarrow> (Done (), r)
      | Some url \<Rightarrow>
          let hash_key = ''prom_proxy:test:blocking:'' @ show_dec pid in
          (case edge_connect_blocking R url hash_key of
             Ok store \<Rightarrow>
               incr_accumulates_total (edge_incr_blocking R store) (edge_totals_blocking R store)
                 (edge_clear_blocking R store) r
           | Err _ \<Rightarrow> (Done (), r)
           | Panic m \<Rightarrow> (Failed m, r)))"

section \<open>The tests pass\<close>

text \<open>A Redis that is up: it accepts connections and refuses no command on small numbers.\<close>

definition redis_up :: "'r redis \<Rightarrow> bool" where
  "redis_up R \<longleftrightarrow>
     (\<forall>r. rs_connect R r = None) \<and> (\<forall>h r. is_ok (fst (rs_del R h r))) \<and>
     (\<forall>h r. is_ok (rs_hgetall R h r)) \<and>
     (\<forall>h f d r. \<bar>old_value (rs_view R r h f) + sint d\<bar> < 2 ^ 62 \<longrightarrow> is_ok (fst (rs_hincr R h f d r)))"

lemma redis_upD:
  assumes "redis_up R"
  shows "rs_connect R r = None" "is_ok (fst (rs_del R h r))" "is_ok (rs_hgetall R h r)"
    and "\<bar>old_value (rs_view R r h f) + sint d\<bar> < 2 ^ 62 \<Longrightarrow> is_ok (fst (rs_hincr R h f d r))"
  using assms by (simp_all add: redis_up_def)

lemma sorted_a_b: "sorted [(''a'', x :: u64), (''b'', y)]"
proof -
  have "''a'' < (''b'' :: string)" by (simp add: less_char_def)
  then show ?thesis by (simp add: less_eq_prod_simp less_imp_le)
qed

context edge_counter
begin

lemma incr_view:
  assumes "ok e" "incr e k d r = (Ok (), r')" "d \<noteq> 0"
  shows "view e r' = (view e r)(k \<mapsto> word_of_int (old_value (view e r k) + sint d))"
proof -
  note law = incr_law [OF assms(1,2), unfolded incremented_def]
  with assms(3) obtain w where w: "view e r' k = Some w" "sint w = old_value (view e r k) + sint d"
    by (auto simp: old_value_def)
  then have "w = word_of_int (old_value (view e r k) + sint d)" by (simp flip: w(2))
  with law w(1) show ?thesis by (auto simp: fun_eq_iff)
qed

lemma sorted_totals:
  assumes "ok e" "totals e r = Ok kvs" "view e r = [''a'' \<mapsto> x, ''b'' \<mapsto> y]" "0 \<le> sint x" "0 \<le> sint y"
  shows "sort kvs = [(''a'', x), (''b'', y)]"
proof -
  have "set kvs = {(''a'', x), (''b'', y)}" "distinct kvs"
    using totals_graph [OF assms(1,2)] assms(3-5) by (auto simp: Map.graph_def split: if_splits)
  then show ?thesis
    by (intro sorted_distinct_set_unique sorted_a_b) simp_all
qed

text \<open>With operations that succeed on small numbers the assertions hold.\<close>

lemma accumulates:
  assumes "ok e" "\<And>r. is_ok (fst (clear e r))" "\<And>r. is_ok (totals e r)"
    and "\<And>k d r. \<bar>old_value (view e r k) + sint d\<bar> < 2 ^ 62 \<Longrightarrow> is_ok (fst (incr e k d r))"
  shows "fst (incr_accumulates_total (incr e) (totals e) (clear e) r) = Done ()"
proof -
  have step: "\<exists>r'. incr e k d r = (Ok (), r')" if "\<bar>old_value (view e r k) + sint d\<bar> < 2 ^ 62" for k d r
    using assms(4) [OF that] by (cases "incr e k d r") (auto simp: is_ok_iff)
  obtain r0 where r0: "clear e r = (Ok (), r0)"
    using assms(2) [of r] by (cases "clear e r") (auto simp: is_ok_iff)
  have v0: "view e r0 = Map.empty" by (rule clear_law [OF assms(1) r0])
  obtain r1 where r1: "incr e ''a'' 3 r0 = (Ok (), r1)"
    using step [of r0 "''a''" 3] by (auto simp: v0 old_value_def)
  have v1: "view e r1 = [''a'' \<mapsto> 3]" using incr_view [OF assms(1) r1] by (simp add: v0 old_value_def)
  obtain r2 where r2: "incr e ''a'' 2 r1 = (Ok (), r2)"
    using step [of r1 "''a''" 2] by (auto simp: v1 old_value_def)
  have v2: "view e r2 = [''a'' \<mapsto> 5]" using incr_view [OF assms(1) r2] by (simp add: v1 old_value_def)
  obtain r3 where r3: "incr e ''b'' 1 r2 = (Ok (), r3)"
    using step [of r2 "''b''" 1] by (auto simp: v2 old_value_def)
  have v3: "view e r3 = [''a'' \<mapsto> 5, ''b'' \<mapsto> 1]"
    using incr_view [OF assms(1) r3] by (simp add: v2 old_value_def)
  obtain t1 where t1: "totals e r3 = Ok t1" using assms(3) [of r3] by (auto simp: is_ok_iff)
  obtain r4 where r4: "incr e ''a'' 1 r3 = (Ok (), r4)"
    using step [of r3 "''a''" 1] by (auto simp: v3 old_value_def)
  have v4: "view e r4 = [''a'' \<mapsto> 6, ''b'' \<mapsto> 1]"
    using incr_view [OF assms(1) r4] by (simp add: v3 old_value_def fun_upd_twist)
  obtain t2 where t2: "totals e r4 = Ok t2" using assms(3) [of r4] by (auto simp: is_ok_iff)
  obtain r5 where r5: "clear e r4 = (Ok (), r5)"
    using assms(2) [of r4] by (cases "clear e r4") (auto simp: is_ok_iff)
  have "sort t1 = [(''a'', 5), (''b'', 1)]" "sort t2 = [(''a'', 6), (''b'', 1)]"
    using sorted_totals [OF assms(1) t1 v3] sorted_totals [OF assms(1) t2 v4] by simp_all
  then show ?thesis
    by (simp add: incr_accumulates_total_def r0 r1 r2 r3 r4 r5 t1 t2 assert_eq_def)
qed

end

lemma is_ok_map_err [simp]: "is_ok (map_err g m) = is_ok m"
  by (cases m) auto

lemma is_ok_sbind_unit: "is_ok (fst (sbind p (\<lambda>_ r. (Ok (), r)))) = is_ok (fst p)"
  by (cases p; cases "fst p") auto

lemma is_ok_smap_err [simp]: "is_ok (fst (smap_err g p)) = is_ok (fst p)"
  by (simp add: smap_err_def)

lemma up_stores:
  assumes "redis_up R"
  shows "is_ok (fst (edge_clear R st r))" "is_ok (fst (edge_clear_blocking R st r))"
    and "is_ok (edge_totals R st r)" "is_ok (edge_totals_blocking R st r)"
    and "\<bar>old_value (edge_view (R, st) r k) + sint d\<bar> < 2 ^ 62 \<Longrightarrow> is_ok (fst (edge_incr R st k d r))"
    and "\<bar>old_value (edge_view (R, st) r k) + sint d\<bar> < 2 ^ 62 \<Longrightarrow> is_ok (fst (edge_incr_blocking R st k d r))"
proof -
  note up = redis_upD [OF assms]
  obtain kvs where "rs_hgetall R (es_hash_key st) r = Ok kvs" using up(3) by (auto simp: is_ok_iff)
  then show t: "is_ok (edge_totals R st r)" by (simp add: edge_totals_def)
  show "is_ok (edge_totals_blocking R st r)" using t by (simp add: up(1) edge_totals_blocking_eq)
qed (use redis_upD [OF assms] in \<open>simp_all add: edge_clear_def edge_clear_blocking_def edge_incr_def
      edge_incr_blocking_def edge_view_def is_ok_sbind_unit del: sbind_unit\<close>)

lemma connect_up:
  "redis_up R \<Longrightarrow> edge_connect R url key r =
     (case rs_open R url of Some e \<Rightarrow> Err (EdgeE_Redis e) | None \<Rightarrow> Ok \<lparr>es_hash_key = key\<rparr>)"
  by (simp add: edge_connect_def redis_upD(1) split: option.splits)

text \<open>The tests of the counters pass against any Redis that is up.\<close>

theorem edge_tests_pass:
  assumes "redis_ok R" and "redis_up R"
  shows "fst (redis_incr_accumulates_total R env_var pid r) = Done () \<and>
    fst (blocking_redis_incr_accumulates_total R env_var pid r) = Done ()"
proof -
  have a: "fst (incr_accumulates_total (edge_incr R st) (edge_totals R st) (edge_clear R st) r) = Done ()" for st
    using edge.accumulates [of "(R, st)" r] up_stores [OF assms(2)] assms(1) by simp
  have b: "fst (incr_accumulates_total (edge_incr_blocking R st) (edge_totals_blocking R st)
      (edge_clear_blocking R st) r) = Done ()" for st
    using edge_blocking.accumulates [of "(R, st)" r] up_stores [OF assms(2)] assms(1) by simp
  show ?thesis
    by (simp add: redis_incr_accumulates_total_def blocking_redis_incr_accumulates_total_def Let_def
        connect_up [OF assms(2)] edge_connect_blocking_def a b split: option.splits)
qed

lemma sample_redis_up: "redis_up sample_redis"
  by (auto simp: redis_up_def sample_redis_def Let_def)

theorem edge_tests_pass_witness:
  "fst (redis_incr_accumulates_total sample_redis (\<lambda>_. None) 7 []) = Done ()"
  using edge_tests_pass [OF sample_redis_ok sample_redis_up] by blast

end
