(* ===== verification/Prom_Tests.thy ===== *)
theory Prom_Tests
  imports Frame_Tests Edge_Tests Prom_Security "HOL-Library.Sublist"
begin

text \<open>
  The tests of \<open>src/prom_proxy/encode.rs\<close>, \<open>server.rs\<close> and \<open>mod.rs\<close>. The upstream is a mock
  of the wiremock crate: it answers the requests that match what was mounted, and when it is
  dropped at the end of a test it panics if it did not see as many as expected. The requests
  it saw are \<open>px_posted\<close>.
\<close>

section \<open>encode.rs\<close>

text \<open>What the registry of the prometheus crate gathers from the counter and the gauge.\<close>

definition demo_family :: "string \<Rightarrow> metric_type \<Rightarrow> f64 \<Rightarrow> f64 \<Rightarrow> metric_family" where
  "demo_family name mtype cv gv =
     \<lparr>mf_name = name, mf_field_type = mtype,
      mf_metric = [\<lparr>m_label = [\<lparr>lp_name = ''job'', lp_value = ''demo''\<rparr>], m_timestamp_ms = 0,
        m_counter_value = cv, m_gauge_value = gv,
        m_histogram = \<lparr>h_sample_sum = 0, h_sample_count = 0, h_bucket = []\<rparr>,
        m_summary = \<lparr>sm_sample_sum = 0, sm_sample_count = 0, sm_quantile = []\<rparr>\<rparr>]\<rparr>"

definition demo_gathered :: "metric_family list \<Rightarrow> bool" where
  "demo_gathered mfs \<longleftrightarrow>
     mset mfs = {#demo_family ''demo_requests_total'' COUNTER 0x4008000000000000 0,
                  demo_family ''demo_inflight'' GAUGE 0 0x401C000000000000#}"

definition encode_counter_gauge_from_registry ::
  "prost \<Rightarrow> (f64 \<Rightarrow> string) \<Rightarrow> int \<Rightarrow> metric_family list \<Rightarrow> unit test" where
  "encode_counter_gauge_from_registry P f64_display wall gathered =
     tbind (unwrap (encode_metric_families P f64_display wall gathered)) (\<lambda>body.
     tbind (assert_that (body \<noteq> [])) (\<lambda>_.
     tbind (unwrap (of_sum (pb_decode P body))) (\<lambda>decoded.
     assert_eq (length (pb_timeseries decoded)) 2)))"

text \<open>Encoding into a growing buffer succeeds, and an empty buffer is the empty message.\<close>

definition prost_total :: "prost \<Rightarrow> bool" where
  "prost_total P \<longleftrightarrow> (\<forall>q. \<exists>b. pb_encode P q = Inr b) \<and> pb_decode P [] = Inr \<lparr>pb_timeseries = []\<rparr>"

lemma encode_total: "prost_total P \<Longrightarrow> \<exists>b. encode_write_request P series = Ok b"
  by (auto simp: prost_total_def encode_write_request_def Let_def dest: spec [of _ "\<lparr>pb_timeseries = map pb_series series\<rparr>"])

theorem encode_test_passes:
  assumes "prost_ok P" and "prost_total P" and "demo_gathered mfs"
  shows "encode_counter_gauge_from_registry P f64_display wall mfs = Done ()"
proof -
  have "length mfs = 2" using assms(3) by (metis demo_gathered_def size_mset size_add_mset size_empty numeral_2_eq_2)
  have one: "length (family_series f64_display now mf) = 1 \<and> typed mf" if "mf \<in> set mfs" for mf now
  proof -
    have "set mfs = {demo_family ''demo_requests_total'' COUNTER 0x4008000000000000 0,
        demo_family ''demo_inflight'' GAUGE 0 0x401C000000000000}"
      using arg_cong [OF assms(3) [unfolded demo_gathered_def], of set_mset] by simp
    with that have "mf = demo_family ''demo_requests_total'' COUNTER 0x4008000000000000 0 \<or>
        mf = demo_family ''demo_inflight'' GAUGE 0 0x401C000000000000" by blast
    then show ?thesis by (elim disjE) (simp_all add: demo_family_def family_series_def typed_def)
  qed
  then have all: "filter typed mfs = mfs" by simp
  let ?s = "concat (map (family_series f64_display (chrono_now_ms wall)) mfs)"
  have len: "length ?s = 2"
    using one \<open>length mfs = 2\<close> by (simp add: length_concat comp_def sum_list_triv cong: map_cong)
  obtain b where b: "encode_write_request P ?s = Ok b" using encode_total [OF assms(2)] by blast
  note d = encode_write_request_Ok [OF assms(1) b]
  moreover have "b \<noteq> []"
  proof
    assume "b = []"
    with d assms(2) have "?s = []" by (simp add: prost_total_def)
    with len show False by simp
  qed
  ultimately show ?thesis
    using b len by (simp add: encode_counter_gauge_from_registry_def encode_metric_families_eq all
        assert_that_def assert_eq_def)
qed

text \<open>The sample encoder, with nothing for the empty message.\<close>

definition test_prost :: prost where
  "test_prost =
     \<lparr>pb_encode = (\<lambda>q. if pb_timeseries q = [] then Inr [] else pb_encode sample_prost q),
      pb_decode = (\<lambda>b. if b = [] then Inr \<lparr>pb_timeseries = []\<rparr> else pb_decode sample_prost b)\<rparr>"

lemma test_prost_ok: "prost_ok test_prost" "prost_total test_prost"
proof -
  have "b \<noteq> []" if "pb_encode sample_prost q = Inr b" for q b
    using that by (auto simp: sample_prost_def to_vec_def put_list_def put_nat_def)
  then show "prost_ok test_prost"
    using sample_prost_ok by (auto simp: prost_ok_def test_prost_def)
  show "prost_total test_prost"
    by (simp add: prost_total_def test_prost_def sample_prost_def)
qed

theorem encode_test_passes_witness:
  "encode_counter_gauge_from_registry test_prost (\<lambda>_. []) 0
     [demo_family ''demo_inflight'' GAUGE 0 0x401C000000000000,
      demo_family ''demo_requests_total'' COUNTER 0x4008000000000000 0] = Done ()"
  by (rule encode_test_passes [OF test_prost_ok]) (simp add: demo_gathered_def add_mset_commute)


section \<open>The mock upstream\<close>

definition matches :: "string \<Rightarrow> (string \<times> string) list \<Rightarrow> http_request \<Rightarrow> bool" where
  "matches uri headers req \<longleftrightarrow> hq_url req = uri @ ''/api/v1/write'' \<and> set headers \<subseteq> set (hq_headers req)"

definition mounted ::
  "(http_request \<Rightarrow> http_error + http_response) \<Rightarrow> string \<Rightarrow> (string \<times> string) list \<Rightarrow> http_response \<Rightarrow> bool" where
  "mounted http uri headers resp \<longleftrightarrow> (\<forall>req. matches uri headers req \<longrightarrow> http req = Inr resp)"

text \<open>The end of a test that does not panic already: the mock is dropped and checks its count.\<close>

definition drop_mock ::
  "string \<Rightarrow> (string \<times> string) list \<Rightarrow> nat \<Rightarrow> unit test \<times> 'r proxy_state \<Rightarrow> unit test \<times> 'r proxy_state" where
  "drop_mock uri headers expected p =
     stbind p (\<lambda>_ px. (assert_eq (length (filter (matches uri headers) (px_posted px))) expected, px))"

section \<open>server.rs\<close>

definition redis_url_of :: "(string \<Rightarrow> string option) \<Rightarrow> string" where
  "redis_url_of env =
     (case env ''PROM_PROXY_REDIS_URL'' of Some url \<Rightarrow> url | None \<Rightarrow> ''redis://127.0.0.1:6379'')"

definition any_local_port :: socket_addr where
  "any_local_port = \<lparr>sa_ip = V4 127 0 0 1, sa_port = 0\<rparr>"

definition on_redis :: "('r \<Rightarrow> ('e, 'a) res \<times> 'r) \<Rightarrow> 'r proxy_state \<Rightarrow> ('e, 'a) res \<times> 'r proxy_state" where
  "on_redis f px = (let (r, db) = f (px_redis px) in (r, px\<lparr>px_redis := db\<rparr>))"

definition test_inner ::
  "'r redis \<Rightarrow> (string \<Rightarrow> string option) \<Rightarrow> nat \<Rightarrow> string \<Rightarrow> 'r proxy_state \<Rightarrow>
   prom_inner option test \<times> 'r proxy_state" where
  "test_inner R env pid prometheus_url px =
     (let redis_url = redis_url_of env;
          hash_key = ''prom_proxy:test:server:'' @ show_dec pid in
      case edge_connect R redis_url hash_key (px_redis px) of
        Panic m \<Rightarrow> (Failed m, px)
      | Err _ \<Rightarrow> (Done None, px)
      | Ok edges \<Rightarrow>
          stbind (sdiscard (on_redis (edge_clear R edges) px)) (\<lambda>_ px.
          (Done (Some \<lparr>pi_config = with_edge_hash_key hash_key
                       (prom_config_new any_local_port prometheus_url redis_url),
                     pi_edges = edges\<rparr>), px)))"

text \<open>The wall clock is read anew by each flush.\<close>

definition flush_edges_posts_counter_totals ::
  "'r prom_world \<Rightarrow> int \<Rightarrow> int \<Rightarrow> (string \<Rightarrow> string option) \<Rightarrow> nat \<Rightarrow> string \<Rightarrow> 'r proxy_state \<Rightarrow>
   unit test \<times> 'r proxy_state" where
  "flush_edges_posts_counter_totals W t1 t2 env pid uri px =
     (let R = pw_redis W in
      drop_mock uri [(''Content-Encoding'', ''snappy'')] 2
        (stbind (test_inner R env pid (uri @ ''/api/v1/write'') px) (\<lambda>inner px.
         case inner of
           None \<Rightarrow> (Done (), px)
         | Some inn \<Rightarrow>
             stbind (sunwrap (on_redis (edge_incr R (pi_edges inn) ''requests'' 7) px)) (\<lambda>_ px.
             stbind (sunwrap (on_redis (edge_incr R (pi_edges inn) ''errors'' 2) px)) (\<lambda>_ px.
             stbind (sunwrap (flush_edges (W\<lparr>pw_wall := t1\<rparr>) inn px)) (\<lambda>_ px.
             stbind (sunwrap (on_redis (edge_incr R (pi_edges inn) ''requests'' 3) px)) (\<lambda>_ px.
             sunwrap (flush_edges (W\<lparr>pw_wall := t2\<rparr>) inn px))))))))"

text \<open>Encoder and compressor that do not refuse small inputs.\<close>

definition snap_total :: "snap \<Rightarrow> bool" where
  "snap_total snap \<longleftrightarrow> (\<forall>d. \<exists>z. snap d = Inr z \<and> (length d \<le> 100 \<longrightarrow> length z \<le> 256))"

lemma on_redis_pair [simp]: "f (px_redis px) = (r, db) \<Longrightarrow> on_redis f px = (r, px\<lparr>px_redis := db\<rparr>)"
  by (simp add: on_redis_def)

lemma test_inner_up:
  assumes "redis_ok R" "redis_up R" "rs_open R (redis_url_of env) = None"
  shows "\<exists>inn db. test_inner R env pid url px = (Done (Some inn), px\<lparr>px_redis := db\<rparr>) \<and>
    pc_prometheus_url (pi_config inn) = url \<and> edge_view (R, pi_edges inn) db = Map.empty"
proof -
  let ?st = "\<lparr>es_hash_key = ''prom_proxy:test:server:'' @ show_dec pid\<rparr>"
  obtain db where c: "edge_clear R ?st (px_redis px) = (Ok (), db)"
    using up_stores(1) [OF assms(2), of ?st "px_redis px"]
    by (cases "edge_clear R ?st (px_redis px)") (auto simp: is_ok_iff)
  with edge_clear_Ok [OF assms(1) c] show ?thesis
    by (intro exI [of _ db] exI)
       (auto simp: test_inner_def Let_def connect_up [OF assms(2)] assms(3) with_edge_hash_key_def prom_config_new_def)
qed

text \<open>One small increment against a Redis that is up, and one flush of what is then there.\<close>

lemma incr_up:
  assumes "redis_ok R" "redis_up R" "d \<noteq> 0" "\<bar>old_value (edge_view (R, st) (px_redis px) k) + sint d\<bar> < 2 ^ 62"
  shows "\<exists>db. on_redis (edge_incr R st k d) px = (Ok (), px\<lparr>px_redis := db\<rparr>) \<and> edge_view (R, st) db =
    (edge_view (R, st) (px_redis px))(k \<mapsto> word_of_int (old_value (edge_view (R, st) (px_redis px) k) + sint d))"
proof -
  obtain db where i: "edge_incr R st k d (px_redis px) = (Ok (), db)"
    using up_stores(5) [OF assms(2,4)]
    by (cases "edge_incr R st k d (px_redis px)") (auto simp: is_ok_iff)
  with edge.incr_view [of "(R, st)" k d "px_redis px" db] assms(1,3) show ?thesis
    by (intro exI [of _ db]) simp
qed

lemma flush_up:
  assumes "redis_ok (pw_redis W)" "redis_up (pw_redis W)" "prost_total (pw_prost W)" "snap_total (pw_snap W)"
    and "\<And>req. hq_url req = pc_prometheus_url (pi_config inn) \<Longrightarrow>
      (''Content-Encoding'', ''snappy'') \<in> set (hq_headers req) \<Longrightarrow>
      pw_http W req = Inr \<lparr>hr_status = 204, hr_text = txt\<rparr>"
    and "edge_view (pw_redis W, pi_edges inn) (px_redis px) k = Some v" "0 \<le> sint v"
  shows "\<exists>body. flush_edges (W\<lparr>pw_wall := t\<rparr>) inn px =
    (Ok (), px\<lparr>px_posted := px_posted px @ [remote_write_request inn body]\<rparr>)"
proof -
  obtain totals where t: "edge_totals (pw_redis W) (pi_edges inn) (px_redis px) = Ok totals"
    using up_stores(3) [OF assms(2)] by (auto simp: is_ok_iff)
  from edge_totals_Ok [OF assms(1) t] assms(6,7) have ne: "totals \<noteq> []" by auto
  obtain pb where pb: "encode_write_request (pw_prost W) (map (edge_series (server_now_ms t)) totals) = Ok pb"
    using encode_total [OF assms(3)] by blast
  obtain body where body: "pw_snap W pb = Inr body" using assms(4) by (auto simp: snap_total_def)
  have "upstream (W\<lparr>pw_wall := t\<rparr>) inn body = Ok 204"
    using assms(5) [of "remote_write_request inn body"]
    by (simp add: upstream_def remote_write_request_def is_success_def)
  then show ?thesis
    using t pb body ne by (intro exI [of _ body]) (simp add: flush_edges_def Let_def post_remote_write_eq)
qed

lemma matches_remote_write:
  assumes "pc_prometheus_url (pi_config inn) = uri @ ''/api/v1/write''"
    and "set hs \<subseteq> {(''Content-Encoding'', ''snappy''), (''Content-Type'', ''application/x-protobuf''),
      (''X-Prometheus-Remote-Write-Version'', ''0.1.0'')}"
  shows "matches uri hs (remote_write_request inn body)"
proof -
  have "{(''Content-Encoding'', ''snappy''), (''Content-Type'', ''application/x-protobuf''),
      (''X-Prometheus-Remote-Write-Version'', ''0.1.0'')} \<subseteq> set (hq_headers (remote_write_request inn body))"
    by (simp add: remote_write_request_def)
  with assms(2) have "set hs \<subseteq> set (hq_headers (remote_write_request inn body))" by (rule subset_trans)
  moreover have "hq_url (remote_write_request inn body) = uri @ ''/api/v1/write''"
    using assms(1) by (simp add: remote_write_request_def)
  ultimately show ?thesis by (simp add: matches_def)
qed

theorem flush_test_passes:
  assumes "redis_ok (pw_redis W)" and "redis_up (pw_redis W)" and "rs_open (pw_redis W) (redis_url_of env) = None"
    and "prost_total (pw_prost W)" and "snap_total (pw_snap W)"
    and "mounted (pw_http W) uri [(''Content-Encoding'', ''snappy'')] \<lparr>hr_status = 204, hr_text = Inr []\<rparr>"
    and "px_posted px = []"
  shows "fst (flush_edges_posts_counter_totals W t1 t2 env pid uri px) = Done ()"
proof -
  let ?R = "pw_redis W" and ?st = "\<lambda>db posted. \<lparr>px_redis = db, px_posted = posted\<rparr>"
  obtain r where px: "px = ?st r []" using assms(7) by (cases px) simp
  obtain inn db where ti: "test_inner ?R env pid (uri @ ''/api/v1/write'') px = (Done (Some inn), ?st db [])"
    and url: "pc_prometheus_url (pi_config inn) = uri @ ''/api/v1/write''"
    and v0: "edge_view (?R, pi_edges inn) db = Map.empty"
    using test_inner_up [OF assms(1-3), of pid "uri @ ''/api/v1/write''" px]
    by (elim exE conjE) (rule that, simp_all add: px)
  let ?v = "edge_view (?R, pi_edges inn)" and ?q = "remote_write_request inn"
  have up: "pw_http W req = Inr \<lparr>hr_status = 204, hr_text = Inr []\<rparr>"
    if "hq_url req = pc_prometheus_url (pi_config inn)" "(''Content-Encoding'', ''snappy'') \<in> set (hq_headers req)" for req
    using assms(6) that url by (auto simp: mounted_def matches_def)
  note fl = flush_up [where inn = inn, OF assms(1,2,4,5) up]
  note inc = incr_up [OF assms(1,2), where st = "pi_edges inn"]
  obtain db1 where i1: "on_redis (edge_incr ?R (pi_edges inn) ''requests'' 7) (?st db []) = (Ok (), ?st db1 [])"
    and v1: "?v db1 = [''requests'' \<mapsto> 7]"
    using inc [of 7 "?st db []" "''requests''"] by (auto simp: v0 old_value_def)
  obtain db2 where i2: "on_redis (edge_incr ?R (pi_edges inn) ''errors'' 2) (?st db1 []) = (Ok (), ?st db2 [])"
    and v2: "?v db2 = [''requests'' \<mapsto> 7, ''errors'' \<mapsto> 2]"
    using inc [of 2 "?st db1 []" "''errors''"] by (auto simp: v1 old_value_def)
  obtain b1 where f1: "flush_edges (W\<lparr>pw_wall := t1\<rparr>) inn (?st db2 []) = (Ok (), ?st db2 [?q b1])"
    using fl [where px = "?st db2 []" and k = "''requests''" and v = 7 and t = t1] by (auto simp: v2)
  obtain db3 where i3: "on_redis (edge_incr ?R (pi_edges inn) ''requests'' 3) (?st db2 [?q b1]) = (Ok (), ?st db3 [?q b1])"
    and v3: "?v db3 ''requests'' = Some 10"
    using inc [of 3 "?st db2 [?q b1]" "''requests''"] by (auto simp: v2 old_value_def)
  obtain b2 where f2: "flush_edges (W\<lparr>pw_wall := t2\<rparr>) inn (?st db3 [?q b1]) = (Ok (), ?st db3 [?q b1, ?q b2])"
    using fl [where px = "?st db3 [?q b1]" and k = "''requests''" and v = 10 and t = t2] v3 by auto
  show ?thesis
    using matches_remote_write [OF url, of "[(''Content-Encoding'', ''snappy'')]"]
    by (simp add: flush_edges_posts_counter_totals_def drop_mock_def ti i1 i2 f1 i3 f2 assert_eq_def)
qed

text \<open>
  The test means to be skipped where there is no Redis, by returning early. But the mock is
  already mounted then, and it panics when it is dropped without having seen a request.
\<close>

theorem flush_test_fails_without_redis:
  assumes "rs_open (pw_redis W) (redis_url_of env) = Some e" and "px_posted px = []"
  shows "fst (flush_edges_posts_counter_totals W t1 t2 env pid uri px) =
    Failed ''assertion `left == right` failed''"
  by (simp add: flush_edges_posts_counter_totals_def drop_mock_def test_inner_def Let_def edge_connect_def
      assms assert_eq_def)

section \<open>mod.rs\<close>

fun prom_client_error_to_string :: "prom_client_error \<Rightarrow> string" where
  "prom_client_error_to_string (PClE_Io e) = ''io: '' @ io_msg e"
| "prom_client_error_to_string (PClE_Json (Prom_Json_Error s)) = ''json: '' @ s"
| "prom_client_error_to_string (PClE_Protocol s) = s"

definition test_server ::
  "'r prom_world \<Rightarrow> (string \<Rightarrow> string option) \<Rightarrow> nat \<Rightarrow> socket_addr \<Rightarrow> string \<Rightarrow> 'r proxy_state \<Rightarrow>
   prom_inner option test \<times> 'r proxy_state" where
  "test_server W env counter listen prometheus_url px =
     (let redis_url = redis_url_of env;
          hash_key = ''prom_proxy:test:mod:'' @ show_dec counter in
      case edge_connect (pw_redis W) redis_url hash_key (px_redis px) of
        Panic m \<Rightarrow> (Failed m, px)
      | Err _ \<Rightarrow> (Done None, px)
      | Ok edges \<Rightarrow>
          stbind (sdiscard (on_redis (edge_clear (pw_redis W) edges) px)) (\<lambda>_ px.
          case prom_server_new W (with_edge_hash_key hash_key
                 (prom_config_new listen prometheus_url redis_url)) (px_redis px) of
            Panic m \<Rightarrow> (Failed m, px)
          | Err _ \<Rightarrow> (Done None, px)
          | Ok inn \<Rightarrow> (Done (Some inn), px)))"

text \<open>
  Client and server share the process and so its key. Each test makes one call; the server
  meets the first tick of its flush timer, which comes at once, and then the connection.
\<close>

record 'l test_net =
  tn_env :: "string \<Rightarrow> string option"
  tn_bind :: "socket_addr \<Rightarrow> io_error + 'l"
  tn_local_addr :: "'l \<Rightarrow> io_error + socket_addr"
  tn_counter :: nat
  tn_uri :: string
  tn_rng :: rng

definition same_process :: "'r prom_world \<Rightarrow> rng \<Rightarrow> client_env" where
  "same_process W rng =
     \<lparr>ce_codec = pw_codec W, ce_key = pw_key W, ce_rng = rng, ce_json = pw_json W, ce_snap = pw_snap W,
      ce_prost = pw_prost W, ce_display = (\<lambda>_. []), ce_wall = pw_wall W\<rparr>"

definition proxy_test ::
  "'r prom_world \<Rightarrow> 'l test_net \<Rightarrow> (client_env \<Rightarrow> io_error + conn \<Rightarrow> bytes \<Rightarrow> prom_client \<Rightarrow> u16 call) \<Rightarrow>
   bytes test \<Rightarrow> ((prom_client_error, u16) res \<Rightarrow> unit test) \<Rightarrow> 'r proxy_state \<Rightarrow> unit test \<times> 'r proxy_state" where
  "proxy_test W T call body check px =
     stbind (test_server W (tn_env T) (tn_counter T) any_local_port (tn_uri T @ ''/api/v1/write'') px)
       (\<lambda>server px.
     case server of
       None \<Rightarrow> (Done (), px)
     | Some inn \<Rightarrow>
         let serve_events = prom_spawn_with_addr (tn_bind T) (tn_local_addr T) inn in
         (case snd (serve_events [] px) of
            None \<Rightarrow> (Failed UNWRAP_ERR, px)
          | Some addr \<Rightarrow>
              stbind (body, px) (\<lambda>body px.
              let (status, _, out) =
                    call (same_process W (tn_rng T)) (Inr (proxy_conn W inn px)) body prom_client_new;
                  running = fst (serve_events [Flush_Tick W, Accepted W (accepted eof out)] px) in
              (check status, sv_px running))))"

definition fake_body :: "snap \<Rightarrow> bytes test" where
  "fake_body snap =
     unwrap (prepare_remote_write_body snap (bstr ''fake-write-request-protobuf'') :: (unit, bytes) res)"

definition proxy_forwards_body_and_returns_ack ::
  "'r prom_world \<Rightarrow> key_cell \<Rightarrow> 'l test_net \<Rightarrow> 'r proxy_state \<Rightarrow> unit test \<times> 'r proxy_state" where
  "proxy_forwards_body_and_returns_ack W cell T px =
     (let W = W\<lparr>pw_key := ensure_test_key cell\<rparr> in
      drop_mock (tn_uri T) [(''Content-Encoding'', ''snappy''), (''Content-Type'', ''application/x-protobuf''),
          (''X-Prometheus-Remote-Write-Version'', ''0.1.0'')] 1
        (proxy_test W T remote_write (fake_body (pw_snap W))
           (\<lambda>r. tbind (unwrap r) (\<lambda>status. assert_eq status 204)) px))"

definition blocking_client_forwards_body_and_returns_ack ::
  "'r prom_world \<Rightarrow> key_cell \<Rightarrow> 'l test_net \<Rightarrow> 'r proxy_state \<Rightarrow> unit test \<times> 'r proxy_state" where
  "blocking_client_forwards_body_and_returns_ack W cell T px =
     (let W = W\<lparr>pw_key := ensure_test_key cell\<rparr> in
      drop_mock (tn_uri T) [] 1
        (proxy_test W T remote_write_blocking (fake_body (pw_snap W))
           (\<lambda>r. tbind (unwrap r) (\<lambda>status. assert_eq status 204)) px))"

definition proxy_surfaces_upstream_error ::
  "'r prom_world \<Rightarrow> key_cell \<Rightarrow> 'l test_net \<Rightarrow> 'r proxy_state \<Rightarrow> unit test \<times> 'r proxy_state" where
  "proxy_surfaces_upstream_error W cell T px =
     (let W = W\<lparr>pw_key := ensure_test_key cell\<rparr> in
      proxy_test W T remote_write (Done (bstr ''x''))
        (\<lambda>r. tbind (unwrap_err r) (\<lambda>err. assert_that (sublist ''400'' (prom_client_error_to_string err)))) px)"

section \<open>The tests pass\<close>

text \<open>Replies that fit easily.\<close>

definition pjson_small :: "pjson \<Rightarrow> bool" where
  "pjson_small J \<longleftrightarrow>
     (\<forall>a. \<exists>b. ack_to_vec J a = Inr b \<and> length b \<le> 256) \<and>
     (\<forall>e. length (pe_message e) \<le> 40 \<longrightarrow> (\<exists>b. perr_to_vec J e = Inr b \<and> length b \<le> 256))"

lemma build_small_encrypted:
  assumes "codec_ok C" "codec_small C" "unat mt \<le> 31" "length d \<le> 256"
  shows "\<exists>buf. build_wire_frame C (Some (Some key)) rng mt tx d CHACHA20POLY1305 = Ok buf"
  using build_small [OF assms(1,2) _ assms(4), of mt 4] assms(3)
  by (simp add: header_ok_def CHACHA20POLY1305_def)

text \<open>A call of a client with the server's key, and what the server does for it.\<close>

lemma call_answered:
  assumes "codec_ok (pw_codec W)" "codec_small (pw_codec W)" "redis_ok (pw_redis W)"
    and "pw_key W = Some (Some key)" "pc_message_type (pi_config inn) = MSG_REMOTE_WRITE"
    and "length body \<le> 256" "outcome_reply (pw_json W) (upstream W inn body) = (mt, Inr b)" "length b \<le> 256"
  shows "\<exists>c' out. remote_write (same_process W rng) (Inr (proxy_conn W inn px)) body prom_client_new =
      (decode_response (pw_json W) (decoded mt CHACHA20POLY1305 1 b), c', out) \<and>
    conn_posts W inn (accepted eof out) = [body]"
proof -
  let ?E = "same_process W rng" and ?C = "pw_codec W" and ?K = "Some (Some key)"
  have mt: "unat mt \<le> 31"
    using assms(7) by (auto simp: outcome_reply_def prom_msgs split: res.splits)
  obtain out where b1: "build_wire_frame ?C ?K rng MSG_REMOTE_WRITE 1 body CHACHA20POLY1305 = Ok out"
    using build_small_encrypted [OF assms(1,2) _ assms(6), of MSG_REMOTE_WRITE] by (fastforce simp: prom_msgs)
  obtain buf where b2: "build_wire_frame ?C ?K (pw_rng W) mt 1 b CHACHA20POLY1305 = Ok buf"
    using build_small_encrypted [OF assms(1,2) mt assms(8)] by fast
  let ?c = "accepted eof out" and ?f = "decoded MSG_REMOTE_WRITE CHACHA20POLY1305 1 body"
  have rd: "read_frame ?C (pw_key W) (st_rd ?c) = Ok (?f, (st_rd ?c)\<lparr>rd_inp := []\<rparr>)"
    using build_reads_back [OF assms(1) b1, of "st_rd ?c"] assms(4) by simp
  have "sink_good (st_wr ?c)" "f_message_type ?f = pc_message_type (pi_config inn)"
    by (simp_all add: assms(5))
  from prom_handle_conn_forward [OF assms(3) this(1) rd this(2), of px] b2
  have "sk_out (snd (proxy_serve W inn px ?c)) = buf"
    by (simp add: proxy_serve_def assms(4,7))
  with build_reads_back [OF assms(1) b2, of "cn_reply (proxy_conn W inn px) out"]
  obtain r where "read_frame ?C ?K (cn_reply (proxy_conn W inn px) out) = Ok (decoded mt CHACHA20POLY1305 1 b, r)"
    by simp
  then have "remote_write ?E (Inr (proxy_conn W inn px)) body prom_client_new =
      (decode_response (pw_json W) (decoded mt CHACHA20POLY1305 1 b), snd (prom_next_tx_id prom_client_new), out)"
    using b1 by (simp add: remote_write_def prom_next_tx_id_def Let_def prom_client_new_def write_frame_good
        same_process_def assms(4))
  moreover have "conn_posts W inn ?c = [body]" by (simp add: conn_posts_def rd assms(5))
  ultimately show ?thesis by blast
qed

lemma test_server_up:
  assumes "redis_ok (pw_redis W)" "redis_up (pw_redis W)" "rs_open (pw_redis W) (redis_url_of env) = None"
  shows "\<exists>inn db. test_server W env n a url px = (Done (Some inn), px\<lparr>px_redis := db\<rparr>) \<and>
    pc_prometheus_url (pi_config inn) = url \<and> pc_listen (pi_config inn) = a \<and>
    pc_message_type (pi_config inn) = MSG_REMOTE_WRITE \<and>
    edge_view (pw_redis W, pi_edges inn) db = Map.empty"
proof -
  let ?st = "\<lparr>es_hash_key = ''prom_proxy:test:mod:'' @ show_dec n\<rparr>"
  obtain db where c: "edge_clear (pw_redis W) ?st (px_redis px) = (Ok (), db)"
    using up_stores(1) [OF assms(2), of ?st "px_redis px"]
    by (cases "edge_clear (pw_redis W) ?st (px_redis px)") (auto simp: is_ok_iff)
  with edge_clear_Ok [OF assms(1) c] show ?thesis
    by (intro exI [of _ db] exI)
       (auto simp: test_server_def Let_def connect_up [OF assms(2)] assms(3) with_edge_hash_key_def
         prom_config_new_def prom_server_new_def)
qed

lemma flush_nothing:
  assumes "redis_ok (pw_redis W)" "redis_up (pw_redis W)"
    and "edge_view (pw_redis W, pi_edges inn) (px_redis px) = Map.empty"
  shows "flush_edges W inn px = (Ok (), px)"
proof -
  obtain totals where t: "edge_totals (pw_redis W) (pi_edges inn) (px_redis px) = Ok totals"
    using up_stores(3) [OF assms(2)] by (auto simp: is_ok_iff)
  from edge_totals_Ok [OF assms(1) t] assms(3) have "totals = []" by (cases totals) auto
  with t show ?thesis by (simp add: flush_edges_def)
qed

definition test_ready :: "'r prom_world \<Rightarrow> key_cell \<Rightarrow> 'l test_net \<Rightarrow> bool" where
  "test_ready W cell T \<longleftrightarrow>
     codec_ok (pw_codec W) \<and> codec_small (pw_codec W) \<and> pjson_ok (pw_json W) \<and> pjson_small (pw_json W) \<and>
     redis_ok (pw_redis W) \<and> redis_up (pw_redis W) \<and> rs_open (pw_redis W) (redis_url_of (tn_env T)) = None \<and>
     snap_total (pw_snap W) \<and> key_usable cell \<and>
     (\<exists>l a. tn_bind T any_local_port = Inr l \<and> tn_local_addr T l = Inr a)"

text \<open>One test, by what the upstream answers to the body.\<close>

lemma proxy_test_run:
  assumes "test_ready W cell T" "W' = W\<lparr>pw_key := ensure_test_key cell\<rparr>" "length body \<le> 256"
    and "\<And>inn. pc_prometheus_url (pi_config inn) = tn_uri T @ ''/api/v1/write'' \<Longrightarrow> upstream W' inn body = u"
    and "outcome_reply (pw_json W) u = (mt, Inr b)" "length b \<le> 256"
  shows "\<exists>inn px'. pc_prometheus_url (pi_config inn) = tn_uri T @ ''/api/v1/write'' \<and>
    px_posted px' = px_posted px @ [remote_write_request inn body] \<and>
    proxy_test W' T remote_write (Done body) check px =
      (check (decode_response (pw_json W) (decoded mt CHACHA20POLY1305 1 b)), px')"
proof -
  obtain key where key: "ensure_test_key cell = Some (Some key)"
    using assms(1) ensure_test_key_Some by (auto simp: test_ready_def)
  have W': "codec_ok (pw_codec W')" "codec_small (pw_codec W')" "redis_ok (pw_redis W')" "redis_up (pw_redis W')"
    "rs_open (pw_redis W') (redis_url_of (tn_env T)) = None" "pw_key W' = Some (Some key)" "pw_json W' = pw_json W"
    using assms(1,2) key by (simp_all add: test_ready_def)
  obtain inn db where ts: "test_server W' (tn_env T) (tn_counter T) any_local_port (tn_uri T @ ''/api/v1/write'') px =
      (Done (Some inn), px\<lparr>px_redis := db\<rparr>)" and url: "pc_prometheus_url (pi_config inn) = tn_uri T @ ''/api/v1/write''"
    and inn: "pc_listen (pi_config inn) = any_local_port" "pc_message_type (pi_config inn) = MSG_REMOTE_WRITE"
    and v: "edge_view (pw_redis W', pi_edges inn) db = Map.empty"
    using test_server_up [OF W'(3-5)] by blast
  let ?px = "px\<lparr>px_redis := db\<rparr>"
  from call_answered [OF W'(1-3,6) inn(2) assms(3), of mt b "tn_rng T" ?px] assms(4) [OF url] assms(5,6) W'(7)
  obtain c' out where c: "remote_write (same_process W' (tn_rng T)) (Inr (proxy_conn W' inn ?px)) body prom_client_new =
      (decode_response (pw_json W) (decoded mt CHACHA20POLY1305 1 b), c', out)"
    and p: "conn_posts W' inn (accepted eof out) = [body]" by auto
  have f: "flush_edges W' inn ?px = (Ok (), ?px)" by (rule flush_nothing [OF W'(3,4)]) (simp add: v)
  let ?px' = "fst (snd (prom_handle_conn W' inn (accepted eof out) ?px))"
  obtain addr where a: "\<And>evs. prom_spawn_with_addr (tn_bind T) (tn_local_addr T) inn evs ?px =
      (serve inn evs \<lparr>sv_px = ?px, sv_flushing = True, sv_replies = [], sv_result = None\<rparr>, Some addr)"
    using assms(1) inn(1) by (auto simp: test_ready_def prom_spawn_with_addr_def spawn_with_ready_def)
  have "proxy_test W' T remote_write (Done body) check px =
      (check (decode_response (pw_json W) (decoded mt CHACHA20POLY1305 1 b)), ?px')"
    by (simp add: proxy_test_def ts a c f serve_def case_prod_beta)
  moreover have "px_posted ?px' = px_posted px @ [remote_write_request inn body]"
    by (simp add: prom_handle_conn_posted p)
  ultimately show ?thesis using url by blast
qed

lemma upstream_mounted:
  assumes "mounted (pw_http W) uri hs resp" "pc_prometheus_url (pi_config inn) = uri @ ''/api/v1/write''"
    and "set hs \<subseteq> {(''Content-Encoding'', ''snappy''), (''Content-Type'', ''application/x-protobuf''),
      (''X-Prometheus-Remote-Write-Version'', ''0.1.0'')}"
  shows "upstream (W\<lparr>pw_key := k\<rparr>) inn body =
    (if is_success (hr_status resp) then Ok (hr_status resp)
     else Err (PSrvE_Msg (''upstream HTTP '' @ show_dec (unat (hr_status resp)) @ '': '' @
            (case hr_text resp of Inl _ \<Rightarrow> [] | Inr t \<Rightarrow> t))))"
proof -
  have "pw_http W (remote_write_request inn body) = Inr resp"
    using assms(1) matches_remote_write [OF assms(2,3)] by (simp add: mounted_def)
  then show ?thesis by (simp add: upstream_def)
qed

lemma ack_test_run:
  assumes "test_ready W cell T" "px_posted px = []"
    and "mounted (pw_http W) (tn_uri T) hs \<lparr>hr_status = 204, hr_text = Inr []\<rparr>"
    and "set hs \<subseteq> {(''Content-Encoding'', ''snappy''), (''Content-Type'', ''application/x-protobuf''),
      (''X-Prometheus-Remote-Write-Version'', ''0.1.0'')}"
  shows "fst (drop_mock (tn_uri T) hs 1 (proxy_test (W\<lparr>pw_key := ensure_test_key cell\<rparr>) T remote_write
    (fake_body (pw_snap W)) (\<lambda>r. tbind (unwrap r) (\<lambda>status. assert_eq status 204)) px)) = Done ()"
proof -
  let ?W = "W\<lparr>pw_key := ensure_test_key cell\<rparr>"
  from assms(1) obtain body where body: "pw_snap W (bstr ''fake-write-request-protobuf'') = Inr body" "length body \<le> 256"
    by (fastforce simp: test_ready_def snap_total_def)
  obtain b where b: "ack_to_vec (pw_json W) \<lparr>ack_status = 204\<rparr> = Inr b" "length b \<le> 256"
    using assms(1) by (auto simp: test_ready_def pjson_small_def)
  have dec: "decode_response (pw_json W) (decoded MSG_REMOTE_WRITE_ACK CHACHA20POLY1305 1 b) = Ok 204"
    using assms(1) pjson_okD(1) [OF _ b(1)] by (simp add: test_ready_def decode_response_def)
  have "upstream ?W inn body = Ok 204" if "pc_prometheus_url (pi_config inn) = tn_uri T @ ''/api/v1/write''" for inn
    using upstream_mounted [OF assms(3) that assms(4)] by (simp add: is_success_def)
  from proxy_test_run [OF assms(1) refl body(2) this, of MSG_REMOTE_WRITE_ACK b px
      "\<lambda>r. tbind (unwrap r) (\<lambda>status. assert_eq status 204)"] b dec
  obtain inn px' where url: "pc_prometheus_url (pi_config inn) = tn_uri T @ ''/api/v1/write''"
    and p: "px_posted px' = [remote_write_request inn body]"
    and t: "proxy_test ?W T remote_write (Done body) (\<lambda>r. tbind (unwrap r) (\<lambda>status. assert_eq status 204)) px =
      (Done (), px')"
    by (auto simp: outcome_reply_def assms(2) assert_eq_def)
  have "fake_body (pw_snap W) = Done body"
    using body(1) by (simp add: fake_body_def prepare_remote_write_body_def)
  with t p matches_remote_write [OF url assms(4)] show ?thesis by (simp add: drop_mock_def assert_eq_def)
qed

lemma error_test_run:
  assumes "test_ready W cell T"
    and "mounted (pw_http W) (tn_uri T) [] \<lparr>hr_status = 400, hr_text = Inr ''bad request''\<rparr>"
  shows "fst (proxy_surfaces_upstream_error W cell T px) = Done ()"
proof -
  let ?W = "W\<lparr>pw_key := ensure_test_key cell\<rparr>" and ?m = "''upstream HTTP '' @ ''400'' @ '': bad request''"
  let ?check = "\<lambda>r. tbind (unwrap_err r) (\<lambda>err. assert_that (sublist ''400'' (prom_client_error_to_string err)))"
  have d: "show_dec 400 = ''400''" by code_simp
  have u: "upstream ?W inn (bstr ''x'') = Err (PSrvE_Msg ?m)"
    if "pc_prometheus_url (pi_config inn) = tn_uri T @ ''/api/v1/write''" for inn
    using upstream_mounted [OF assms(2) that] by (simp add: is_success_def d)
  obtain b where b: "perr_to_vec (pw_json W) \<lparr>pe_message = ?m\<rparr> = Inr b" "length b \<le> 256"
  proof -
    have "pjson_small (pw_json W)" using assms(1) by (simp add: test_ready_def)
    from this [unfolded pjson_small_def, THEN conjunct2, rule_format, of "\<lparr>pe_message = ?m\<rparr>"]
    show thesis by (auto intro: that)
  qed
  have dec: "decode_response (pw_json W) (decoded PROM_MSG_ERROR CHACHA20POLY1305 1 b) = Err (PClE_Protocol ?m)"
    using assms(1) pjson_okD(2) [OF _ b(1)] by (simp add: test_ready_def decode_response_def prom_msgs)
  have "outcome_reply (pw_json W) (Err (PSrvE_Msg ?m)) = (PROM_MSG_ERROR, Inr b)"
    using b(1) by (simp add: outcome_reply_def)
  from proxy_test_run [OF assms(1) refl _ u this b(2), of px ?check]
  obtain px' where t: "proxy_test ?W T remote_write (Done (bstr ''x'')) ?check px =
      (?check (Err (PClE_Protocol ?m)), px')"
    unfolding dec by auto
  have "sublist ''400'' ?m" by (rule sublist_appendI)
  then have "?check (Err (PClE_Protocol ?m) :: (prom_client_error, u16) res) = Done ()"
    by (simp only: unwrap_err.simps tbind.simps prom_client_error_to_string.simps assert_that_def if_True)
  with t show ?thesis
    unfolding proxy_surfaces_upstream_error_def Let_def by simp
qed

text \<open>
  C37: The integration tests of the proxy pass in the model: with Redis up, a mock upstream and
  parameters that do not refuse small inputs, both clients get the status 204 and the mock
  sees exactly one request with the headers asked for; and an upstream that answers 400 is
  reported to the client with its status.
\<close>

theorem proxy_tests_pass:
  assumes "test_ready W cell T" and "px_posted px = []"
  shows "(mounted (pw_http W) (tn_uri T) [(''Content-Encoding'', ''snappy''), (''Content-Type'', ''application/x-protobuf''),
        (''X-Prometheus-Remote-Write-Version'', ''0.1.0'')] \<lparr>hr_status = 204, hr_text = Inr []\<rparr> \<longrightarrow>
      fst (proxy_forwards_body_and_returns_ack W cell T px) = Done ()) \<and>
    (mounted (pw_http W) (tn_uri T) [] \<lparr>hr_status = 204, hr_text = Inr []\<rparr> \<longrightarrow>
      fst (blocking_client_forwards_body_and_returns_ack W cell T px) = Done ()) \<and>
    (mounted (pw_http W) (tn_uri T) [] \<lparr>hr_status = 400, hr_text = Inr ''bad request''\<rparr> \<longrightarrow>
      fst (proxy_surfaces_upstream_error W cell T px) = Done ())"
proof (intro conjI impI)
  assume "mounted (pw_http W) (tn_uri T) [(''Content-Encoding'', ''snappy''), (''Content-Type'', ''application/x-protobuf''),
        (''X-Prometheus-Remote-Write-Version'', ''0.1.0'')] \<lparr>hr_status = 204, hr_text = Inr []\<rparr>"
  from ack_test_run [OF assms this]
  show "fst (proxy_forwards_body_and_returns_ack W cell T px) = Done ()"
    by (simp add: proxy_forwards_body_and_returns_ack_def Let_def)
next
  have "remote_write_blocking = remote_write"
    by (intro ext) (simp add: remote_write_blocking_def remote_write_def write_frame_blocking_eq read_frame_eq_blocking)
  moreover assume "mounted (pw_http W) (tn_uri T) [] \<lparr>hr_status = 204, hr_text = Inr []\<rparr>"
  from ack_test_run [OF assms this]
  have "fst (drop_mock (tn_uri T) [] 1 (proxy_test (W\<lparr>pw_key := ensure_test_key cell\<rparr>) T remote_write
    (fake_body (pw_snap W)) (\<lambda>r. tbind (unwrap r) (\<lambda>status. assert_eq status 204)) px)) = Done ()" by simp
  ultimately show "fst (blocking_client_forwards_body_and_returns_ack W cell T px) = Done ()"
    by (simp add: blocking_client_forwards_body_and_returns_ack_def Let_def)
qed (use assms(1) error_test_run in blast)

definition sample_net :: "unit test_net" where
  "sample_net =
     \<lparr>tn_env = (\<lambda>_. None), tn_bind = (\<lambda>_. Inr ()), tn_local_addr = (\<lambda>_. Inr any_local_port), tn_counter = 0,
      tn_uri = ''http://127.0.0.1:1'', tn_rng = (\<lambda>_. 1)\<rparr>"

theorem proxy_tests_pass_witness:
  "fst (proxy_forwards_body_and_returns_ack (sample_proxy no_content) None sample_net
     \<lparr>px_redis = [], px_posted = []\<rparr>) = Done ()"
proof -
  have r: "test_ready (sample_proxy no_content) None sample_net"
    by (simp add: test_ready_def sample_codec_ok sample_redis_ok sample_redis_up snap_total_def key_usable_def
        sample_net_def pjson_small_def codec_small_def sample_redis_def [THEN arg_cong [of _ _ rs_open]])
       (simp add: sample_codec_def sample_pjson_def to_vec_def)
  have "px_posted (\<lparr>px_redis = [], px_posted = []\<rparr> :: ((string \<times> string) \<times> i64) list proxy_state) = []" by simp
  moreover have "mounted (pw_http (sample_proxy no_content)) uri hs \<lparr>hr_status = 204, hr_text = Inr []\<rparr>" for uri hs
    by (simp add: mounted_def no_content_def)
  ultimately show ?thesis using proxy_tests_pass [OF r] by blast
qed

text \<open>
  These tests, too, are not skipped without Redis: they return early, but the mock that is
  dropped then has not seen its request.
\<close>

theorem ack_tests_fail_without_redis:
  assumes "rs_open (pw_redis W) (redis_url_of (tn_env T)) = Some e" and "px_posted px = []"
  shows "fst (proxy_forwards_body_and_returns_ack W cell T px) = Failed ''assertion `left == right` failed''"
    and "fst (blocking_client_forwards_body_and_returns_ack W cell T px) =
      Failed ''assertion `left == right` failed''"
  by (simp_all add: proxy_forwards_body_and_returns_ack_def blocking_client_forwards_body_and_returns_ack_def
      drop_mock_def proxy_test_def test_server_def Let_def edge_connect_def assms assert_eq_def)

end
