(* ===== verification/Spec2Isabelle.thy ===== *)
theory Spec2Isabelle
  imports Dfinder_Spec Dfinder_Session Dfinder_Tests Prom_Spec Prom_Security Prom_Output Prom_Tests
begin

text \<open>
  A model of the Rust crate \<open>proto4\<close>: framed messages over TCP (\<open>src/tiny_frame.rs\<close>), a
  registry of nodes built on them (\<open>src/dfinder/\<close>), and a proxy that carries Prometheus
  remote-write requests over them (\<open>src/prom_proxy/\<close>, \<open>src/bin/prom_proxy.rs\<close>).

  \<^bold>\<open>Conventions.\<close> Machine integers are words, a Rust string is its UTF-8 bytes as a HOL
  \<open>string\<close>. A result is \<open>Ok\<close>, \<open>Err\<close> or \<open>Panic\<close>; a function that changes state returns the
  new state beside the result, also when it fails. What a call meets outside the crate is an
  argument: the codec (flate2, ChaCha20-Poly1305), serde_json, SQLite, prost, Snappy, Redis
  and the upstream are records of functions with their documented laws as predicates
  (\<open>codec_ok\<close>, \<open>json_ok\<close>, \<open>engine_ok\<close>, \<open>prost_ok\<close>, \<open>redis_ok\<close>, \<open>pjson_ok\<close>), each with a
  concrete instance; random bytes, clocks and peers are parameters without laws. The
  standard library is written out as far as it is used.

  \<^bold>\<open>Frames.\<close> \<open>Streams\<close> has readers and writers, \<open>Tiny_Frame\<close> the functions of
  \<open>tiny_frame.rs\<close> under their names, the global key as a state \<open>key_cell\<close>, and the lemmas on
  building and parsing. \<open>Frame_Channel\<close> states the frame stream as a locale, interpreted by
  the async and the blocking functions, and holds the properties: round trips, the
  capacity of a frame, authenticity of encrypted frames, behaviour on truncation and
  failing writers.

  \<^bold>\<open>Registry.\<close> \<open>Dfinder_Protocol\<close> (\<open>protocol.rs\<close>) and \<open>Dfinder_Store\<close> (\<open>store.rs\<close>): the SQL
  statements as operations on rows, refining a map from address to node. \<open>Dfinder_Server\<close>
  (\<open>server.rs\<close>): start-up, the handlers and the functions of a probe cycle, with the
  invariant \<open>server_inv\<close> that health records and registered nodes agree. \<open>Dfinder_Cycle\<close> says
  what a cycle and a sequence of cycles do. \<open>Dfinder_Race\<close> interleaves requests with the
  critical sections of a cycle (\<open>sys_step\<close>, \<open>sys_reach\<close>) and shows what holds in every
  reachable state, and that a registration in the middle of a cycle can be lost. It has one
  probe task, as \<open>run\<close> starts it; a program that calls \<open>spawn_probe\<close> itself can start more.
  \<open>Dfinder_Serve\<close> runs the server over a sequence of events and shows that its runs are runs
  of the interleaved system. \<open>Client_Conn\<close> and \<open>Dfinder_Client\<close> (\<open>client.rs\<close>) connect the
  client with the modelled server, for statements from end to end. \<open>Dfinder_Session\<close> follows
  a registered node through the interleaved system, for as long as it answers its probes and
  nobody registers under its address, up to the answer of a later query. \<open>Dfinder_Spec\<close> specifies
  the registry as a map from addresses to nodes with their last success, on which nodes are
  registered, answer probes, fail them and expire; the interleaved system refines it, as an
  interpretation of the locale of \<open>Simulation\<close>, and queries read it.

  \<^bold>\<open>Proxy.\<close> \<open>Prom_Protocol\<close>, \<open>Prom_Encode\<close> (metric families to protobuf, with a
  reference definition for the four types the encoder has a branch for; a family of type
  UNTYPED is skipped by the code, against its doc comment) and \<open>Prom_Edge\<close> (the counters in Redis, both stores
  as interpretations of one locale) model the files of the same names. \<open>Prom_Server\<close> has the
  handler and the flush of \<open>server.rs\<close>; its state is the Redis database and the log of
  requests posted upstream. \<open>Prom_Serve\<close> has the server over a sequence of events and with
  its tasks interleaved (\<open>px_step\<close>, \<open>px_reach\<close>), where every upstream request is accounted
  for and posted totals never decrease. In it the tasks of the proxy are the only writers of
  the Redis hash; another process that counts into the same hash, such as a user of
  \<open>EdgeStoreBlocking\<close>, takes no part. An Err of an HINCRBY may leave the command undone or
  carried out (\<open>redis_ok\<close>). \<open>Prom_Spec\<close> specifies what it counts and reports as a
  tally, which the interleaved system refines by the same locale. \<open>Prom_Client\<close> (\<open>client.rs\<close>)
  is connected with the modelled proxy. \<open>Prom_Security\<close> says where a posted body and an
  accepted status can come from, with the key and without. \<open>Addr_Parse\<close>, \<open>Hex_Key\<close> and
  \<open>Prom_Args\<close> model the command line of the binary, \<open>Prom_Main\<close> its start-up, \<open>Prom_Output\<close> what it prints on stderr,
  the messages of its panics included.

  \<^bold>\<open>Tests.\<close> \<open>Frame_Tests\<close>, \<open>Edge_Tests\<close>, \<open>Prom_Tests\<close> and \<open>Dfinder_Tests\<close> translate the tests of
  the crate into programs over the modelled operations, on the assertions and unwraps of
  \<open>Test_Base\<close>, and show in which environments they pass; the tests of the proxy also which
  of them fail where they mean to be skipped.

  \<^bold>\<open>Shared.\<close> \<open>Prelude\<close> has results, byte encodings and number formatting, \<open>Net_Addr\<close>
  addresses and their text; \<open>Sample_Parsers\<close> and \<open>Sample_Json\<close> are the concrete instances the
  witnesses evaluate.

  \<^bold>\<open>Loops.\<close> The loop over the arguments is a partial function with a proof that it returns.
  The serving and probing loops never end in the code; they are functions of the finite
  sequence of events met so far, or step relations. No definition uses fuel.

  \<^bold>\<open>Not modelled.\<close> The Go packages \<open>tinyframe\<close>, \<open>promproxy\<close> and \<open>cmd\<close> (a second
  implementation in another language); what the tasks of the servers print about failed
  connections, probes and flushes; the cancellation of a task by the user of a join handle;
  timers except for the order of their ticks; the byte formats of JSON, protobuf and Snappy,
  which belong to other crates; the rendering of a double, which is a parameter. In what is
  printed: the line that gives the place of a panic, the escapes of the character that the
  panic of a slice names, and the text of an argument that is not Unicode.
\<close>

end
